(* ===== verification/Prelude.thy ===== *)
theory Prelude
  imports Main "HOL-Library.Word"
begin

text \<open>
  The vocabulary every component of the development shares.

  \<^item> \<open>usize\<close> is the 64-bit unsigned integer of the target. Its values are natural numbers, and
    the checked and saturating operations of the source are written out with its bound.
  \<^item> \<open>result\<close> is Rust's \<open>Result\<close> with the error on the left, and \<open>check\<close> is the question mark
    operator of a handler that threads a state: an error leaves the handler with the state as it is.
  \<^item> \<open>btree\<close> is \<open>BTreeMap\<close>, a list of bindings in strictly ascending key order, and \<open>bset\<close> is
    \<open>BTreeSet\<close>, a strictly ascending list. Both are executable and iterate in key order, which is
    what the sweeps of the stack rely on. The locales \<open>ordered_map\<close> and \<open>ordered_set\<close> state what the
    clients of these containers use, and are interpreted on the list operations.
\<close>

section \<open>Machine integers\<close>

type_synonym byte = "8 word"
type_synonym bytes = "byte list"

definition usize_max :: nat where
  "usize_max = 18446744073709551615"

definition u64_max :: nat where
  "u64_max = 18446744073709551615"

definition i64_max :: int where
  "i64_max = 9223372036854775807"

definition i64_min :: int where
  "i64_min = - 9223372036854775808"

definition checked_add :: "nat \<Rightarrow> nat \<Rightarrow> nat option" where
  "checked_add a b = (if a + b \<le> usize_max then Some (a + b) else None)"

definition checked_sub :: "nat \<Rightarrow> nat \<Rightarrow> nat option" where
  "checked_sub a b = (if b \<le> a then Some (a - b) else None)"

definition saturating_add :: "nat \<Rightarrow> nat \<Rightarrow> nat" where
  "saturating_add a b = min (a + b) usize_max"

definition saturating_mul :: "nat \<Rightarrow> nat \<Rightarrow> nat" where
  "saturating_mul a b = min (a * b) usize_max"

definition i64_checked :: "int \<Rightarrow> int option" where
  "i64_checked x = (if i64_min \<le> x \<and> x \<le> i64_max then Some x else None)"

section \<open>Results\<close>

type_synonym ('e, 'a) result = "'e + 'a"

definition ok_or :: "'e \<Rightarrow> 'a option \<Rightarrow> ('e, 'a) result" where
  "ok_or e v = (case v of None \<Rightarrow> Inl e | Some x \<Rightarrow> Inr x)"

definition check :: "('e, 'a) result \<Rightarrow> 's \<Rightarrow> ('a \<Rightarrow> ('e, 'b) result \<times> 's) \<Rightarrow> ('e, 'b) result \<times> 's" where
  "check r s k = (case r of Inl e \<Rightarrow> (Inl e, s) | Inr x \<Rightarrow> k x)"

definition bind_res :: "('e, 'a) result \<Rightarrow> ('a \<Rightarrow> ('e, 'b) result) \<Rightarrow> ('e, 'b) result" where
  "bind_res r k = (case r of Inl e \<Rightarrow> Inl e | Inr x \<Rightarrow> k x)"

definition is_ok :: "('e, 'a) result \<Rightarrow> bool" where
  "is_ok r = (case r of Inl e \<Rightarrow> False | Inr x \<Rightarrow> True)"

section \<open>Ordered maps and sets\<close>

type_synonym ('k, 'v) btree = "('k \<times> 'v) list"
type_synonym 'k bset = "'k list"

definition bt_empty :: "('k, 'v) btree" where
  "bt_empty = []"

definition bt_get :: "('k, 'v) btree \<Rightarrow> 'k \<Rightarrow> 'v option" where
  "bt_get m k = map_of m k"

fun bt_insert :: "'k::linorder \<Rightarrow> 'v \<Rightarrow> ('k, 'v) btree \<Rightarrow> ('k, 'v) btree" where
  "bt_insert k v [] = [(k, v)]"
| "bt_insert k v ((k', v') # m) =
     (if k < k' then (k, v) # (k', v') # m
      else if k = k' then (k, v) # m
      else (k', v') # bt_insert k v m)"

definition bt_remove :: "'k \<Rightarrow> ('k, 'v) btree \<Rightarrow> ('k, 'v) btree" where
  "bt_remove k m = filter (\<lambda>(k', _). k' \<noteq> k) m"

definition bt_ok :: "('k::linorder, 'v) btree \<Rightarrow> bool" where
  "bt_ok m = sorted_wrt (<) (map fst m)"

definition bt_values :: "('k, 'v) btree \<Rightarrow> 'v list" where
  "bt_values m = map snd m"

definition bs_insert :: "'k::linorder \<Rightarrow> 'k bset \<Rightarrow> 'k bset" where
  "bs_insert k s = (if k \<in> set s then s else insort k s)"

definition bs_remove :: "'k \<Rightarrow> 'k bset \<Rightarrow> 'k bset" where
  "bs_remove k s = filter (\<lambda>k'. k' \<noteq> k) s"

definition bs_ok :: "'k::linorder bset \<Rightarrow> bool" where
  "bs_ok s = sorted_wrt (<) s"

section \<open>Lemma collections\<close>

named_theorems handler_simps \<open>unfolding of the result combinators in a handler\<close>
named_theorems wf_intros \<open>preservation of the component invariants\<close>
named_theorems bound_simps \<open>the numeric bounds of the source\<close>

lemmas [bound_simps] = usize_max_def u64_max_def i64_max_def i64_min_def

lemma check_Inl [simp, handler_simps]: "check (Inl e) s k = (Inl e, s)"
  by (simp add: check_def)

lemma check_Inr [simp, handler_simps]: "check (Inr x) s k = k x"
  by (simp add: check_def)

lemma bind_res_simps [simp, handler_simps]:
  "bind_res (Inl e) f = Inl e" "bind_res (Inr x) f = f x"
  by (simp_all add: bind_res_def)

lemma ok_or_simps [simp, handler_simps]:
  "ok_or e None = Inl e" "ok_or e (Some x) = Inr x"
  by (simp_all add: ok_or_def)

lemma check_Inr_iff:
  "check r s k = (Inr y, s') \<longleftrightarrow> (\<exists>x. r = Inr x \<and> k x = (Inr y, s'))"
  by (cases r) (auto simp: check_def)

lemma check_cases:
  assumes "check r s k = (a, s')"
  obtains (err) e where "r = Inl e" and "a = Inl e" and "s' = s"
  | (ok) x where "r = Inr x" and "k x = (a, s')"
  using assms by (cases r) (auto simp: check_def)

lemma check_split:
  "P (check r s k) \<longleftrightarrow> (\<forall>e. r = Inl e \<longrightarrow> P (Inl e, s)) \<and> (\<forall>x. r = Inr x \<longrightarrow> P (k x))"
  by (cases r) (auto simp: check_def)

lemma is_ok_simps [simp]: "is_ok (Inl e) = False" "is_ok (Inr x) = True"
  by (simp_all add: is_ok_def)

lemma is_ok_iff: "is_ok r \<longleftrightarrow> (\<exists>x. r = Inr x)"
  by (cases r) auto

lemma checked_add_Some [simp]:
  "checked_add a b = Some c \<longleftrightarrow> c = a + b \<and> a + b \<le> usize_max"
  by (auto simp: checked_add_def)

lemma checked_add_None [simp]: "checked_add a b = None \<longleftrightarrow> usize_max < a + b"
  by (auto simp: checked_add_def)

lemma saturating_add_ge [simp]: "a \<le> usize_max \<Longrightarrow> a \<le> saturating_add a b"
  by (simp add: saturating_add_def)

section \<open>The ordered map interface\<close>

locale ordered_map =
  fixes get :: "'m \<Rightarrow> 'k::linorder \<Rightarrow> 'v option"
    and insert :: "'k \<Rightarrow> 'v \<Rightarrow> 'm \<Rightarrow> 'm"
    and remove :: "'k \<Rightarrow> 'm \<Rightarrow> 'm"
    and bindings :: "'m \<Rightarrow> ('k \<times> 'v) list"
    and invar :: "'m \<Rightarrow> bool"
  assumes bindings_sorted: "invar m \<Longrightarrow> sorted_wrt (<) (map fst (bindings m))"
    and get_bindings: "invar m \<Longrightarrow> get m k = Some v \<longleftrightarrow> (k, v) \<in> set (bindings m)"
    and get_insert: "invar m \<Longrightarrow> get (insert k v m) = (get m)(k \<mapsto> v)"
    and get_remove: "invar m \<Longrightarrow> get (remove k m) = (get m)(k := None)"
    and invar_insert: "invar m \<Longrightarrow> invar (insert k v m)"
    and invar_remove: "invar m \<Longrightarrow> invar (remove k m)"
begin

lemma distinct_keys: "invar m \<Longrightarrow> distinct (map fst (bindings m))"
  using bindings_sorted strict_sorted_iff by blast

lemma key_set: "invar m \<Longrightarrow> fst ` set (bindings m) = dom (get m)"
  by (force simp: dom_def get_bindings image_iff)

lemma binding_set: "invar m \<Longrightarrow> set (bindings m) = {(k, v). get m k = Some v}"
  by (auto simp: get_bindings)

lemma count_card: "invar m \<Longrightarrow> length (bindings m) = card (dom (get m))"
  using distinct_card [OF distinct_keys] by (simp add: key_set)

lemma finite_dom: "invar m \<Longrightarrow> finite (dom (get m))"
  using key_set by (metis finite_imageI finite_set)

lemma count_insert_new:
  "invar m \<Longrightarrow> get m k = None \<Longrightarrow> length (bindings (insert k v m)) = Suc (length (bindings m))"
  by (simp add: count_card invar_insert get_insert finite_dom domIff)

lemma count_insert_le:
  "invar m \<Longrightarrow> length (bindings (insert k v m)) \<le> Suc (length (bindings m))"
  by (simp add: count_card invar_insert get_insert finite_dom card_insert_le_m1 card_insert_if)

lemma count_insert_old:
  "invar m \<Longrightarrow> get m k = Some w \<Longrightarrow> length (bindings (insert k v m)) = length (bindings m)"
  by (simp add: count_card invar_insert get_insert insert_absorb domI)

lemma count_remove:
  "invar m \<Longrightarrow> get m k = Some v \<Longrightarrow> length (bindings m) = Suc (length (bindings (remove k m)))"
  using card_Suc_Diff1 [of "dom (get m)" k] by (simp add: count_card invar_remove get_remove finite_dom domI)

lemma sum_insert_new:
  fixes f :: "'k \<times> 'v \<Rightarrow> 'n::comm_monoid_add"
  assumes "invar m" and "get m k = None"
  shows "sum_list (map f (bindings (insert k v m))) = f (k, v) + sum_list (map f (bindings m))"
proof -
  have "distinct (bindings m)" and "distinct (bindings (insert k v m))"
    using assms(1) distinct_keys invar_insert distinct_map by blast+
  moreover have "set (bindings (insert k v m)) = Set.insert (k, v) (set (bindings m))"
    using assms by (auto simp: binding_set invar_insert get_insert split: if_splits)
  moreover have "(k, v) \<notin> set (bindings m)"
    using assms by (simp add: get_bindings [symmetric])
  ultimately show ?thesis
    by (simp add: sum_list_distinct_conv_sum_set)
qed

lemma sum_remove:
  fixes f :: "'k \<times> 'v \<Rightarrow> 'n::comm_monoid_add"
  assumes "invar m" and "get m k = Some v"
  shows "sum_list (map f (bindings m)) = f (k, v) + sum_list (map f (bindings (remove k m)))"
proof -
  have "distinct (bindings m)" and "distinct (bindings (remove k m))"
    using assms(1) distinct_keys invar_remove distinct_map by blast+
  moreover have "set (bindings m) = Set.insert (k, v) (set (bindings (remove k m)))"
    using assms by (auto simp: binding_set invar_remove get_remove split: if_splits)
  moreover have "(k, v) \<notin> set (bindings (remove k m))"
    using assms by (simp add: get_bindings [symmetric] invar_remove get_remove)
  ultimately show ?thesis
    by (simp add: sum_list_distinct_conv_sum_set)
qed

lemma bindings_ext:
  assumes "invar m" and "invar m'" and "get m = get m'"
  shows "bindings m = bindings m'"
  using assms bindings_sorted [of m] bindings_sorted [of m'] binding_set [of m] binding_set [of m']
  by (intro map_sorted_distinct_set_unique [of fst])
    (auto simp: strict_sorted_iff distinct_map inj_on_def)

lemma sum_insert_old:
  fixes f :: "'k \<times> 'v \<Rightarrow> 'n::comm_monoid_add"
  assumes "invar m" and "get m k = Some w"
  shows "sum_list (map f (bindings (insert k v m))) + f (k, w) = sum_list (map f (bindings m)) + f (k, v)"
proof -
  have "bindings (remove k (insert k v m)) = bindings (remove k m)"
    using assms by (intro bindings_ext) (simp_all add: invar_remove invar_insert get_remove get_insert)
  then show ?thesis
    using sum_remove [of m k w f] sum_remove [of "insert k v m" k v f] assms
    by (simp add: invar_insert get_insert ac_simps)
qed

end

locale ordered_set =
  fixes insert :: "'k::linorder \<Rightarrow> 's \<Rightarrow> 's"
    and remove :: "'k \<Rightarrow> 's \<Rightarrow> 's"
    and elements :: "'s \<Rightarrow> 'k list"
    and invar :: "'s \<Rightarrow> bool"
  assumes elements_sorted: "invar s \<Longrightarrow> sorted_wrt (<) (elements s)"
    and set_insert: "invar s \<Longrightarrow> set (elements (insert k s)) = Set.insert k (set (elements s))"
    and set_remove: "invar s \<Longrightarrow> set (elements (remove k s)) = set (elements s) - {k}"
    and invar_insert: "invar s \<Longrightarrow> invar (insert k s)"
    and invar_remove: "invar s \<Longrightarrow> invar (remove k s)"
begin

lemma distinct_elements: "invar s \<Longrightarrow> distinct (elements s)"
  using elements_sorted strict_sorted_iff by blast

lemma size_card: "invar s \<Longrightarrow> length (elements s) = card (set (elements s))"
  by (simp add: distinct_card distinct_elements)

lemma size_insert_le: "invar s \<Longrightarrow> length (elements (insert k s)) \<le> Suc (length (elements s))"
  by (simp add: size_card invar_insert set_insert card_insert_if)

lemma size_remove: "invar s \<Longrightarrow> k \<in> set (elements s) \<Longrightarrow>
    length (elements s) = Suc (length (elements (remove k s)))"
  using card_Suc_Diff1 [of "set (elements s)" k] by (simp add: size_card invar_remove set_remove)

end

section \<open>The lists implement the interfaces\<close>

lemma set_keys_bt_insert: "fst ` set (bt_insert k v m) = insert k (fst ` set m)"
  by (induction k v m rule: bt_insert.induct) auto

lemma bt_ok_Cons [simp]: "bt_ok ((k, v) # m) \<longleftrightarrow> (\<forall>k' \<in> fst ` set m. k < k') \<and> bt_ok m"
  by (simp add: bt_ok_def)

lemma bt_ok_insert [simp, intro]: "bt_ok m \<Longrightarrow> bt_ok (bt_insert k v m)"
proof (induction k v m rule: bt_insert.induct)
  case (2 k v k' v' m)
  then show ?case
    by (auto simp: set_keys_bt_insert)
qed (simp add: bt_ok_def)

lemma bt_ok_remove [simp, intro]: "bt_ok m \<Longrightarrow> bt_ok (bt_remove k m)"
  by (induction m) (auto simp: bt_ok_def bt_remove_def)

lemma bt_ok_empty [simp]: "bt_ok []" "bt_ok bt_empty"
  by (simp_all add: bt_ok_def bt_empty_def)

lemma bt_get_empty [simp]: "bt_get bt_empty k = None" "bt_get [] k = None"
  by (simp_all add: bt_get_def bt_empty_def)

lemma bt_get_Cons: "bt_get ((k', v) # m) k = (if k = k' then Some v else bt_get m k)"
  by (simp add: bt_get_def)

lemma bt_get_insert [simp]: "bt_get (bt_insert k v m) = (bt_get m)(k \<mapsto> v)"
  by (induction m) (auto simp: bt_get_def fun_eq_iff)

lemma bt_get_remove [simp]: "bt_get (bt_remove k m) = (bt_get m)(k := None)"
  by (induction m) (auto simp: bt_get_def bt_remove_def fun_eq_iff)

lemma bt_get_iff: "bt_ok m \<Longrightarrow> bt_get m k = Some v \<longleftrightarrow> (k, v) \<in> set m"
  by (simp add: bt_get_def bt_ok_def strict_sorted_iff)

interpretation btm: ordered_map bt_get bt_insert bt_remove "\<lambda>m. m" bt_ok
  by unfold_locales (auto simp: bt_get_iff, simp_all add: bt_ok_def)

lemma bt_reinsert [simp]: "bt_ok m \<Longrightarrow> bt_get m k = Some v \<Longrightarrow> bt_insert k v (bt_remove k m) = m"
  by (rule btm.bindings_ext) (auto simp: fun_eq_iff)

lemma bs_ok_insert [simp, intro]: "bs_ok s \<Longrightarrow> bs_ok (bs_insert k s)"
  by (simp add: bs_ok_def bs_insert_def strict_sorted_iff sorted_insort distinct_insort)

lemma bs_ok_remove [simp, intro]: "bs_ok s \<Longrightarrow> bs_ok (bs_remove k s)"
  by (simp add: bs_ok_def bs_remove_def sorted_wrt_filter)

lemma bs_ok_Nil [simp]: "bs_ok []"
  by (simp add: bs_ok_def)

lemma set_bs_insert [simp]: "set (bs_insert k s) = insert k (set s)"
  by (auto simp: bs_insert_def set_insort_key)

lemma set_bs_remove [simp]: "set (bs_remove k s) = set s - {k}"
  by (auto simp: bs_remove_def)

interpretation bts: ordered_set bs_insert bs_remove "\<lambda>s. s" bs_ok
  by unfold_locales (simp_all, simp add: bs_ok_def)

end
