(* ===== verification/Limits.thy ===== *)
theory Limits
  imports Prelude
begin

text \<open>
  The per-call work limits and the time conversions (\<open>native/smolnet_core/src/limits.rs\<close>,
  \<open>native/smolnet_core/src/time.rs\<close> and the parts of smoltcp's \<open>src/time.rs\<close> they call).

  Every native call is bounded in six dimensions, which \<open>Limits\<close> holds and \<open>Work\<close> measures.
  An instant is a signed number of microseconds and a duration an unsigned one, as in smoltcp;
  the BEAM hands in milliseconds, and the conversion refuses the ones that do not fit.
\<close>

section \<open>Definitions\<close>

record Limits =
  bytes_copied :: nat
  input_packets :: nat
  output_packets :: nat
  ready_events :: nat
  maintenance_work :: nat
  sockets :: nat

record Work =
  w_bytes_copied :: nat
  w_input_packets :: nat
  w_output_packets :: nat
  w_ready_events :: nat
  w_maintenance_work :: nat

definition Work_default :: Work where
  "Work_default = \<lparr>w_bytes_copied = 0, w_input_packets = 0, w_output_packets = 0,
     w_ready_events = 0, w_maintenance_work = 0\<rparr>"

definition MAX_BYTES_COPIED :: nat where "MAX_BYTES_COPIED = 65575"
definition MAX_INPUT_PACKETS :: nat where "MAX_INPUT_PACKETS = 32"
definition MAX_OUTPUT_PACKETS :: nat where "MAX_OUTPUT_PACKETS = 32"
definition MAX_READY_EVENTS :: nat where "MAX_READY_EVENTS = 128"
definition MAX_MAINTENANCE_WORK :: nat where "MAX_MAINTENANCE_WORK = 128"
definition MAX_SOCKETS :: nat where "MAX_SOCKETS = 512"

definition limits_valid :: "Limits \<Rightarrow> bool" where
  "limits_valid l \<longleftrightarrow>
     1 \<le> bytes_copied l \<and> bytes_copied l \<le> MAX_BYTES_COPIED \<and>
     1 \<le> input_packets l \<and> input_packets l \<le> MAX_INPUT_PACKETS \<and>
     1 \<le> output_packets l \<and> output_packets l \<le> MAX_OUTPUT_PACKETS \<and>
     1 \<le> ready_events l \<and> ready_events l \<le> MAX_READY_EVENTS \<and>
     1 \<le> maintenance_work l \<and> maintenance_work l \<le> MAX_MAINTENANCE_WORK \<and>
     1 \<le> sockets l \<and> sockets l \<le> MAX_SOCKETS"

definition constrain :: "Limits \<Rightarrow> Work \<Rightarrow> Work \<times> bool" where
  "constrain l requested =
     (let completed = \<lparr>w_bytes_copied = min (w_bytes_copied requested) (bytes_copied l),
            w_input_packets = min (w_input_packets requested) (input_packets l),
            w_output_packets = min (w_output_packets requested) (output_packets l),
            w_ready_events = min (w_ready_events requested) (ready_events l),
            w_maintenance_work = min (w_maintenance_work requested) (maintenance_work l)\<rparr>
      in (completed, completed \<noteq> requested))"

type_synonym instant = int
type_synonym duration = nat

definition instant_from_millis :: "int \<Rightarrow> instant option" where
  "instant_from_millis millis = i64_checked (millis * 1000)"

definition Instant_from_millis :: "int \<Rightarrow> instant" where
  "Instant_from_millis millis = millis * 1000"

text \<open>Rust's integer division truncates towards zero.\<close>

definition total_millis :: "instant \<Rightarrow> int" where
  "total_millis t = (if 0 \<le> t then t div 1000 else - ((- t) div 1000))"

definition Duration_from_millis :: "nat \<Rightarrow> duration" where
  "Duration_from_millis millis = millis * 1000"

text \<open>Adding a duration to an instant adds two \<open>i64\<close> values: the sum wraps, or panics (\<open>None\<close>) in a
  build with overflow checks.\<close>

definition i64_wrap :: "int \<Rightarrow> int" where
  "i64_wrap x = (x + 2 ^ 63) mod 2 ^ 64 - 2 ^ 63"

definition instant_add :: "bool \<Rightarrow> instant \<Rightarrow> duration \<Rightarrow> instant option" where
  "instant_add checks t d =
     (let micros = t + i64_wrap (int d) in if checks then i64_checked micros else Some (i64_wrap micros))"

definition time_until :: "int \<Rightarrow> int \<Rightarrow> nat option" where
  "time_until now_millis deadline_millis =
     (if deadline_millis \<le> now_millis then Some 0
      else case i64_checked (deadline_millis - now_millis) of
             None \<Rightarrow> None
           | Some difference \<Rightarrow>
               (if 0 \<le> difference \<and> difference \<le> int u64_max then Some (nat difference) else None))"

text \<open>What it means for work to stay within limits.\<close>

definition work_within :: "Limits \<Rightarrow> Work \<Rightarrow> bool" where
  "work_within l w \<longleftrightarrow>
     w_bytes_copied w \<le> bytes_copied l \<and> w_input_packets w \<le> input_packets l \<and>
     w_output_packets w \<le> output_packets l \<and> w_ready_events w \<le> ready_events l \<and>
     w_maintenance_work w \<le> maintenance_work l"

section \<open>Lemmas\<close>

lemmas [bound_simps] =
  MAX_BYTES_COPIED_def MAX_INPUT_PACKETS_def MAX_OUTPUT_PACKETS_def
  MAX_READY_EVENTS_def MAX_MAINTENANCE_WORK_def MAX_SOCKETS_def

lemma limits_valid_positive:
  assumes "limits_valid l"
  shows "0 < bytes_copied l" "0 < input_packets l" "0 < output_packets l"
    "0 < ready_events l" "0 < maintenance_work l" "0 < sockets l"
  using assms by (auto simp: limits_valid_def)

lemma constrain_within: "work_within l (fst (constrain l w))"
  by (simp add: constrain_def work_within_def Let_def)

lemma constrain_more_iff: "snd (constrain l w) \<longleftrightarrow> \<not> work_within l w"
  by (cases w) (auto simp: constrain_def work_within_def Let_def min_def)

lemma total_millis_from_millis [simp]: "total_millis (Instant_from_millis m) = m"
proof -
  have "- (m * 1000) = (- m) * 1000" by simp
  then have "(- (m * 1000)) div 1000 = - m"
    by (metis nonzero_mult_div_cancel_right zero_neq_numeral)
  then show ?thesis by (simp add: total_millis_def Instant_from_millis_def)
qed

lemma instant_from_millis_Some_iff:
  "instant_from_millis m = Some t \<longleftrightarrow> t = m * 1000 \<and> i64_min \<le> t \<and> t \<le> i64_max"
  by (auto simp: instant_from_millis_def i64_checked_def)

text \<open>C32: the millisecond clock of the BEAM survives the conversion to an instant and back, and
  the conversion fails exactly when the microsecond count leaves the signed 64-bit range.\<close>

theorem instant_roundtrip:
  "(case instant_from_millis m of
      Some t \<Rightarrow> total_millis t = m \<and> i64_min \<le> t \<and> t \<le> i64_max
    | None \<Rightarrow> m * 1000 < i64_min \<or> i64_max < m * 1000)"
  using total_millis_from_millis [of m]
  by (auto simp: instant_from_millis_def i64_checked_def Instant_from_millis_def)

text \<open>C31: for deadlines and clocks of the BEAM's 64-bit range, the time left is exact, zero once
  the deadline has passed, and an error only when the gap itself does not fit.\<close>

theorem time_until_exact:
  assumes "i64_min \<le> now" "now \<le> i64_max" "i64_min \<le> deadline" "deadline \<le> i64_max"
  shows "time_until now deadline =
    (if deadline - now > i64_max then None else Some (nat (deadline - now)))"
  using assms by (auto simp: time_until_def i64_checked_def bound_simps)

theorem time_until_exact_witness:
  "i64_min \<le> -5 \<and> (-5::int) \<le> i64_max \<and> i64_min \<le> 7 \<and> (7::int) \<le> i64_max \<and>
   time_until (-5) 7 = Some 12"
proof -
  have h: "i64_min \<le> -5" "(-5::int) \<le> i64_max" "i64_min \<le> 7" "(7::int) \<le> i64_max"
    by (simp_all add: bound_simps)
  show ?thesis
    using h time_until_exact [OF h] by (simp add: bound_simps)
qed

end
