(* ===== verification/Budget.thy ===== *)
theory Budget
  imports Limits
begin

text \<open>
  The time budget of one native call (\<open>native/smolnet_core/src/budget.rs\<close>).

  Two outside sources drive a budget, and both are arguments of the model: the monotonic clock
  (\<open>Instant::now\<close>, read as a number of nanoseconds) and the scheduler's answer to
  \<open>enif_consume_timeslice\<close>. A budget is spent once its deadline has passed, once the
  scheduler has reported the caller's slice as exhausted, or once the forced number of checkpoints
  is used up.
\<close>

section \<open>Definitions\<close>

definition CALL_TARGET :: nat where "CALL_TARGET = 1000000"
definition ENCODING_HEADROOM :: nat where "ENCODING_HEADROOM = 250000"
definition WORK_BUDGET :: nat where "WORK_BUDGET = 750000"
definition CHARGE_CHUNK :: nat where "CHARGE_CHUNK = 16"

record CallBudget =
  started_at :: nat
  deadline :: nat
  last_charged_at :: nat
  forced_checkpoints :: "nat option"
  forced_charges :: "nat option"
  yielded :: bool
  slice_exhausted :: bool

definition start :: "nat \<Rightarrow> nat option \<Rightarrow> CallBudget" where
  "start now forced =
     \<lparr>started_at = now, deadline = now + WORK_BUDGET, last_charged_at = now,
      forced_checkpoints = forced, forced_charges = None,
      yielded = False, slice_exhausted = False\<rparr>"

text \<open>\<open>div_ceil\<close> rounds up.\<close>

definition percent_of_call_target :: "nat \<Rightarrow> nat" where
  "percent_of_call_target duration =
     (let nanoseconds = min duration u64_max;
          percent = (min (nanoseconds * 100) u64_max + CALL_TARGET - 1) div CALL_TARGET
      in max 1 (min percent 100))"

definition charge :: "nat \<Rightarrow> (nat \<Rightarrow> bool) \<Rightarrow> CallBudget \<Rightarrow> bool \<times> CallBudget" where
  "charge now consume_timeslice b =
     (let delta = now - last_charged_at b;
          b = b\<lparr>last_charged_at := now\<rparr>;
          charged = consume_timeslice (percent_of_call_target delta);
          (exhausted, b) =
            (case forced_charges b of
               Some 0 \<Rightarrow> (True, b)
             | Some remaining \<Rightarrow> (charged, b\<lparr>forced_charges := Some (remaining - 1)\<rparr>)
             | None \<Rightarrow> (charged, b))
      in (exhausted, b\<lparr>slice_exhausted := slice_exhausted b \<or> exhausted\<rparr>))"

definition force_slice_exhaustion_after :: "nat \<Rightarrow> CallBudget \<Rightarrow> CallBudget" where
  "force_slice_exhaustion_after charges b = b\<lparr>forced_charges := Some charges\<rparr>"

definition checkpoint :: "nat \<Rightarrow> CallBudget \<Rightarrow> bool \<times> CallBudget" where
  "checkpoint now b =
     (let (within_budget, b) =
            (case forced_checkpoints b of
               Some 0 \<Rightarrow> (False, b)
             | Some remaining \<Rightarrow> (True, b\<lparr>forced_checkpoints := Some (remaining - 1)\<rparr>)
             | None \<Rightarrow> (\<not> slice_exhausted b \<and> now < deadline b, b))
      in (within_budget, b\<lparr>yielded := yielded b \<or> \<not> within_budget\<rparr>))"

definition elapsed_nanoseconds :: "nat \<Rightarrow> CallBudget \<Rightarrow> nat" where
  "elapsed_nanoseconds now b = min (now - started_at b) u64_max"

text \<open>
  A meter is a budget together with the number of clock readings taken so far; \<open>clock i\<close> is the
  \<open>i\<close>-th reading of the monotonic clock. The components that share the budget of a call pass the
  meter along.
\<close>

type_synonym clock = "nat \<Rightarrow> nat"
type_synonym meter = "CallBudget \<times> nat"

definition checkpoint_at :: "clock \<Rightarrow> meter \<Rightarrow> bool \<times> meter" where
  "checkpoint_at clock m =
     (let (within_budget, b) = checkpoint (clock (snd m)) (fst m)
      in (within_budget, (b, Suc (snd m))))"

section \<open>Lemmas\<close>

lemmas [bound_simps] = CALL_TARGET_def ENCODING_HEADROOM_def WORK_BUDGET_def CHARGE_CHUNK_def

lemma ceil_div_le_iff: "(0::nat) < k \<Longrightarrow> (n + k - 1) div k \<le> q \<longleftrightarrow> n \<le> q * k"
proof -
  assume k: "0 < k"
  have "(n + k - 1) div k \<le> q \<longleftrightarrow> (n + k - 1) div k < Suc q" by (simp only: less_Suc_eq_le)
  also have "\<dots> \<longleftrightarrow> n + k - 1 < Suc q * k" using k by (rule div_less_iff_less_mult)
  also have "\<dots> \<longleftrightarrow> n \<le> q * k" using k by auto
  finally show ?thesis .
qed

lemma ceil_div_ge: "(0::nat) < k \<Longrightarrow> n \<le> ((n + k - 1) div k) * k"
  using ceil_div_le_iff [of k n "(n + k - 1) div k"] by simp

text \<open>C30: a charge is always one the scheduler accepts, between 1 and 100 percent, and within one
  call it never bills less than the native time spent: the charged share of the one millisecond
  target covers the duration, up to the whole target.\<close>

theorem percent_of_call_target_sound:
  "1 \<le> percent_of_call_target d \<and> percent_of_call_target d \<le> 100 \<and>
   min d CALL_TARGET * 100 \<le> percent_of_call_target d * CALL_TARGET"
proof -
  let ?n = "min (min d u64_max * 100) u64_max"
  define p where "p = (?n + CALL_TARGET - 1) div CALL_TARGET"
  have "min (d * 100) (CALL_TARGET * 100) \<le> ?n"
    by (auto simp: bound_simps min_def)
  also have "?n \<le> ((?n + CALL_TARGET - 1) div CALL_TARGET) * CALL_TARGET"
    by (rule ceil_div_ge) (simp add: bound_simps)
  finally have low: "min (d * 100) (CALL_TARGET * 100) \<le> p * CALL_TARGET"
    by (simp only: p_def)
  have dist: "min d CALL_TARGET * 100 = min (d * 100) (CALL_TARGET * 100)"
    by (simp add: min_def)
  have "min d CALL_TARGET * 100 \<le> max 1 (min p 100) * CALL_TARGET"
  proof (cases "p \<le> 100")
    case True
    then have "p * CALL_TARGET \<le> max 1 (min p 100) * CALL_TARGET" by (intro mult_le_mono1) simp
    then show ?thesis using order_trans [OF low] dist by simp
  next
    case False
    then have "max 1 (min p 100) = 100" by simp
    then show ?thesis by simp
  qed
  moreover have "percent_of_call_target d = max 1 (min p 100)"
    by (simp add: percent_of_call_target_def p_def)
  ultimately show ?thesis by simp
qed

lemma checkpoint_forced_zero:
  "forced_checkpoints b = Some 0 \<Longrightarrow> \<not> fst (checkpoint now b)"
  by (simp add: checkpoint_def)

lemma checkpoint_deadline:
  "forced_checkpoints b = None \<Longrightarrow> deadline b \<le> now \<Longrightarrow> \<not> fst (checkpoint now b)"
  by (simp add: checkpoint_def)

lemma checkpoint_yielded_iff:
  "yielded (snd (checkpoint now b)) \<longleftrightarrow> yielded b \<or> \<not> fst (checkpoint now b)"
  by (auto simp: checkpoint_def Let_def split: option.splits nat.splits)

lemma checkpoint_deadline_kept [simp]: "deadline (snd (checkpoint now b)) = deadline b"
  by (auto simp: checkpoint_def Let_def split: option.splits nat.splits)

lemma checkpoint_slice_kept [simp]: "slice_exhausted (snd (checkpoint now b)) = slice_exhausted b"
  by (auto simp: checkpoint_def Let_def split: option.splits nat.splits)

lemma checkpoint_unforced [simp]:
  "forced_checkpoints b = None \<Longrightarrow> forced_checkpoints (snd (checkpoint now b)) = None"
  by (auto simp: checkpoint_def Let_def)

lemma charge_deadline_kept [simp]: "deadline (snd (charge now ct b)) = deadline b"
  by (auto simp: charge_def Let_def split: option.splits nat.splits)

lemma charge_forced_kept [simp]:
  "forced_checkpoints (snd (charge now ct b)) = forced_checkpoints b"
  by (auto simp: charge_def Let_def split: option.splits nat.splits)

lemma charge_exhausted_iff:
  "slice_exhausted (snd (charge now ct b)) \<longleftrightarrow> slice_exhausted b \<or> fst (charge now ct b)"
  by (auto simp: charge_def Let_def split: option.splits nat.splits)

text \<open>The budget operations of a call, in the order the call makes them.\<close>

datatype budget_op = Checkpoint nat | Charge nat bool

fun budget_step :: "budget_op \<Rightarrow> CallBudget \<Rightarrow> CallBudget" where
  "budget_step (Checkpoint now) b = snd (checkpoint now b)"
| "budget_step (Charge now answer) b = snd (charge now (\<lambda>_. answer) b)"

lemma budget_steps_keep:
  "deadline (fold budget_step ops b) = deadline b \<and>
   (forced_checkpoints b = None \<longrightarrow> forced_checkpoints (fold budget_step ops b) = None) \<and>
   (slice_exhausted b \<longrightarrow> slice_exhausted (fold budget_step ops b))"
proof (induction ops arbitrary: b)
  case (Cons op ops)
  show ?case
    using Cons.IH [of "budget_step op b"]
    by (cases op) (auto simp: charge_exhausted_iff)
qed simp

lemma budget_spent_stays:
  assumes "forced_checkpoints b = None" and "slice_exhausted b"
  shows "\<not> fst (checkpoint now (fold budget_step ops b))"
  using budget_steps_keep [of ops b] assms by (simp add: checkpoint_def)

text \<open>C29: in a call without forced checkpoints, no checkpoint succeeds once 750 microseconds have
  passed since the call started, whatever checkpoints and charges were made before, and none
  succeeds after the scheduler has once reported the slice as exhausted.\<close>

theorem work_budget_is_a_ceiling:
  assumes "fst (checkpoint now (fold budget_step ops (start began None)))"
  shows "now < began + WORK_BUDGET \<and>
    (\<forall>pre t post. ops = pre @ Charge t True # post \<longrightarrow> False)"
proof -
  let ?b = "fold budget_step ops (start began None)"
  have keep: "deadline ?b = began + WORK_BUDGET" "forced_checkpoints ?b = None"
    using budget_steps_keep [of ops "start began None"] by (simp_all add: start_def)
  have "now < began + WORK_BUDGET" and fresh: "\<not> slice_exhausted ?b"
    using assms keep by (auto simp: checkpoint_def)
  moreover have False if "ops = pre @ Charge t True # post" for pre t post
  proof -
    let ?b1 = "budget_step (Charge t True) (fold budget_step pre (start began None))"
    have "slice_exhausted ?b1"
      by (auto simp: charge_def Let_def split: option.splits nat.splits)
    then have "slice_exhausted ?b"
      using that budget_steps_keep [of post ?b1] by simp
    with fresh show False by simp
  qed
  ultimately show ?thesis by blast
qed

theorem work_budget_is_a_ceiling_witness:
  "fst (checkpoint 700 (fold budget_step [Checkpoint 10, Charge 600 False] (start 0 None))) \<and>
   (700::nat) < 0 + WORK_BUDGET"
proof -
  have h: "fst (checkpoint 700 (fold budget_step [Checkpoint 10, Charge 600 False] (start 0 None)))"
    by (simp add: checkpoint_def charge_def start_def WORK_BUDGET_def)
  show ?thesis
    using h work_budget_is_a_ceiling [OF h] by blast
qed

end
