(* ===== verification/Device.thy ===== *)
theory Device
  imports Budget
begin

text \<open>
  The packet device between smoltcp and the link process (\<open>native/smolnet_core/src/device.rs\<close>).

  \<open>BeamDevice\<close> holds packets received from the link that smoltcp has not processed yet, and frames
  smoltcp has emitted that the link has not taken yet. The link may bound egress with a credit of
  packets and bytes; \<open>take_transmit\<close> hands over frames within the credit and the call's limits.
  smoltcp reaches the device only through the \<open>Device\<close> trait: a receive token pairs one packet with
  room for its reply, a transmit token is given out only while the credit has room.
  A frame is the list of bytes smoltcp wrote; the zeroed prefix of \<open>OutputPacket::for_transmit\<close> is
  invisible once the frame is written.

  The lemmas show that the byte count of the queue is always exact, that frames leave in the order
  they were emitted, that no subtraction underflows, and that over any run the frames handed to the
  link never exceed what the link granted.
\<close>

section \<open>Definitions\<close>

record EgressCredit =
  credit_packets :: nat
  credit_bytes :: nat

record BeamDevice =
  d_mtu :: nat
  receive :: "bytes list"
  receive_limit :: nat
  transmit :: "bytes list"
  transmit_bytes :: nat
  transmit_limit :: nat
  credit :: "EgressCredit option"

definition BeamDevice_new :: "nat \<Rightarrow> nat \<Rightarrow> EgressCredit option \<Rightarrow> BeamDevice" where
  "BeamDevice_new mtu recv_limit cr =
     \<lparr>d_mtu = mtu, receive = [], receive_limit = recv_limit, transmit = [], transmit_bytes = 0,
      transmit_limit = 0, credit = cr\<rparr>"

definition grant_egress :: "nat \<Rightarrow> nat \<Rightarrow> BeamDevice \<Rightarrow> bool \<times> BeamDevice" where
  "grant_egress packets bytes d =
     (case credit d of
        None \<Rightarrow> (False, d)
      | Some c \<Rightarrow> (True, d\<lparr>credit := Some (c\<lparr>credit_packets := saturating_add (credit_packets c) packets,
                                      credit_bytes := saturating_add (credit_bytes c) bytes\<rparr>)\<rparr>))"

definition device_begin_call :: "nat \<Rightarrow> BeamDevice \<Rightarrow> BeamDevice" where
  "device_begin_call limit d = d\<lparr>transmit_limit := limit\<rparr>"

definition receive_fits :: "nat \<Rightarrow> BeamDevice \<Rightarrow> bool" where
  "receive_fits packets d =
     (case checked_add (length (receive d)) packets of
        None \<Rightarrow> False | Some queued \<Rightarrow> queued \<le> receive_limit d)"

definition enqueue_receive_batch :: "bytes list \<Rightarrow> BeamDevice \<Rightarrow> (unit, unit) result \<times> BeamDevice" where
  "enqueue_receive_batch packets d =
     (if \<not> receive_fits (length packets) d then (Inl (), d)
      else (Inr (), d\<lparr>receive := receive d @ packets\<rparr>))"

definition take_receive :: "BeamDevice \<Rightarrow> bytes option \<times> BeamDevice" where
  "take_receive d =
     (case receive d of [] \<Rightarrow> (None, d) | p # ps \<Rightarrow> (Some p, d\<lparr>receive := ps\<rparr>))"

definition return_receive :: "bytes \<Rightarrow> BeamDevice \<Rightarrow> BeamDevice" where
  "return_receive packet d = d\<lparr>receive := packet # receive d\<rparr>"

text \<open>The loop of \<open>take_transmit\<close>: the queue left, the frames taken, their bytes, the meter.\<close>

fun take_transmit_loop ::
    "clock \<Rightarrow> nat \<Rightarrow> nat \<Rightarrow> bytes list \<Rightarrow> bytes list \<Rightarrow> nat \<Rightarrow> meter
      \<Rightarrow> bytes list \<times> bytes list \<times> nat \<times> meter" where
  "take_transmit_loop clock packet_limit byte_limit [] packets bytes m = ([], packets, bytes, m)"
| "take_transmit_loop clock packet_limit byte_limit (p # q) packets bytes m =
     (if length packets < packet_limit then
        case checked_add bytes (length p) of
          None \<Rightarrow> (p # q, packets, bytes, m)
        | Some next_bytes \<Rightarrow>
            if byte_limit < next_bytes then (p # q, packets, bytes, m)
            else case checkpoint_at clock m of
                   (False, m') \<Rightarrow> (p # q, packets, bytes, m')
                 | (True, m') \<Rightarrow>
                     take_transmit_loop clock packet_limit byte_limit q (packets @ [p]) next_bytes m'
      else (p # q, packets, bytes, m))"

definition take_transmit ::
    "clock \<Rightarrow> nat \<Rightarrow> nat \<Rightarrow> meter \<Rightarrow> BeamDevice \<Rightarrow> bytes list \<times> BeamDevice \<times> meter" where
  "take_transmit clock packet_limit byte_limit m d =
     (let (packet_limit, byte_limit) =
            (case credit d of
               Some c \<Rightarrow> (min packet_limit (credit_packets c), min byte_limit (credit_bytes c))
             | None \<Rightarrow> (packet_limit, byte_limit));
          (q, packets, bytes, m) =
            take_transmit_loop clock packet_limit byte_limit (transmit d) [] 0 m;
          d = d\<lparr>transmit := q, transmit_bytes := transmit_bytes d - bytes,
                credit := map_option (\<lambda>c. c\<lparr>credit_packets := credit_packets c - length packets,
                                             credit_bytes := credit_bytes c - bytes\<rparr>) (credit d)\<rparr>
      in (packets, d, m))"

definition transmit_credit_available :: "BeamDevice \<Rightarrow> bool" where
  "transmit_credit_available d =
     (case credit d of
        None \<Rightarrow> True
      | Some c \<Rightarrow> length (transmit d) < credit_packets c \<and> transmit_bytes d < credit_bytes c)"

definition transmit_ready :: "BeamDevice \<Rightarrow> bool" where
  "transmit_ready d =
     (case transmit d of
        [] \<Rightarrow> False
      | p # _ \<Rightarrow> (case credit d of
                    None \<Rightarrow> True
                  | Some c \<Rightarrow> 0 < credit_packets c \<and> length p \<le> credit_bytes c))"

definition has_receive :: "BeamDevice \<Rightarrow> bool" where
  "has_receive d \<longleftrightarrow> receive d \<noteq> []"

definition can_receive :: "BeamDevice \<Rightarrow> bool" where
  "can_receive d \<longleftrightarrow> length (transmit d) < transmit_limit d"

definition queued_packets :: "BeamDevice \<Rightarrow> nat \<times> nat" where
  "queued_packets d = (length (receive d), length (transmit d))"

definition discard_one :: "BeamDevice \<Rightarrow> bool \<times> BeamDevice" where
  "discard_one d =
     (case receive d of
        _ # ps \<Rightarrow> (True, d\<lparr>receive := ps\<rparr>)
      | [] \<Rightarrow> (case transmit d of
                p # q \<Rightarrow> (True, d\<lparr>transmit := q, transmit_bytes := transmit_bytes d - length p\<rparr>)
              | [] \<Rightarrow> (False, d)))"

text \<open>The \<open>Device\<close> trait. A transmit token is spent by \<open>tx_consume\<close> with the frame written. The buffer
  of the frame comes from the virtual machine: \<open>alloc n\<close> tells whether it gives one of \<open>n\<close> bytes, and
  without one \<open>OutputPacket::for_transmit\<close> panics (\<open>None\<close>).\<close>

definition tx_consume :: "(nat \<Rightarrow> bool) \<Rightarrow> bytes \<Rightarrow> BeamDevice \<Rightarrow> BeamDevice option" where
  "tx_consume alloc frame d =
     (if alloc (length frame)
      then Some (d\<lparr>transmit := transmit d @ [frame], transmit_bytes := transmit_bytes d + length frame\<rparr>)
      else None)"

definition device_receive :: "BeamDevice \<Rightarrow> (bytes \<times> BeamDevice) option" where
  "device_receive d =
     (if transmit_limit d \<le> length (transmit d) then None
      else case receive d of [] \<Rightarrow> None | p # ps \<Rightarrow> Some (p, d\<lparr>receive := ps\<rparr>))"

definition device_transmit :: "BeamDevice \<Rightarrow> bool" where
  "device_transmit d \<longleftrightarrow> length (transmit d) < transmit_limit d \<and> transmit_credit_available d"

text \<open>\<open>ReceiveOne\<close>: the device together with the one packet offered in place.\<close>

type_synonym ReceiveOne = "BeamDevice \<times> bytes option"

definition ReceiveOne_new :: "BeamDevice \<Rightarrow> bytes \<Rightarrow> ReceiveOne" where
  "ReceiveOne_new d packet = (d, Some packet)"

definition received :: "ReceiveOne \<Rightarrow> bool" where
  "received r \<longleftrightarrow> snd r = None"

definition receive_one_receive :: "ReceiveOne \<Rightarrow> (bytes \<times> ReceiveOne) option" where
  "receive_one_receive r =
     (if \<not> can_receive (fst r) then None
      else case snd r of None \<Rightarrow> None | Some p \<Rightarrow> Some (p, (fst r, None)))"

text \<open>The invariant of the device: the byte count is exact and the receive queue is bounded.\<close>

definition queue_bytes :: "bytes list \<Rightarrow> nat" where
  "queue_bytes q = sum_list (map length q)"

definition device_wf :: "BeamDevice \<Rightarrow> bool" where
  "device_wf d \<longleftrightarrow>
     transmit_bytes d = queue_bytes (transmit d) \<and> length (receive d) \<le> receive_limit d"

text \<open>
  What smoltcp can do to the device while it holds it, one emitted frame at a time: a frame through a
  transmit token, or the reply to a packet it has received, which needs only room in the queue.
\<close>

inductive engine_device :: "BeamDevice \<Rightarrow> BeamDevice \<Rightarrow> bool" where
  engine_idle: "engine_device d d"
| engine_emit: "engine_device d d' \<Longrightarrow> device_transmit d' \<Longrightarrow> tx_consume alloc f d' = Some d'' \<Longrightarrow> engine_device d d''"
| engine_reply: "engine_device d d' \<Longrightarrow> can_receive d' \<Longrightarrow> tx_consume alloc f d' = Some d'' \<Longrightarrow> engine_device d d''"

text \<open>
  The device and its link over a whole run, with what the link has granted and what it has been
  handed, in packets and in bytes. The link is assumed to keep its outstanding grants below the
  64-bit range, so that a grant does not saturate.
\<close>

record LinkRun =
  device :: BeamDevice
  granted :: "nat \<times> nat"
  handed :: "bytes list"

inductive link_step :: "LinkRun \<Rightarrow> LinkRun \<Rightarrow> bool" where
  link_grant: "credit (device r) = Some c \<Longrightarrow> credit_packets c + p \<le> usize_max \<Longrightarrow>
     credit_bytes c + b \<le> usize_max \<Longrightarrow>
     link_step r (r\<lparr>device := snd (grant_egress p b (device r)),
                    granted := (fst (granted r) + p, snd (granted r) + b)\<rparr>)"
| link_call: "link_step r (r\<lparr>device := device_begin_call n (device r)\<rparr>)"
| link_engine: "engine_device (device r) d' \<Longrightarrow> link_step r (r\<lparr>device := d'\<rparr>)"
| link_ingress: "enqueue_receive_batch ps (device r) = (res, d') \<Longrightarrow> link_step r (r\<lparr>device := d'\<rparr>)"
| link_take_receive: "take_receive (device r) = (p, d') \<Longrightarrow> link_step r (r\<lparr>device := d'\<rparr>)"
| link_return_receive: "length (receive (device r)) < receive_limit (device r) \<Longrightarrow>
     link_step r (r\<lparr>device := return_receive p (device r)\<rparr>)"
| link_discard: "discard_one (device r) = (dropped, d') \<Longrightarrow> link_step r (r\<lparr>device := d'\<rparr>)"
| link_take: "take_transmit clock pl bl m (device r) = (ps, d', m') \<Longrightarrow>
     link_step r (r\<lparr>device := d', handed := handed r @ ps\<rparr>)"

inductive link_run :: "nat \<Rightarrow> nat \<Rightarrow> EgressCredit \<Rightarrow> LinkRun \<Rightarrow> bool" for mtu rl c where
  link_start: "link_run mtu rl c \<lparr>device = BeamDevice_new mtu rl (Some c),
     granted = (credit_packets c, credit_bytes c), handed = []\<rparr>"
| link_next: "link_run mtu rl c r \<Longrightarrow> link_step r r' \<Longrightarrow> link_run mtu rl c r'"

section \<open>The transmit queue\<close>

lemma queue_bytes_simps [simp]:
  "queue_bytes [] = 0" "queue_bytes (p # q) = length p + queue_bytes q"
  "queue_bytes (q @ q') = queue_bytes q + queue_bytes q'"
  by (simp_all add: queue_bytes_def)

text \<open>What the loop returns: a prefix of the queue, its exact byte count, both within the limits.\<close>

lemma take_transmit_loop_spec:
  assumes "take_transmit_loop clock pl bl q ps n m = (q', ps', n', m')"
    and "n = queue_bytes ps" and "length ps \<le> pl" and "n \<le> bl"
  shows "\<exists>taken. q = taken @ q' \<and> ps' = ps @ taken \<and> n' = queue_bytes ps' \<and>
    length ps' \<le> pl \<and> n' \<le> bl"
  using assms
proof (induction clock pl bl q ps n m arbitrary: q' ps' n' m' rule: take_transmit_loop.induct)
  case (2 clock pl bl p q ps n m)
  show ?case
  proof (cases "length ps < pl \<and> n + length p \<le> usize_max \<and> n + length p \<le> bl \<and> fst (checkpoint_at clock m)")
    case True
    then obtain m1 where m1: "checkpoint_at clock m = (True, m1)"
      by (cases "checkpoint_at clock m") auto
    have add: "checked_add n (length p) = Some (n + length p)" using True by simp
    have run: "take_transmit_loop clock pl bl q (ps @ [p]) (n + length p) m1 = (q', ps', n', m')"
      using "2.prems"(1) True add m1 by simp
    have "\<exists>taken. q = taken @ q' \<and> ps' = (ps @ [p]) @ taken \<and> n' = queue_bytes ps' \<and>
        length ps' \<le> pl \<and> n' \<le> bl"
      by (rule "2.IH" [OF _ add _ m1 [symmetric] _ run]) (use True "2.prems" in auto)
    then show ?thesis by auto
  next
    case False
    then have "q' = p # q \<and> ps' = ps \<and> n' = n"
      using "2.prems"(1) by (auto simp: checked_add_def split: if_splits prod.splits bool.splits)
    then show ?thesis using "2.prems" by auto
  qed
qed simp

lemma take_transmit_frames:
  "fst (take_transmit clock pl bl m d) =
     fst (snd (take_transmit_loop clock
       (case credit d of Some c \<Rightarrow> min pl (credit_packets c) | None \<Rightarrow> pl)
       (case credit d of Some c \<Rightarrow> min bl (credit_bytes c) | None \<Rightarrow> bl) (transmit d) [] 0 m))"
  by (simp add: take_transmit_def Let_def split: option.splits prod.splits)

lemma take_transmit_spec:
  assumes "take_transmit clock pl bl m d = (ps, d', m')"
  shows "transmit d = ps @ transmit d'"
    and "length ps \<le> pl" and "queue_bytes ps \<le> bl"
    and "transmit_bytes d' = transmit_bytes d - queue_bytes ps"
    and "credit d = Some c \<Longrightarrow> length ps \<le> credit_packets c \<and> queue_bytes ps \<le> credit_bytes c \<and>
      credit d' = Some (c\<lparr>credit_packets := credit_packets c - length ps,
                          credit_bytes := credit_bytes c - queue_bytes ps\<rparr>)"
    and "credit d = None \<Longrightarrow> credit d' = None"
    and "receive d' = receive d" and "receive_limit d' = receive_limit d"
    and "transmit_limit d' = transmit_limit d" and "d_mtu d' = d_mtu d"
proof -
  define pl' where "pl' = (case credit d of Some c \<Rightarrow> min pl (credit_packets c) | None \<Rightarrow> pl)"
  define bl' where "bl' = (case credit d of Some c \<Rightarrow> min bl (credit_bytes c) | None \<Rightarrow> bl)"
  obtain q' ps' n' m1 where loop: "take_transmit_loop clock pl' bl' (transmit d) [] 0 m = (q', ps', n', m1)"
    by (metis prod_cases4)
  have lims: "(case credit d of
               Some c \<Rightarrow> (min pl (credit_packets c), min bl (credit_bytes c))
             | None \<Rightarrow> (pl, bl)) = (pl', bl')"
    by (simp add: pl'_def bl'_def split: option.splits)
  from take_transmit_loop_spec [OF loop]
  have spec: "transmit d = ps' @ q'" "n' = queue_bytes ps'" "length ps' \<le> pl'" "n' \<le> bl'"
    by auto
  have d': "ps = ps'" "d' = d\<lparr>transmit := q', transmit_bytes := transmit_bytes d - n',
                credit := map_option (\<lambda>c. c\<lparr>credit_packets := credit_packets c - length ps',
                                             credit_bytes := credit_bytes c - n'\<rparr>) (credit d)\<rparr>"
    using assms lims loop by (auto simp: take_transmit_def Let_def)
  show "transmit d = ps @ transmit d'" "receive d' = receive d" "receive_limit d' = receive_limit d"
    "transmit_bytes d' = transmit_bytes d - queue_bytes ps" "credit d = None \<Longrightarrow> credit d' = None"
    "transmit_limit d' = transmit_limit d" "d_mtu d' = d_mtu d"
    using d' spec by auto
  show "length ps \<le> pl" "queue_bytes ps \<le> bl"
    using d' spec by (auto simp: pl'_def bl'_def split: option.splits)
  show "credit d = Some c \<Longrightarrow> length ps \<le> credit_packets c \<and> queue_bytes ps \<le> credit_bytes c \<and>
      credit d' = Some (c\<lparr>credit_packets := credit_packets c - length ps,
                          credit_bytes := credit_bytes c - queue_bytes ps\<rparr>)"
    using d' spec by (auto simp: pl'_def bl'_def)
qed

section \<open>The queue of a credited link\<close>

text \<open>
  What the stack relies on when it drains a device: frames leave in order, and a take lowers the queue
  and the credit by the same amount. From these two laws alone, taking frames never changes whether
  smoltcp may emit more, and a sequence of takes yields the queue's prefix.
\<close>

locale credited_queue =
  fixes queue :: "'d \<Rightarrow> 'p list"
    and size_of :: "'p \<Rightarrow> nat"
    and allowance :: "'d \<Rightarrow> (nat \<times> nat) option"
    and take_some :: "'a \<Rightarrow> 'd \<Rightarrow> 'p list \<times> 'd"
  assumes take_prefix: "take_some a d = (ps, d') \<Longrightarrow> queue d = ps @ queue d'"
    and take_allowance: "take_some a d = (ps, d') \<Longrightarrow>
      allowance d = Some (k, n) \<Longrightarrow> length ps \<le> k \<and> sum_list (map size_of ps) \<le> n \<and>
        allowance d' = Some (k - length ps, n - sum_list (map size_of ps))"
    and take_unlimited: "take_some a d = (ps, d') \<Longrightarrow> allowance d = None \<Longrightarrow> allowance d' = None"
begin

definition room :: "'d \<Rightarrow> bool" where
  "room d = (case allowance d of None \<Rightarrow> True
     | Some (k, n) \<Rightarrow> length (queue d) < k \<and> sum_list (map size_of (queue d)) < n)"

lemma take_keeps_room:
  assumes t: "take_some a d = (ps, d')"
  shows "room d' \<longleftrightarrow> room d"
proof (cases "allowance d")
  case None
  with take_unlimited [OF t] show ?thesis by (simp add: room_def)
next
  case (Some kn)
  obtain k n where kn: "kn = (k, n)" by (cases kn)
  from take_allowance [OF t, of k n] Some kn
  have le: "length ps \<le> k" "sum_list (map size_of ps) \<le> n"
    and al: "allowance d' = Some (k - length ps, n - sum_list (map size_of ps))" by auto
  show ?thesis
    using le by (auto simp: room_def al Some kn take_prefix [OF t])
qed

fun takes :: "'a list \<Rightarrow> 'd \<Rightarrow> 'p list \<times> 'd" where
  "takes [] d = ([], d)"
| "takes (a # as) d = (let (ps, d) = take_some a d; (qs, d) = takes as d in (ps @ qs, d))"

lemma takes_prefix: "takes as d = (ps, d') \<Longrightarrow> queue d = ps @ queue d'"
proof (induction as arbitrary: d ps d')
  case (Cons a as)
  obtain p1 d1 where t: "take_some a d = (p1, d1)" by force
  obtain p2 d2 where ts: "takes as d1 = (p2, d2)" by force
  show ?case
    using Cons.prems Cons.IH [OF ts] take_prefix [OF t] by (simp add: t ts)
qed simp

end

definition device_allowance :: "BeamDevice \<Rightarrow> (nat \<times> nat) option" where
  "device_allowance d = map_option (\<lambda>c. (credit_packets c, credit_bytes c)) (credit d)"

definition device_take :: "clock \<times> nat \<times> nat \<times> meter \<Rightarrow> BeamDevice \<Rightarrow> bytes list \<times> BeamDevice" where
  "device_take a d = (case a of (clock, pl, bl, m) \<Rightarrow>
     let (ps, d', m') = take_transmit clock pl bl m d in (ps, d'))"

lemma device_takeD:
  "device_take a d = (ps, d') \<Longrightarrow> \<exists>clock pl bl m m'. take_transmit clock pl bl m d = (ps, d', m')"
  by (cases a, cases "take_transmit (fst a) (fst (snd a)) (fst (snd (snd a))) (snd (snd (snd a))) d")
    (auto simp: device_take_def, blast)

interpretation egress: credited_queue transmit length device_allowance device_take
proof
  fix a d ps d'
  assume "device_take a d = (ps, d')"
  then obtain clock pl bl m m' where t: "take_transmit clock pl bl m d = (ps, d', m')"
    using device_takeD by blast
  show "transmit d = ps @ transmit d'" by (rule take_transmit_spec(1) [OF t])
  show "length ps \<le> k \<and> sum_list (map length ps) \<le> n \<and>
      device_allowance d' = Some (k - length ps, n - sum_list (map length ps))"
    if "device_allowance d = Some (k, n)" for k n
  proof -
    from that obtain c where c: "credit d = Some c" "k = credit_packets c" "n = credit_bytes c"
      by (auto simp: device_allowance_def)
    show ?thesis using take_transmit_spec(5) [OF t c(1)] c
      by (auto simp: device_allowance_def queue_bytes_def)
  qed
  show "device_allowance d' = None" if "device_allowance d = None"
    using take_transmit_spec(6) [OF t] that by (simp add: device_allowance_def)
qed

lemma room_is_credit_available:
  "transmit_bytes d = queue_bytes (transmit d) \<Longrightarrow> egress.room d \<longleftrightarrow> transmit_credit_available d"
  by (auto simp: egress.room_def transmit_credit_available_def device_allowance_def queue_bytes_def
      split: option.splits)

section \<open>The device invariant\<close>

lemma device_wf_new [wf_intros]: "device_wf (BeamDevice_new mtu rl c)"
  by (simp add: device_wf_def BeamDevice_new_def)

lemma device_wf_grant [wf_intros]: "device_wf d \<Longrightarrow> device_wf (snd (grant_egress p b d))"
  by (simp add: device_wf_def grant_egress_def split: option.splits)

lemma device_wf_begin_call [wf_intros]: "device_wf d \<Longrightarrow> device_wf (device_begin_call n d)"
  by (simp add: device_wf_def device_begin_call_def)

lemma device_wf_enqueue [wf_intros]:
  "device_wf d \<Longrightarrow> device_wf (snd (enqueue_receive_batch ps d))"
  by (auto simp: device_wf_def enqueue_receive_batch_def receive_fits_def split: option.splits)

lemma device_wf_take_receive [wf_intros]: "device_wf d \<Longrightarrow> device_wf (snd (take_receive d))"
  by (auto simp: device_wf_def take_receive_def split: list.splits)

lemma device_wf_tx_consume [wf_intros]: "tx_consume alloc f d = Some d' \<Longrightarrow> device_wf d \<Longrightarrow> device_wf d'"
  by (auto simp: device_wf_def tx_consume_def split: if_splits)

lemma device_wf_discard [wf_intros]: "device_wf d \<Longrightarrow> device_wf (snd (discard_one d))"
  by (auto simp: device_wf_def discard_one_def split: list.splits)

lemma device_wf_engine [wf_intros]: "engine_device d d' \<Longrightarrow> device_wf d \<Longrightarrow> device_wf d'"
  by (induction rule: engine_device.induct) (auto intro: wf_intros)

lemma device_wf_take_transmit [wf_intros]:
  assumes "take_transmit clock pl bl m d = (ps, d', m')" and "device_wf d"
  shows "device_wf d'"
  using assms(2) take_transmit_spec [OF assms(1)] by (simp add: device_wf_def)

lemma engine_device_frame:
  "engine_device d d' \<Longrightarrow> credit d' = credit d \<and> receive d' = receive d \<and>
     receive_limit d' = receive_limit d \<and> transmit_limit d' = transmit_limit d \<and> d_mtu d' = d_mtu d \<and>
     (\<exists>fs. transmit d' = transmit d @ fs)"
  by (induction rule: engine_device.induct) (auto simp: tx_consume_def split: if_splits)

lemma engine_device_bounded:
  "engine_device d d' \<Longrightarrow> length (transmit d) \<le> transmit_limit d \<Longrightarrow>
     length (transmit d') \<le> transmit_limit d'"
  by (induction rule: engine_device.induct)
    (auto simp: tx_consume_def device_transmit_def can_receive_def split: if_splits)

text \<open>C26: handing frames to the link takes the oldest frames of the queue in order, within the
  call's limits and the remaining credit; the queue's byte count stays exact and none of the three
  subtractions underflows.\<close>

theorem take_transmit_fifo_within_credit:
  assumes "take_transmit clock pl bl m d = (ps, d', m')" and "device_wf d"
  shows "transmit d = ps @ transmit d' \<and> device_wf d' \<and>
    length ps \<le> pl \<and> queue_bytes ps \<le> bl \<and> queue_bytes ps \<le> transmit_bytes d \<and>
    (\<forall>c. credit d = Some c \<longrightarrow> length ps \<le> credit_packets c \<and> queue_bytes ps \<le> credit_bytes c \<and>
       credit d' = Some \<lparr>credit_packets = credit_packets c - length ps,
                         credit_bytes = credit_bytes c - queue_bytes ps\<rparr>)"
proof -
  note spec = take_transmit_spec [OF assms(1)]
  have "queue_bytes ps \<le> transmit_bytes d"
    using assms(2) spec(1) by (simp add: device_wf_def)
  moreover have "\<And>c. c\<lparr>credit_packets := credit_packets c - length ps,
      credit_bytes := credit_bytes c - queue_bytes ps\<rparr> =
      \<lparr>credit_packets = credit_packets c - length ps, credit_bytes = credit_bytes c - queue_bytes ps\<rparr>"
    by simp
  ultimately show ?thesis
    using spec(1-3,5) device_wf_take_transmit [OF assms] by metis
qed

definition sample_device :: BeamDevice where
  "sample_device = \<lparr>d_mtu = 1280, receive = [], receive_limit = 1, transmit = [[1, 2], [3], [4, 5, 6]],
     transmit_bytes = 6, transmit_limit = 4, credit = Some \<lparr>credit_packets = 9, credit_bytes = 5\<rparr>\<rparr>"

lemma sample_device_take:
  "take_transmit (\<lambda>_. 0) 8 100 (start 0 None, 0) sample_device =
     ([[1, 2], [3]],
      sample_device\<lparr>transmit := [[4, 5, 6]], transmit_bytes := 3,
        credit := Some \<lparr>credit_packets = 7, credit_bytes = 2\<rparr>\<rparr>, (start 0 None, 2))"
  by (simp add: take_transmit_def sample_device_def checkpoint_at_def checkpoint_def start_def
      WORK_BUDGET_def checked_add_def usize_max_def)

theorem take_transmit_fifo_within_credit_witness:
  "device_wf sample_device \<and> transmit sample_device = [[1, 2], [3]] @ [[4, 5, 6]]"
proof -
  have wf: "device_wf sample_device" by (simp add: device_wf_def sample_device_def)
  show ?thesis
    using wf take_transmit_fifo_within_credit [OF sample_device_take wf] by (simp add: sample_device_def)
qed

text \<open>Taking frames does not change whether the credit lets smoltcp emit another frame, as the
  queue and the credit shrink by the same amount.\<close>

lemma take_transmit_keeps_credit_room:
  assumes "take_transmit clock pl bl m d = (ps, d', m')" and "device_wf d"
  shows "transmit_credit_available d' \<longleftrightarrow> transmit_credit_available d"
proof -
  have "device_take (clock, pl, bl, m) d = (ps, d')" by (simp add: device_take_def assms(1))
  then have "egress.room d' \<longleftrightarrow> egress.room d" by (rule egress.take_keeps_room)
  then show ?thesis
    using assms(2) device_wf_take_transmit [OF assms]
    by (simp add: room_is_credit_available device_wf_def)
qed

section \<open>The device and its link\<close>

lemma link_step_invariant:
  assumes "link_step r r'" and "device_wf (device r)"
    and "\<exists>c. credit (device r) = Some c \<and> fst (granted r) = length (handed r) + credit_packets c \<and>
      snd (granted r) = queue_bytes (handed r) + credit_bytes c"
  shows "device_wf (device r') \<and>
    (\<exists>c. credit (device r') = Some c \<and> fst (granted r') = length (handed r') + credit_packets c \<and>
      snd (granted r') = queue_bytes (handed r') + credit_bytes c)"
  using assms
proof (induction rule: link_step.induct)
  case (link_grant r c p b)
  then show ?case
    using device_wf_grant [of "device r" p b] by (auto simp: grant_egress_def saturating_add_def)
next
  case (link_call r n)
  then show ?case
    using device_wf_begin_call [of "device r" n] by (auto simp: device_begin_call_def)
next
  case (link_engine r d')
  then show ?case by (auto intro: wf_intros dest: engine_device_frame)
next
  case (link_ingress ps r res d')
  then show ?case
    using device_wf_enqueue [of "device r" ps]
    by (auto simp: enqueue_receive_batch_def split: if_splits)
next
  case (link_take_receive r p d')
  then show ?case
    using device_wf_take_receive [of "device r"] by (auto simp: take_receive_def split: list.splits)
next
  case (link_return_receive r p)
  then show ?case by (auto simp: return_receive_def device_wf_def)
next
  case (link_discard r dropped d')
  then show ?case
    using device_wf_discard [of "device r"] by (auto simp: discard_one_def split: list.splits)
next
  case (link_take clock pl bl m r ps d' m')
  obtain c where c: "credit (device r) = Some c" "fst (granted r) = length (handed r) + credit_packets c"
      "snd (granted r) = queue_bytes (handed r) + credit_bytes c"
    using link_take.prems(2) by auto
  show ?case
    using take_transmit_spec(5) [OF link_take.hyps c(1)] c
      device_wf_take_transmit [OF link_take.hyps link_take.prems(1)] by auto
qed

lemma link_run_invariant:
  "link_run mtu rl c r \<Longrightarrow> device_wf (device r) \<and>
     (\<exists>c. credit (device r) = Some c \<and> fst (granted r) = length (handed r) + credit_packets c \<and>
       snd (granted r) = queue_bytes (handed r) + credit_bytes c)"
proof (induction rule: link_run.induct)
  case link_start
  show ?case by (simp add: device_wf_new) (simp add: BeamDevice_new_def)
next
  case (link_next r r')
  then show ?case using link_step_invariant by blast
qed

text \<open>C3: over any run of a link with flow control whose grants do not saturate, however grants, ingress,
  packets taken back by the stack, discards of a shutdown, smoltcp's emissions and takes interleave,
  the frames handed to the link never exceed what it granted, in packets and in bytes, and the credit
  kept is exactly the difference.\<close>

theorem egress_never_exceeds_grants:
  assumes "link_run mtu rl c r"
  shows "length (handed r) \<le> fst (granted r) \<and> queue_bytes (handed r) \<le> snd (granted r) \<and>
    credit (device r) = Some \<lparr>credit_packets = fst (granted r) - length (handed r),
                              credit_bytes = snd (granted r) - queue_bytes (handed r)\<rparr>"
  using link_run_invariant [OF assms] by auto

theorem egress_never_exceeds_grants_witness:
  "\<exists>r. link_run 1280 1 \<lparr>credit_packets = 1, credit_bytes = 3\<rparr> r \<and> handed r = [[7, 8]] \<and>
     credit (device r) = Some \<lparr>credit_packets = 0, credit_bytes = 1\<rparr>"
proof -
  let ?c = "\<lparr>credit_packets = 1, credit_bytes = 3\<rparr> :: EgressCredit"
  let ?d0 = "BeamDevice_new 1280 1 (Some ?c)"
  let ?d1 = "device_begin_call 4 ?d0"
  let ?d2 = "the (tx_consume (\<lambda>_. True) [7, 8] ?d1)"
  let ?d3 = "?d2\<lparr>transmit := [], transmit_bytes := 0,
               credit := Some \<lparr>credit_packets = 0, credit_bytes = 1\<rparr>\<rparr>"
  let ?r = "\<lambda>d h. \<lparr>device = d, granted = (1, 3), handed = h\<rparr>"
  have r0: "link_run 1280 1 ?c (?r ?d0 [])"
    using link_start [of 1280 1 ?c] by simp
  have r1: "link_run 1280 1 ?c (?r ?d1 [])"
    using link_next [OF r0 link_call [of _ 4]] by simp
  have "device_transmit ?d1"
    by (simp add: device_transmit_def transmit_credit_available_def device_begin_call_def BeamDevice_new_def)
  then have "engine_device ?d1 ?d2"
    by (rule engine_emit [OF engine_idle, of _ "\<lambda>_. True" "[7, 8]"]) (simp add: tx_consume_def)
  then have r2: "link_run 1280 1 ?c (?r ?d2 [])"
    using link_next [OF r1 link_engine [of _ ?d2]] by simp
  have "take_transmit (\<lambda>_. 0) 4 100 (start 0 None, 0) ?d2 = ([[7, 8]], ?d3, (start 0 None, 1))"
    by (simp add: take_transmit_def tx_consume_def device_begin_call_def BeamDevice_new_def
        checkpoint_at_def checkpoint_def start_def WORK_BUDGET_def checked_add_def usize_max_def)
  then have r3: "link_run 1280 1 ?c (?r ?d3 [[7, 8]])"
    using link_next [OF r2 link_take [of "\<lambda>_. 0" 4 100 "(start 0 None, 0)"]] by simp
  show ?thesis
    using r3 egress_never_exceeds_grants [OF r3] by auto
qed

text \<open>C28: egress makes progress: when the device reports that its oldest frame may go now, one take
  with room for that frame and an unspent budget hands it over; when it does not, no take hands over
  anything.\<close>

theorem transmit_ready_iff_progress:
  assumes "0 < pl" and "fst (checkpoint_at clock m)" and "\<forall>p \<in> set (transmit d). length p \<le> bl"
    and "bl \<le> usize_max"
  shows "transmit_ready d \<longleftrightarrow> fst (take_transmit clock pl bl m d) \<noteq> []"
proof (cases "transmit d")
  case Nil
  then have "fst (take_transmit clock pl bl m d) = []"
    by (simp add: take_transmit_def Let_def split: option.splits)
  with Nil show ?thesis by (simp add: transmit_ready_def)
next
  case (Cons p q)
  obtain ps d' m' where t: "take_transmit clock pl bl m d = (ps, d', m')" by (metis prod_cases3)
  obtain m1 where m1: "checkpoint_at clock m = (True, m1)"
    using assms(2) by (cases "checkpoint_at clock m") auto
  have p: "length p \<le> bl" using assms(3) Cons by simp
  then have add: "checked_add 0 (length p) = Some (length p)" using assms(4) by simp
  have first: "fst (snd (take_transmit_loop clock k n (p # q) [] 0 m)) \<noteq> [] \<longleftrightarrow>
      0 < k \<and> length p \<le> n" for k n
  proof (cases "0 < k \<and> length p \<le> n")
    case True
    obtain a xs b c where l: "take_transmit_loop clock k n q [p] (length p) m1 = (a, xs, b, c)"
      by (metis prod_cases4)
    with take_transmit_loop_spec [OF l] True have "xs \<noteq> []" by auto
    with l True show ?thesis by (simp add: add m1)
  next
    case False
    then show ?thesis by (auto simp: add m1)
  qed
  show ?thesis
    using assms(1) p Cons unfolding take_transmit_frames Cons first
    by (auto simp: transmit_ready_def Cons split: option.splits)
qed

theorem transmit_ready_iff_progress_witness:
  "transmit_ready sample_device \<and>
   fst (take_transmit (\<lambda>_. 0) 8 100 (start 0 None, 0) sample_device) = [[1, 2], [3]]"
proof -
  have r: "transmit_ready sample_device" by (simp add: transmit_ready_def sample_device_def)
  have "transmit_ready sample_device \<longleftrightarrow>
      fst (take_transmit (\<lambda>_. 0) 8 100 (start 0 None, 0) sample_device) \<noteq> []"
    by (rule transmit_ready_iff_progress)
      (simp_all add: checkpoint_at_def checkpoint_def start_def WORK_BUDGET_def sample_device_def usize_max_def)
  with r show ?thesis by (simp add: sample_device_take)
qed

end
