(* ===== verification/Waiter.thy ===== *)
theory Waiter
  imports Budget
begin

text \<open>
  Waiters and the readiness queue (\<open>native/smolnet_core/src/waiter.rs\<close>).

  A waiter is a BEAM process waiting for one direction of one socket; pids and references are
  opaque terms, natural numbers here. A waker, which smoltcp invokes, sets the ready flag of its
  socket and direction and queues the key once: a flag already set means the wake is coalesced, and
  a full or contended queue raises the overflow flag, which asks the stack for a sweep.

  A ready flag is an \<open>Arc<AtomicBool>\<close> that an entry of the socket table and the wakers made for it
  share. Each entry allocates its two flags when it is created, under an identity that is never
  issued again, so the model names a flag by its key, and \<open>flags\<close> is the store of all of them.

  The queue's mutex is only ever tried, never waited for. \<open>lock\<close> says what \<open>try_lock\<close> finds: free,
  poisoned by a panic (and then used all the same), or held by another thread.
\<close>

section \<open>Definitions\<close>

datatype Direction = Read | Write

datatype Operation = Recv | Recvfrom | Accept | Send | Sendto | Connect

fun operation_direction :: "Operation \<Rightarrow> Direction" where
  "operation_direction Recv = Read"
| "operation_direction Recvfrom = Read"
| "operation_direction Accept = Read"
| "operation_direction Send = Write"
| "operation_direction Sendto = Write"
| "operation_direction Connect = Write"

datatype SocketIdentity = SocketIdentity (si_id: nat) (generation: nat)

datatype ReadyKey = ReadyKey (identity: SocketIdentity) (direction: Direction)

text \<open>The derived orders: fields in order, \<open>Read\<close> before \<open>Write\<close>.\<close>

instantiation Direction :: linorder
begin
definition less_eq_Direction :: "Direction \<Rightarrow> Direction \<Rightarrow> bool" where
  "less_eq_Direction a b \<longleftrightarrow> a = Read \<or> b = Write"
definition less_Direction :: "Direction \<Rightarrow> Direction \<Rightarrow> bool" where
  "less_Direction a b \<longleftrightarrow> a = Read \<and> b = Write"
instance
proof
  fix x y z :: Direction
  show "x < y \<longleftrightarrow> x \<le> y \<and> \<not> y \<le> x"
    by (cases x; cases y) (auto simp: less_eq_Direction_def less_Direction_def)
  show "x \<le> x" by (cases x) (auto simp: less_eq_Direction_def)
  show "x \<le> y \<Longrightarrow> y \<le> z \<Longrightarrow> x \<le> z" by (auto simp: less_eq_Direction_def)
  show "x \<le> y \<Longrightarrow> y \<le> x \<Longrightarrow> x = y" by (auto simp: less_eq_Direction_def)
  show "x \<le> y \<or> y \<le> x" by (cases x; cases y) (auto simp: less_eq_Direction_def)
qed
end

instantiation SocketIdentity :: linorder
begin
definition less_eq_SocketIdentity :: "SocketIdentity \<Rightarrow> SocketIdentity \<Rightarrow> bool" where
  "less_eq_SocketIdentity a b \<longleftrightarrow>
     si_id a < si_id b \<or> si_id a = si_id b \<and> generation a \<le> generation b"
definition less_SocketIdentity :: "SocketIdentity \<Rightarrow> SocketIdentity \<Rightarrow> bool" where
  "less_SocketIdentity a b \<longleftrightarrow>
     si_id a < si_id b \<or> si_id a = si_id b \<and> generation a < generation b"
instance
proof
  fix x y z :: SocketIdentity
  show "x < y \<longleftrightarrow> x \<le> y \<and> \<not> y \<le> x"
    by (auto simp: less_eq_SocketIdentity_def less_SocketIdentity_def)
  show "x \<le> x" by (auto simp: less_eq_SocketIdentity_def)
  show "x \<le> y \<Longrightarrow> y \<le> z \<Longrightarrow> x \<le> z" by (auto simp: less_eq_SocketIdentity_def)
  show "x \<le> y \<Longrightarrow> y \<le> x \<Longrightarrow> x = y"
    by (cases x; cases y) (auto simp: less_eq_SocketIdentity_def)
  show "x \<le> y \<or> y \<le> x" by (auto simp: less_eq_SocketIdentity_def)
qed
end

instantiation ReadyKey :: linorder
begin
definition less_eq_ReadyKey :: "ReadyKey \<Rightarrow> ReadyKey \<Rightarrow> bool" where
  "less_eq_ReadyKey a b \<longleftrightarrow>
     identity a < identity b \<or> identity a = identity b \<and> direction a \<le> direction b"
definition less_ReadyKey :: "ReadyKey \<Rightarrow> ReadyKey \<Rightarrow> bool" where
  "less_ReadyKey a b \<longleftrightarrow>
     identity a < identity b \<or> identity a = identity b \<and> direction a < direction b"
instance
proof
  fix x y z :: ReadyKey
  show "x < y \<longleftrightarrow> x \<le> y \<and> \<not> y \<le> x"
    by (auto simp: less_eq_ReadyKey_def less_ReadyKey_def)
  show "x \<le> x" by (auto simp: less_eq_ReadyKey_def)
  show "x \<le> y \<Longrightarrow> y \<le> z \<Longrightarrow> x \<le> z" by (auto simp: less_eq_ReadyKey_def)
  show "x \<le> y \<Longrightarrow> y \<le> x \<Longrightarrow> x = y"
    by (cases x; cases y) (auto simp: less_eq_ReadyKey_def)
  show "x \<le> y \<or> y \<le> x" by (auto simp: less_eq_ReadyKey_def)
qed
end

type_synonym pid = nat
type_synonym reference = nat

record Waiter =
  w_pid :: pid
  w_operation :: Operation
  w_reference :: reference

definition waiter_matches :: "Waiter \<Rightarrow> Operation \<Rightarrow> reference \<Rightarrow> bool" where
  "waiter_matches w operation reference \<longleftrightarrow>
     w_operation w = operation \<and> w_reference w = reference"

datatype LockState = Free | Poisoned | Held

record ReadyState =
  ready_entries :: "ReadyKey bset"
  ready_capacity :: nat
  overflow :: bool
  queued :: nat
  coalesced :: nat
  overflows :: nat
  lock :: LockState

type_synonym flag_store = "ReadyKey \<Rightarrow> bool"

definition ReadyQueue_new :: "nat \<Rightarrow> ReadyState" where
  "ReadyQueue_new cap = \<lparr>ready_entries = [], ready_capacity = cap, overflow = False,
     queued = 0, coalesced = 0, overflows = 0, lock = Free\<rparr>"

definition mark_ready :: "ReadyKey \<Rightarrow> ReadyState \<times> flag_store \<Rightarrow> ReadyState \<times> flag_store" where
  "mark_ready key = (\<lambda>(q, flags).
     if flags key then (q\<lparr>coalesced := coalesced q + 1\<rparr>, flags)
     else
       let flags = flags(key := True) in
       if lock q \<noteq> Held \<and> length (ready_entries q) < ready_capacity q
       then (q\<lparr>ready_entries := bs_insert key (ready_entries q), queued := queued q + 1\<rparr>, flags)
       else (q\<lparr>overflow := True, overflows := overflows q + 1\<rparr>, flags))"

text \<open>The loop of \<open>drain_while\<close>: at least one key is popped, then the limit and the budget decide.\<close>

fun drain_loop ::
    "clock \<Rightarrow> nat \<Rightarrow> ReadyKey bset \<Rightarrow> ReadyKey list \<Rightarrow> meter \<Rightarrow> ReadyKey bset \<times> ReadyKey list \<times> meter" where
  "drain_loop clock limit [] keys m = ([], keys, m)"
| "drain_loop clock limit (key # entries) keys m =
     (let keys = keys @ [key] in
      if length keys = limit then (entries, keys, m)
      else case checkpoint_at clock m of
             (False, m') \<Rightarrow> (entries, keys, m')
           | (True, m') \<Rightarrow> drain_loop clock limit entries keys m')"

definition drain_while ::
    "clock \<Rightarrow> nat \<Rightarrow> meter \<Rightarrow> ReadyState \<Rightarrow> ReadyKey list \<times> ReadyState \<times> meter" where
  "drain_while clock limit m q =
     (if limit = 0 then ([], q, m)
      else case checkpoint_at clock m of
             (False, m') \<Rightarrow> ([], q, m')
           | (True, m') \<Rightarrow>
               if lock q = Held then ([], q\<lparr>overflow := True\<rparr>, m')
               else case drain_loop clock limit (ready_entries q) [] m' of
                      (entries, keys, m'') \<Rightarrow> (keys, q\<lparr>ready_entries := entries\<rparr>, m''))"

definition take_overflow :: "ReadyState \<Rightarrow> bool \<times> ReadyState" where
  "take_overflow q = (overflow q, q\<lparr>overflow := False\<rparr>)"

definition ready_len :: "ReadyState \<Rightarrow> nat" where
  "ready_len q = (if lock q = Held then 0 else length (ready_entries q))"

definition has_pending :: "ReadyState \<Rightarrow> bool" where
  "has_pending q \<longleftrightarrow> overflow q \<or> lock q = Held \<or> ready_entries q \<noteq> []"

definition ready_wf :: "ReadyState \<Rightarrow> bool" where
  "ready_wf q \<longleftrightarrow> bs_ok (ready_entries q) \<and> length (ready_entries q) \<le> ready_capacity q"

section \<open>Waking and draining\<close>

text \<open>
  What the stack relies on: a wake leaves its key covered, that is, queued or under a requested
  sweep, and neither waking nor draining forgets a key without handing it out.
\<close>

locale wake_source =
  fixes keys_of :: "'q \<Rightarrow> 'k set"
    and sweep_of :: "'q \<Rightarrow> bool"
    and wake :: "'k \<Rightarrow> 'q \<times> ('k \<Rightarrow> bool) \<Rightarrow> 'q \<times> ('k \<Rightarrow> bool)"
    and drain :: "'a \<Rightarrow> 'q \<Rightarrow> 'k list \<times> 'q"
  assumes wake_flags: "wake k (q, f) = (q', f') \<Longrightarrow> f' = f(k := True)"
    and wake_keeps: "wake k (q, f) = (q', f') \<Longrightarrow> keys_of q \<subseteq> keys_of q' \<and> (sweep_of q \<longrightarrow> sweep_of q')"
    and wake_covers: "wake k (q, f) = (q', f') \<Longrightarrow> \<not> f k \<Longrightarrow> k \<in> keys_of q' \<or> sweep_of q'"
    and drain_keeps: "drain a q = (ks, q') \<Longrightarrow> keys_of q \<subseteq> set ks \<union> keys_of q' \<and> (sweep_of q \<longrightarrow> sweep_of q')"
begin

definition covered :: "('k \<Rightarrow> bool) \<Rightarrow> 'q \<Rightarrow> bool" where
  "covered f q \<longleftrightarrow> sweep_of q \<or> (\<forall>k. f k \<longrightarrow> k \<in> keys_of q)"

lemma wake_covered_key:
  assumes "wake k (q, f) = (q', f')" and "f k \<Longrightarrow> k \<in> keys_of q \<or> sweep_of q"
  shows "f' k \<and> (k \<in> keys_of q' \<or> sweep_of q')"
  using wake_flags [OF assms(1)] wake_keeps [OF assms(1)] wake_covers [OF assms(1)] assms(2) by auto

lemma wake_covered: "wake k (q, f) = (q', f') \<Longrightarrow> covered f q \<Longrightarrow> covered f' q'"
  unfolding covered_def
  using wake_flags [of k q f q' f'] wake_keeps [of k q f q' f'] wake_covers [of k q f q' f']
  by (metis fun_upd_apply subset_iff)

lemma wakes_covered: "fold wake ks (q, f) = (q', f') \<Longrightarrow> covered f q \<Longrightarrow> covered f' q'"
proof (induction ks arbitrary: q f)
  case (Cons k ks)
  obtain q1 f1 where w: "wake k (q, f) = (q1, f1)" by force
  show ?case
    using Cons.IH [of q1 f1] Cons.prems w wake_covered [OF w] by simp
qed simp

lemma wakes_flags: "fold wake ks (q, f) = (q', f') \<Longrightarrow> f' k \<longleftrightarrow> f k \<or> k \<in> set ks"
proof (induction ks arbitrary: q f)
  case (Cons j ks)
  obtain q1 f1 where w: "wake j (q, f) = (q1, f1)" by force
  have "f' k \<longleftrightarrow> f1 k \<or> k \<in> set ks"
    using Cons.IH [of q1 f1] Cons.prems w by simp
  then show ?case using wake_flags [OF w] by auto
qed simp

lemma wakes_keep:
  "fold wake ks (q, f) = (q', f') \<Longrightarrow> keys_of q \<subseteq> keys_of q' \<and> (sweep_of q \<longrightarrow> sweep_of q')"
proof (induction ks arbitrary: q f)
  case (Cons j ks)
  obtain q1 f1 where w: "wake j (q, f) = (q1, f1)" by force
  show ?case
    using Cons.IH [of q1 f1] Cons.prems w wake_keeps [OF w] by auto
qed simp

end

lemma drain_loop_spec:
  "drain_loop clock limit es ks m = (es', ks', m') \<Longrightarrow> length ks < limit \<Longrightarrow>
     \<exists>out. es = out @ es' \<and> ks' = ks @ out \<and> length ks' \<le> limit \<and> (es \<noteq> [] \<longrightarrow> out \<noteq> [])"
proof (induction clock limit es ks m arbitrary: es' ks' m' rule: drain_loop.induct)
  case (2 clock limit key es ks m)
  show ?case
  proof (cases "Suc (length ks) = limit \<or> \<not> fst (checkpoint_at clock m)")
    case True
    then have "es' = es \<and> ks' = ks @ [key]"
      using "2.prems"(1) by (auto simp: Let_def split: if_splits prod.splits bool.splits)
    then show ?thesis using "2.prems"(2) by auto
  next
    case False
    then obtain m1 where m1: "checkpoint_at clock m = (True, m1)"
      by (cases "checkpoint_at clock m") auto
    have run: "drain_loop clock limit es (ks @ [key]) m1 = (es', ks', m')"
      using "2.prems"(1) False m1 by simp
    have "\<exists>out. es = out @ es' \<and> ks' = (ks @ [key]) @ out \<and> length ks' \<le> limit \<and> (es \<noteq> [] \<longrightarrow> out \<noteq> [])"
      by (rule "2.IH" [OF refl _ m1 [symmetric] _ run]) (use False "2.prems"(2) in auto)
    then show ?thesis by auto
  qed
qed simp

lemma drain_while_spec:
  assumes "drain_while clock limit m q = (ks, q', m')"
  shows "length ks \<le> limit"
    and "ready_entries q = ks @ ready_entries q'"
    and "overflow q \<longrightarrow> overflow q'" and "lock q' = lock q" and "ready_capacity q' = ready_capacity q"
proof -
  have "length ks \<le> limit \<and> ready_entries q = ks @ ready_entries q' \<and>
    (overflow q \<longrightarrow> overflow q') \<and> lock q' = lock q \<and> ready_capacity q' = ready_capacity q"
  proof (cases "limit = 0 \<or> \<not> fst (checkpoint_at clock m) \<or> lock q = Held")
    case True
    then show ?thesis
      using assms by (auto simp: drain_while_def split: if_splits prod.splits bool.splits)
  next
    case False
    then obtain m1 where m1: "checkpoint_at clock m = (True, m1)"
      by (cases "checkpoint_at clock m") auto
    obtain es k2 m2 where l: "drain_loop clock limit (ready_entries q) [] m1 = (es, k2, m2)"
      by (metis prod_cases3)
    from drain_loop_spec [OF l] False show ?thesis
      using assms m1 l by (auto simp: drain_while_def)
  qed
  then show "length ks \<le> limit" and "ready_entries q = ks @ ready_entries q'"
    and "overflow q \<longrightarrow> overflow q'" and "lock q' = lock q" and "ready_capacity q' = ready_capacity q"
    by auto
qed

definition ready_drain :: "clock \<times> nat \<times> meter \<Rightarrow> ReadyState \<Rightarrow> ReadyKey list \<times> ReadyState" where
  "ready_drain a q = (case a of (clock, limit, m) \<Rightarrow>
     let (ks, q', m') = drain_while clock limit m q in (ks, q'))"

lemma ready_drainD:
  "ready_drain a q = (ks, q') \<Longrightarrow> \<exists>clock limit m m'. drain_while clock limit m q = (ks, q', m')"
  by (cases a, cases "drain_while (fst a) (fst (snd a)) (snd (snd a)) q")
    (auto simp: ready_drain_def, blast)

interpretation rq: wake_source "\<lambda>q. set (ready_entries q)" overflow mark_ready ready_drain
proof
  fix k q f q' f'
  assume w: "mark_ready k (q, f) = (q', f')"
  show "f' = f(k := True)"
    using w by (auto simp: mark_ready_def Let_def split: if_splits)
  show "set (ready_entries q) \<subseteq> set (ready_entries q') \<and> (overflow q \<longrightarrow> overflow q')"
    using w by (auto simp: mark_ready_def Let_def split: if_splits)
  show "k \<in> set (ready_entries q') \<or> overflow q'" if "\<not> f k"
    using w that by (auto simp: mark_ready_def Let_def split: if_splits)
next
  fix a q ks q'
  assume "ready_drain a q = (ks, q')"
  then obtain clock limit m m' where d: "drain_while clock limit m q = (ks, q', m')"
    using ready_drainD by blast
  show "set (ready_entries q) \<subseteq> set ks \<union> set (ready_entries q') \<and> (overflow q \<longrightarrow> overflow q')"
    using drain_while_spec [OF d] by auto
qed

lemma ready_wf_new [wf_intros]: "ready_wf (ReadyQueue_new cap)"
  by (simp add: ready_wf_def ReadyQueue_new_def)

lemma ready_wf_mark [wf_intros]: "ready_wf q \<Longrightarrow> ready_wf (fst (mark_ready k (q, f)))"
  using bts.size_insert_le [of "ready_entries q" k]
  by (auto simp: ready_wf_def mark_ready_def Let_def)

lemma ready_wf_drain [wf_intros]:
  assumes "drain_while clock limit m q = (ks, q', m')" and "ready_wf q"
  shows "ready_wf q'"
  using assms(2) drain_while_spec [OF assms(1)]
  by (auto simp: ready_wf_def bs_ok_def sorted_wrt_append)

text \<open>C25: the readiness queue never exceeds its capacity and keeps its keys in order; a drain hands
  out the smallest keys in order, at most the limit, and leaves the rest queued.\<close>

theorem drain_takes_smallest_in_order:
  assumes "drain_while clock limit m q = (ks, q', m')" and "ready_wf q"
  shows "ready_wf q' \<and> length ks \<le> limit \<and> sorted_wrt (<) ks \<and>
    ready_entries q = ks @ ready_entries q' \<and>
    (\<forall>k \<in> set ks. \<forall>k' \<in> set (ready_entries q'). k < k')"
proof -
  note spec = drain_while_spec [OF assms(1)]
  have "sorted_wrt (<) (ks @ ready_entries q')"
    using assms(2) spec(2) by (simp add: ready_wf_def bs_ok_def)
  then show ?thesis
    using spec ready_wf_drain [OF assms] by (auto simp: sorted_wrt_append)
qed

definition sample_key :: "nat \<Rightarrow> Direction \<Rightarrow> ReadyKey" where
  "sample_key n d = ReadyKey (SocketIdentity n n) d"

definition sample_queue :: ReadyState where
  "sample_queue = (ReadyQueue_new 2)\<lparr>ready_entries := [sample_key 1 Read, sample_key 1 Write]\<rparr>"

theorem drain_takes_smallest_in_order_witness:
  "ready_wf sample_queue \<and>
   ready_entries sample_queue = [sample_key 1 Read] @ [sample_key 1 Write]"
proof -
  have wf: "ready_wf sample_queue"
    by (simp add: ready_wf_def sample_queue_def ReadyQueue_new_def bs_ok_def sample_key_def
        less_ReadyKey_def less_Direction_def)
  have d: "drain_while (\<lambda>_. 0) 1 (start 0 None, 0) sample_queue =
      ([sample_key 1 Read], sample_queue\<lparr>ready_entries := [sample_key 1 Write]\<rparr>, (start 0 None, 1))"
    by (simp add: drain_while_def sample_queue_def ReadyQueue_new_def checkpoint_at_def checkpoint_def
        start_def WORK_BUDGET_def)
  show ?thesis
    using wf drain_takes_smallest_in_order [OF d wf] by simp
qed

text \<open>C24: no wake is lost in the queue: after any sequence of wakes, every flagged key is queued or a
  sweep has been requested, provided that was so before; a repeated wake is only counted.\<close>

theorem wakes_never_lost:
  assumes "fold mark_ready ks (q, f) = (q', f')"
    and "\<And>k. f k \<Longrightarrow> k \<in> set (ready_entries q) \<or> overflow q"
  shows "(\<forall>k. f' k \<longleftrightarrow> f k \<or> k \<in> set ks) \<and>
    (\<forall>k. f' k \<longrightarrow> k \<in> set (ready_entries q') \<or> overflow q')"
proof -
  have "rq.covered f q" using assms(2) by (auto simp: rq.covered_def)
  then have "rq.covered f' q'" using rq.wakes_covered [OF assms(1)] by blast
  then show ?thesis
    using rq.wakes_flags [OF assms(1)] by (auto simp: rq.covered_def)
qed

theorem wakes_never_lost_witness:
  "(let (q, f) = fold mark_ready [sample_key 1 Read, sample_key 2 Read, sample_key 1 Read]
       (ReadyQueue_new 1, \<lambda>_. False)
    in f (sample_key 2 Read) \<and> overflow q)"
proof -
  obtain q f where run: "fold mark_ready [sample_key 1 Read, sample_key 2 Read, sample_key 1 Read]
       (ReadyQueue_new 1, \<lambda>_. False) = (q, f)" by force
  then have q: "ready_entries q = [sample_key 1 Read]"
    by (auto simp: mark_ready_def ReadyQueue_new_def bs_insert_def sample_key_def)
  note lost = wakes_never_lost [OF run]
  have "f (sample_key 2 Read)"
    using lost [THEN conjunct1, THEN spec, of "sample_key 2 Read"] by simp
  moreover from this have "sample_key 2 Read \<in> set (ready_entries q) \<or> overflow q"
    using lost [THEN conjunct2, THEN spec, of "sample_key 2 Read"] by simp
  moreover have "sample_key 2 Read \<notin> set (ready_entries q)"
    by (simp add: q) (simp add: sample_key_def)
  ultimately show ?thesis unfolding run by simp
qed

end
