(* ===== verification/Socket_Table.thy ===== *)
theory Socket_Table
  imports Waiter
begin

text \<open>
  The socket table (\<open>native/smolnet_core/src/socket_table.rs\<close>).

  The table maps the identifier of each open socket to its generation and its entry, which holds
  the waiter of each direction and the waiter last notified. Identifiers and generations come from
  two process-wide counters (\<open>IdCounters\<close>) that only grow, so an identity is never issued twice.
  The ready flags of all entries are the field \<open>flags\<close>, the store the wakers share.

  The lemmas show that the waiter count is always the number of waiters, that the table and its
  waiters stay within their capacities, that a closed identity is never accepted again, that a
  notification consumes its waiter, and that the readiness sweep of \<open>scan_ready\<close>, resumed from its
  cursor, misses no flagged socket.
\<close>

section \<open>Definitions\<close>

datatype SocketKind = Tcp | Udp | Synthetic

datatype SocketLifecycle = Open | Closing

datatype SocketError =
    SE_Closed | SE_EndOfStream | SE_InvalidSocket | SE_WrongKind | SE_InvalidState
  | SE_InvalidOperation | SE_InvalidOptions | SE_Busy | SE_SystemLimit | SE_InvalidAddress
  | SE_InvalidPort | SE_InvalidBacklog | SE_ScopeRequired | SE_InvalidScope | SE_AddressInUse
  | SE_AddressNotAvailable | SE_EphemeralPortsExhausted | SE_NetworkUnreachable
  | SE_AlreadyConnected | SE_NotBound | SE_NotConnected | SE_ConnectionRefused
  | SE_ConnectionReset | SE_ConnectionTimeout | SE_MessageTooLarge

record SocketEntry =
  kind :: SocketKind
  lifecycle :: SocketLifecycle
  internal_handle :: nat
  read_waiter :: "Waiter option"
  write_waiter :: "Waiter option"
  read_sent :: "Waiter option"
  write_sent :: "Waiter option"

definition SocketEntry_new :: "SocketKind \<Rightarrow> nat \<Rightarrow> SocketEntry" where
  "SocketEntry_new k handle = \<lparr>kind = k, lifecycle = Open, internal_handle = handle,
     read_waiter = None, write_waiter = None, read_sent = None, write_sent = None\<rparr>"

fun waiter :: "Direction \<Rightarrow> SocketEntry \<Rightarrow> Waiter option" where
  "waiter Read e = read_waiter e"
| "waiter Write e = write_waiter e"

fun set_waiter :: "Direction \<Rightarrow> Waiter option \<Rightarrow> SocketEntry \<Rightarrow> SocketEntry" where
  "set_waiter Read w e = e\<lparr>read_waiter := w\<rparr>"
| "set_waiter Write w e = e\<lparr>write_waiter := w\<rparr>"

fun sent :: "Direction \<Rightarrow> SocketEntry \<Rightarrow> Waiter option" where
  "sent Read e = read_sent e"
| "sent Write e = write_sent e"

fun set_sent :: "Direction \<Rightarrow> Waiter option \<Rightarrow> SocketEntry \<Rightarrow> SocketEntry" where
  "set_sent Read w e = e\<lparr>read_sent := w\<rparr>"
| "set_sent Write w e = e\<lparr>write_sent := w\<rparr>"

record SocketTable =
  entries :: "(nat, nat \<times> SocketEntry) btree"
  max_entries :: nat
  waiter_count :: nat
  max_waiters :: nat
  flags :: flag_store

record IdCounters =
  next_socket_id :: nat
  next_generation :: nat

definition MAX_SOCKET_ID :: nat where "MAX_SOCKET_ID = 576460752303423487"

definition SocketTable_new :: "nat \<Rightarrow> nat \<Rightarrow> SocketTable" where
  "SocketTable_new me mw = \<lparr>entries = [], max_entries = me, waiter_count = 0, max_waiters = mw,
     flags = (\<lambda>_. False)\<rparr>"

definition next_identity :: "nat \<Rightarrow> (SocketError, nat \<times> nat) result" where
  "next_identity current =
     (if current \<le> MAX_SOCKET_ID then Inr (current, current + 1) else Inl SE_SystemLimit)"

definition table_insert ::
    "SocketKind \<Rightarrow> nat \<Rightarrow> SocketTable \<times> IdCounters
      \<Rightarrow> (SocketError, SocketIdentity) result \<times> SocketTable \<times> IdCounters" where
  "table_insert k handle = (\<lambda>(t, c).
     if max_entries t \<le> length (entries t) then (Inl SE_SystemLimit, t, c)
     else case next_identity (next_socket_id c) of
       Inl e \<Rightarrow> (Inl e, t, c)
     | Inr (sid, sid') \<Rightarrow>
         let c = c\<lparr>next_socket_id := sid'\<rparr> in
         (case next_identity (next_generation c) of
           Inl e \<Rightarrow> (Inl e, t, c)
         | Inr (gen, gen') \<Rightarrow>
             let c = c\<lparr>next_generation := gen'\<rparr>;
                 i = SocketIdentity sid gen
             in (Inr i,
                 t\<lparr>entries := bt_insert sid (gen, SocketEntry_new k handle) (entries t),
                   flags := (flags t)(ReadyKey i Read := False, ReadyKey i Write := False)\<rparr>, c)))"

definition validate :: "SocketTable \<Rightarrow> SocketIdentity \<Rightarrow> SocketKind \<Rightarrow> (SocketError, SocketEntry) result" where
  "validate t i expected_kind =
     (case bt_get (entries t) (si_id i) of
        None \<Rightarrow> Inl SE_InvalidSocket
      | Some (gen, e) \<Rightarrow>
          if gen \<noteq> generation i then Inl SE_InvalidSocket
          else if kind e \<noteq> expected_kind then Inl SE_WrongKind
          else if lifecycle e \<noteq> Open then Inl SE_InvalidState
          else Inr e)"

definition validate_any :: "SocketTable \<Rightarrow> SocketIdentity \<Rightarrow> (SocketError, SocketEntry) result" where
  "validate_any t i =
     (case bt_get (entries t) (si_id i) of
        None \<Rightarrow> Inl SE_InvalidSocket
      | Some (gen, e) \<Rightarrow>
          if gen \<noteq> generation i then Inl SE_InvalidSocket
          else if lifecycle e \<noteq> Open then Inl SE_InvalidState
          else Inr e)"

text \<open>The flag itself is the store's cell for the key.\<close>

definition ready_flag ::
    "SocketTable \<Rightarrow> SocketIdentity \<Rightarrow> SocketKind \<Rightarrow> Direction \<Rightarrow> (SocketError, ReadyKey) result" where
  "ready_flag t i expected_kind dir = bind_res (validate t i expected_kind) (\<lambda>_. Inr (ReadyKey i dir))"

definition has_waiter ::
    "SocketTable \<Rightarrow> SocketIdentity \<Rightarrow> SocketKind \<Rightarrow> Direction \<Rightarrow> (SocketError, bool) result" where
  "has_waiter t i expected_kind dir =
     bind_res (validate t i expected_kind) (\<lambda>e. Inr (waiter dir e \<noteq> None))"

definition ensure_waiter_capacity :: "SocketTable \<Rightarrow> (SocketError, unit) result" where
  "ensure_waiter_capacity t =
     (if max_waiters t \<le> waiter_count t then Inl SE_SystemLimit else Inr ())"

text \<open>\<open>get_mut\<close> followed by a change of the entry.\<close>

definition update_entry :: "nat \<Rightarrow> (SocketEntry \<Rightarrow> SocketEntry) \<Rightarrow> SocketTable \<Rightarrow> SocketTable" where
  "update_entry sid f t =
     (case bt_get (entries t) sid of
        None \<Rightarrow> t
      | Some (gen, e) \<Rightarrow> t\<lparr>entries := bt_insert sid (gen, f e) (entries t)\<rparr>)"

definition take_waiter ::
    "SocketIdentity \<Rightarrow> SocketKind \<Rightarrow> Direction \<Rightarrow> SocketTable
      \<Rightarrow> (SocketError, Waiter option) result \<times> SocketTable" where
  "take_waiter i expected_kind dir t =
     check (validate t i expected_kind) t (\<lambda>e.
       case waiter dir e of
         None \<Rightarrow> (Inr None, t)
       | Some w \<Rightarrow>
           (Inr (Some w),
            (update_entry (si_id i) (set_waiter dir None) t)
              \<lparr>flags := (flags t)(ReadyKey i dir := False), waiter_count := waiter_count t - 1\<rparr>))"

datatype InstallResult = Armed | AlreadyArmed

record WaiterRegistration =
  r_identity :: SocketIdentity
  r_kind :: SocketKind
  r_direction :: Direction
  r_pid :: pid
  r_operation :: Operation
  r_reference :: reference

definition install_waiter ::
    "WaiterRegistration \<Rightarrow> SocketTable \<Rightarrow> (SocketError, InstallResult) result \<times> SocketTable" where
  "install_waiter r t =
     (let i = r_identity r; dir = r_direction r in
      if operation_direction (r_operation r) \<noteq> dir then (Inl SE_InvalidOperation, t)
      else check (validate t i (r_kind r)) t (\<lambda>e.
        case waiter dir e of
          Some w \<Rightarrow>
            if w_pid w = r_pid r \<and> waiter_matches w (r_operation r) (r_reference r)
            then (Inr AlreadyArmed, t) else (Inl SE_Busy, t)
        | None \<Rightarrow>
            if max_waiters t \<le> waiter_count t then (Inl SE_SystemLimit, t)
            else (Inr Armed,
                  (update_entry (si_id i)
                     (\<lambda>e. set_waiter dir
                        (Some \<lparr>w_pid = r_pid r, w_operation = r_operation r, w_reference = r_reference r\<rparr>)
                        (set_sent dir None e)) t)
                    \<lparr>waiter_count := waiter_count t + 1\<rparr>)))"

datatype CancelResult = Cancelled | AlreadySent | NotFound

definition cancel ::
    "SocketIdentity \<Rightarrow> Operation \<Rightarrow> reference \<Rightarrow> SocketTable
      \<Rightarrow> (SocketError, CancelResult) result \<times> SocketTable" where
  "cancel i operation reference t =
     (let dir = operation_direction operation in
      case bt_get (entries t) (si_id i) of
        None \<Rightarrow> (Inl SE_InvalidSocket, t)
      | Some (gen, e) \<Rightarrow>
          if gen \<noteq> generation i then (Inl SE_InvalidSocket, t)
          else if lifecycle e \<noteq> Open then (Inl SE_InvalidState, t)
          else if (case waiter dir e of None \<Rightarrow> False | Some w \<Rightarrow> waiter_matches w operation reference)
          then (Inr Cancelled,
                (update_entry (si_id i) (set_waiter dir None) t)
                  \<lparr>flags := (flags t)(ReadyKey i dir := False), waiter_count := waiter_count t - 1\<rparr>)
          else if (case sent dir e of None \<Rightarrow> False | Some w \<Rightarrow> waiter_matches w operation reference)
          then (Inr AlreadySent, t)
          else (Inr NotFound, t))"

datatype ReadyResult = Notify Waiter | NoWaiter | Coalesced | Stale

text \<open>The sent waiter is stored and taken again at once, so the slot ends empty.\<close>

definition take_ready_waiter :: "ReadyKey \<Rightarrow> SocketTable \<Rightarrow> ReadyResult \<times> SocketTable" where
  "take_ready_waiter key t =
     (let i = identity key; dir = direction key in
      case bt_get (entries t) (si_id i) of
        None \<Rightarrow> (Stale, t)
      | Some (gen, e) \<Rightarrow>
          if gen \<noteq> generation i \<or> lifecycle e \<noteq> Open then (Stale, t)
          else
            let was_ready = flags t key;
                t = t\<lparr>flags := (flags t)(key := False)\<rparr>
            in if \<not> was_ready then (Coalesced, t)
               else case waiter dir e of
                      None \<Rightarrow> (NoWaiter, t)
                    | Some w \<Rightarrow>
                        (Notify w,
                         (update_entry (si_id i) (\<lambda>e. set_sent dir None (set_waiter dir None e)) t)
                           \<lparr>waiter_count := waiter_count t - 1\<rparr>))"

definition remember_sent :: "SocketIdentity \<Rightarrow> Direction \<Rightarrow> Waiter \<Rightarrow> SocketTable \<Rightarrow> SocketTable" where
  "remember_sent i dir w t =
     (case bt_get (entries t) (si_id i) of
        None \<Rightarrow> t
      | Some (gen, e) \<Rightarrow>
          if gen = generation i then update_entry (si_id i) (set_sent dir (Some w)) t else t)"

definition entry_waiters :: "SocketEntry \<Rightarrow> (Direction \<times> Waiter) list" where
  "entry_waiters e =
     (case read_waiter e of None \<Rightarrow> [] | Some w \<Rightarrow> [(Read, w)]) @
     (case write_waiter e of None \<Rightarrow> [] | Some w \<Rightarrow> [(Write, w)])"

definition table_close ::
    "SocketIdentity \<Rightarrow> SocketTable \<Rightarrow> (SocketError, (Direction \<times> Waiter) list) result \<times> SocketTable" where
  "table_close i t =
     (case bt_get (entries t) (si_id i) of
        None \<Rightarrow> (Inl SE_InvalidSocket, t)
      | Some (gen, e) \<Rightarrow>
          let t' = t\<lparr>entries := bt_remove (si_id i) (entries t)\<rparr> in
          if gen \<noteq> generation i
          then (Inl SE_InvalidSocket, t'\<lparr>entries := bt_insert (si_id i) (gen, e) (entries t')\<rparr>)
          else let waiters = entry_waiters e
               in (Inr waiters, t'\<lparr>waiter_count := waiter_count t - length waiters\<rparr>))"

text \<open>The outer \<open>None\<close> is the failed \<open>expect\<close>.\<close>

definition close_next ::
    "SocketTable \<Rightarrow> (SocketIdentity \<times> (Direction \<times> Waiter) list) option option \<times> SocketTable" where
  "close_next t =
     (case entries t of
        [] \<Rightarrow> (Some None, t)
      | (sid, gen, e) # _ \<Rightarrow>
          (case table_close (SocketIdentity sid gen) t of
             (Inl err, t') \<Rightarrow> (None, t')
           | (Inr waiters, t') \<Rightarrow> (Some (Some (SocketIdentity sid gen, waiters)), t')))"

record ReadyScan =
  scan_keys :: "ReadyKey list"
  scan_cursor :: "ReadyKey option"
  scan_complete :: bool
  entries_scanned :: nat

fun scan_loop ::
    "clock \<Rightarrow> flag_store \<Rightarrow> ReadyKey option \<Rightarrow> nat \<Rightarrow> nat \<Rightarrow> (nat \<times> nat \<times> SocketEntry) list
      \<Rightarrow> ReadyScan \<Rightarrow> meter \<Rightarrow> ReadyScan \<times> meter" where
  "scan_loop clock fl cursor entry_limit key_limit [] sc m = (sc\<lparr>scan_complete := True\<rparr>, m)"
| "scan_loop clock fl cursor entry_limit key_limit ((sid, gen, e) # rest) sc m =
     (let i = SocketIdentity sid gen;
          at_cursor = (\<lambda>dir. case cursor of None \<Rightarrow> False
                             | Some key \<Rightarrow> si_id (identity key) = sid \<and> direction key = dir);
          read_key = ReadyKey i Read; write_key = ReadyKey i Write
      in if at_cursor Write
         then scan_loop clock fl cursor entry_limit key_limit rest sc m
         else case checkpoint_at clock m of
           (False, m) \<Rightarrow> (sc\<lparr>scan_complete := False\<rparr>, m)
         | (True, m) \<Rightarrow>
             let sc = sc\<lparr>entries_scanned := entries_scanned sc + 1\<rparr>;
                 take_read = (\<not> at_cursor Read \<and> fl read_key);
                 sc = (if take_read
                       then sc\<lparr>scan_keys := scan_keys sc @ [read_key], scan_cursor := Some read_key\<rparr>
                       else sc)
             in if take_read \<and> length (scan_keys sc) = key_limit
                then (sc\<lparr>scan_complete := False\<rparr>, m)
                else (case (if take_read then checkpoint_at clock m else (True, m)) of
                  (False, m) \<Rightarrow> (sc\<lparr>scan_complete := False\<rparr>, m)
                | (True, m) \<Rightarrow>
                    let sc = (if fl write_key then sc\<lparr>scan_keys := scan_keys sc @ [write_key]\<rparr> else sc);
                        sc = sc\<lparr>scan_cursor := Some write_key\<rparr>
                    in if length (scan_keys sc) = key_limit \<or> entries_scanned sc = entry_limit
                       then (sc\<lparr>scan_complete := (rest = [])\<rparr>, m)
                       else scan_loop clock fl cursor entry_limit key_limit rest sc m))"

definition scan_range :: "ReadyKey option \<Rightarrow> SocketTable \<Rightarrow> (nat \<times> nat \<times> SocketEntry) list" where
  "scan_range cursor t =
     (case cursor of
        None \<Rightarrow> entries t
      | Some key \<Rightarrow> filter (\<lambda>(sid, _). si_id (identity key) \<le> sid) (entries t))"

definition scan_ready ::
    "clock \<Rightarrow> ReadyKey option \<Rightarrow> nat \<Rightarrow> nat \<Rightarrow> meter \<Rightarrow> SocketTable \<Rightarrow> ReadyScan \<times> meter" where
  "scan_ready clock cursor entry_limit key_limit m t =
     (let sc = \<lparr>scan_keys = [], scan_cursor = cursor, scan_complete = False, entries_scanned = 0\<rparr>
      in if entry_limit = 0 \<or> key_limit = 0 then (sc, m)
         else scan_loop clock (flags t) cursor entry_limit key_limit (scan_range cursor t) sc m)"

definition table_len :: "SocketTable \<Rightarrow> nat" where
  "table_len t = length (entries t)"

definition waiter_counts :: "SocketTable \<Rightarrow> nat \<times> nat" where
  "waiter_counts t =
     fold (\<lambda>(_, _, e) (r, w). (r + of_bool (read_waiter e \<noteq> None), w + of_bool (write_waiter e \<noteq> None)))
       (entries t) (0, 0)"

definition sent_waiter_counts :: "SocketTable \<Rightarrow> nat \<times> nat" where
  "sent_waiter_counts t =
     fold (\<lambda>(_, _, e) (r, w). (r + of_bool (read_sent e \<noteq> None), w + of_bool (write_sent e \<noteq> None)))
       (entries t) (0, 0)"

text \<open>The invariant, and the vocabulary of the properties.\<close>

definition entry_waiter_count :: "SocketEntry \<Rightarrow> nat" where
  "entry_waiter_count e = of_bool (read_waiter e \<noteq> None) + of_bool (write_waiter e \<noteq> None)"

definition table_wf :: "SocketTable \<Rightarrow> bool" where
  "table_wf t \<longleftrightarrow> bt_ok (entries t) \<and> length (entries t) \<le> max_entries t \<and>
     waiter_count t = (\<Sum>(_, _, e) \<leftarrow> entries t. entry_waiter_count e) \<and>
     waiter_count t \<le> max_waiters t"

definition live :: "SocketTable \<Rightarrow> SocketIdentity \<Rightarrow> bool" where
  "live t i \<longleftrightarrow> (\<exists>e. bt_get (entries t) (si_id i) = Some (generation i, e))"

definition issued :: "IdCounters \<Rightarrow> SocketIdentity \<Rightarrow> bool" where
  "issued c i \<longleftrightarrow> si_id i < next_socket_id c"

definition after_cursor :: "ReadyKey option \<Rightarrow> ReadyKey \<Rightarrow> bool" where
  "after_cursor cursor key \<longleftrightarrow>
     (case cursor of
        None \<Rightarrow> True
      | Some c \<Rightarrow> si_id (identity c) < si_id (identity key) \<or>
                  si_id (identity c) = si_id (identity key) \<and> direction c < direction key)"

text \<open>Every way the table, its flags and the counters change: one rule per operation, and a wake.\<close>

type_synonym table_state = "SocketTable \<times> IdCounters"

inductive table_step :: "table_state \<Rightarrow> table_state \<Rightarrow> bool" where
  step_insert: "table_insert k h (t, c) = (r, t', c') \<Longrightarrow> table_step (t, c) (t', c')"
| step_take_waiter: "take_waiter i k d t = (r, t') \<Longrightarrow> table_step (t, c) (t', c)"
| step_install: "install_waiter w t = (r, t') \<Longrightarrow> table_step (t, c) (t', c)"
| step_cancel: "cancel i op rf t = (r, t') \<Longrightarrow> table_step (t, c) (t', c)"
| step_ready: "take_ready_waiter key t = (r, t') \<Longrightarrow> table_step (t, c) (t', c)"
| step_remember: "remember_sent i d w t = t' \<Longrightarrow> table_step (t, c) (t', c)"
| step_close: "table_close i t = (r, t') \<Longrightarrow> table_step (t, c) (t', c)"
| step_close_next: "close_next t = (r, t') \<Longrightarrow> table_step (t, c) (t', c)"
| step_wake: "mark_ready key (q, flags t) = (q', f) \<Longrightarrow> table_step (t, c) (t\<lparr>flags := f\<rparr>, c)"

abbreviation table_steps :: "table_state \<Rightarrow> table_state \<Rightarrow> bool" where
  "table_steps \<equiv> table_step\<^sup>*\<^sup>*"

section \<open>Lookup and the entry updates\<close>

lemmas table_lookup = validate_def validate_any_def bind_res_simps

lemma validate_Inr_iff:
  "validate t i k = Inr e \<longleftrightarrow>
     bt_get (entries t) (si_id i) = Some (generation i, e) \<and> kind e = k \<and> lifecycle e = Open"
  by (auto simp: validate_def split: option.splits)

lemma validate_live: "validate t i k = Inr e \<Longrightarrow> live t i"
  by (simp add: validate_Inr_iff live_def)

lemma waiter_set_waiter [simp]:
  "waiter d (set_waiter d' w e) = (if d = d' then w else waiter d e)"
  "waiter d (set_sent d' w e) = waiter d e"
  "sent d (set_sent d' w e) = (if d = d' then w else sent d e)"
  "sent d (set_waiter d' w e) = sent d e"
  "kind (set_waiter d' w e) = kind e" "kind (set_sent d' w e) = kind e"
  "lifecycle (set_waiter d' w e) = lifecycle e" "lifecycle (set_sent d' w e) = lifecycle e"
  "internal_handle (set_waiter d' w e) = internal_handle e"
  "internal_handle (set_sent d' w e) = internal_handle e"
  by (cases d; cases d'; simp)+

lemma entry_waiter_count_alt:
  "entry_waiter_count e = of_bool (waiter d e \<noteq> None) + of_bool (waiter (if d = Read then Write else Read) e \<noteq> None)"
  by (cases d) (simp_all add: entry_waiter_count_def)

lemma entry_waiter_count_set [simp]:
  "entry_waiter_count (set_sent d w e) = entry_waiter_count e"
  "waiter d e \<noteq> None \<Longrightarrow> Suc (entry_waiter_count (set_waiter d None e)) = entry_waiter_count e"
  "waiter d e = None \<Longrightarrow> entry_waiter_count (set_waiter d (Some x) e) = Suc (entry_waiter_count e)"
  by (cases d; simp add: entry_waiter_count_def)+

lemma length_entry_waiters [simp]: "length (entry_waiters e) = entry_waiter_count e"
  by (auto simp: entry_waiters_def entry_waiter_count_def split: option.splits)

lemma update_entry_frame [simp]:
  "max_entries (update_entry i f t) = max_entries t"
  "max_waiters (update_entry i f t) = max_waiters t"
  "waiter_count (update_entry i f t) = waiter_count t"
  "flags (update_entry i f t) = flags t"
  by (auto simp: update_entry_def split: option.splits)

lemma get_update_entry [simp]:
  "bt_get (entries (update_entry i f t)) j =
     (if j = i then map_option (\<lambda>(g, e). (g, f e)) (bt_get (entries t) i) else bt_get (entries t) j)"
  by (auto simp: update_entry_def split: option.splits)

lemma live_update_entry [simp]: "live (update_entry i f t) j = live t j"
  by (auto simp: live_def)

lemma live_frame [simp]:
  "live (t\<lparr>flags := fl\<rparr>) i = live t i" "live (t\<lparr>waiter_count := n\<rparr>) i = live t i"
  by (simp_all add: live_def)

section \<open>The table invariant\<close>

lemma table_wf_new [wf_intros]: "table_wf (SocketTable_new me mw)"
  by (simp add: table_wf_def SocketTable_new_def)

lemma table_wf_flags [simp]:
  "table_wf (t\<lparr>flags := fl\<rparr>) = table_wf t"
  "table_wf (t\<lparr>flags := fl, waiter_count := n\<rparr>) = table_wf (t\<lparr>waiter_count := n\<rparr>)"
  by (simp_all add: table_wf_def)

lemma update_entry_flags: "update_entry i f (t\<lparr>flags := fl\<rparr>) = (update_entry i f t)\<lparr>flags := fl\<rparr>"
  by (simp add: update_entry_def split: option.splits)

lemma table_wf_update:
  assumes "table_wf t" and get: "bt_get (entries t) i = Some (g, e)"
    and "entry_waiter_count (f e) + waiter_count t = n + entry_waiter_count e" and "n \<le> max_waiters t"
  shows "table_wf ((update_entry i f t)\<lparr>waiter_count := n\<rparr>)"
  using assms btm.sum_insert_old [OF _ get, of "\<lambda>(_, _, e). entry_waiter_count e" "(g, f e)"]
    btm.count_insert_old [OF _ get, of "(g, f e)"]
  by (simp add: table_wf_def update_entry_def)

lemma table_wf_update_same:
  assumes "table_wf t" and "\<And>e. entry_waiter_count (f e) = entry_waiter_count e"
  shows "table_wf (update_entry i f t)"
proof (cases "bt_get (entries t) i")
  case None
  then show ?thesis using assms(1) by (simp add: update_entry_def)
next
  case (Some ge)
  then show ?thesis
    using table_wf_update [OF assms(1), of i "fst ge" "snd ge" f "waiter_count t"] assms
    by (simp add: table_wf_def update_entry_def split: prod.splits)
qed

lemma table_wf_waiter_pos:
  assumes "table_wf t" and "bt_get (entries t) i = Some (g, e)"
  shows "entry_waiter_count e \<le> waiter_count t"
  using assms btm.sum_remove [of "entries t" i "(g, e)" "\<lambda>(_, _, e). entry_waiter_count e"]
  by (simp add: table_wf_def)

lemma table_wf_drop_waiter:
  assumes wf: "table_wf t" and get: "bt_get (entries t) i = Some (g, e)"
    and "Suc (entry_waiter_count (f e)) = entry_waiter_count e"
  shows "table_wf ((update_entry i f t)\<lparr>waiter_count := waiter_count t - Suc 0\<rparr>)"
  using assms table_wf_waiter_pos [OF wf get]
  by (intro table_wf_update [OF wf get]) (auto simp: table_wf_def)

lemma table_wf_clear_waiter:
  assumes "table_wf t" and "bt_get (entries t) i = Some (g, e)" and "waiter d e = Some w"
  shows "table_wf ((update_entry i (set_waiter d None) t)\<lparr>waiter_count := waiter_count t - Suc 0\<rparr>)"
    and "table_wf ((update_entry i (\<lambda>e. set_sent d None (set_waiter d None e)) t)
           \<lparr>waiter_count := waiter_count t - Suc 0\<rparr>)"
  by (rule table_wf_drop_waiter [OF assms(1,2)]; simp add: assms(3))+

lemma table_wf_insert [wf_intros]:
  assumes "table_wf t" and "table_insert k h (t, c) = (r, t', c')"
    and "\<forall>i. live t i \<longrightarrow> issued c i"
  shows "table_wf t'"
proof -
  have "bt_get (entries t) (next_socket_id c) = None"
  proof (rule ccontr)
    assume "bt_get (entries t) (next_socket_id c) \<noteq> None"
    then obtain g e where "bt_get (entries t) (next_socket_id c) = Some (g, e)" by auto
    then have "live t (SocketIdentity (next_socket_id c) g)" by (simp add: live_def)
    then show False using assms(3) by (auto simp: issued_def)
  qed
  then show ?thesis
    using assms(1,2)
    by (auto simp: table_insert_def next_identity_def Let_def table_wf_def SocketEntry_new_def
        entry_waiter_count_def btm.count_insert_new btm.sum_insert_new split: if_splits)
qed

lemma table_wf_take_waiter [wf_intros]:
  assumes "table_wf t" and "take_waiter i k d t = (r, t')"
  shows "table_wf t'"
  using assms unfolding take_waiter_def
  by (elim check_cases) (auto simp: validate_Inr_iff split: option.splits intro: table_wf_clear_waiter)

lemma table_wf_install [wf_intros]:
  assumes "table_wf t" and "install_waiter w t = (r, t')"
  shows "table_wf t'"
proof -
  have "table_wf ((update_entry (si_id (r_identity w))
           (\<lambda>e. set_waiter (r_direction w) (Some x) (set_sent (r_direction w) None e)) t)
           \<lparr>waiter_count := waiter_count t + 1\<rparr>)"
    if "validate t (r_identity w) (r_kind w) = Inr e" and "waiter (r_direction w) e = None"
      and "waiter_count t < max_waiters t" for e x
    using that by (intro table_wf_update [OF assms(1)]) (auto simp: validate_Inr_iff)
  then show ?thesis
    using assms by (auto simp: install_waiter_def Let_def not_le elim!: check_cases split: if_splits option.splits)
qed

lemma table_wf_cancel [wf_intros]:
  assumes "table_wf t" and "cancel i op rf t = (r, t')"
  shows "table_wf t'"
  using assms
  by (auto simp: cancel_def Let_def split: option.splits if_splits) (erule (2) table_wf_clear_waiter)+

lemma table_wf_take_ready [wf_intros]:
  assumes "table_wf t" and "take_ready_waiter key t = (r, t')"
  shows "table_wf t'"
  using assms
  by (auto simp: take_ready_waiter_def Let_def update_entry_flags
      split: option.splits if_splits) (erule (2) table_wf_clear_waiter)

lemma table_wf_remember_sent [wf_intros]: "table_wf t \<Longrightarrow> table_wf (remember_sent i d w t)"
  by (auto simp: remember_sent_def table_wf_update_same split: option.splits)

lemma table_wf_close [wf_intros]:
  assumes "table_wf t" and "table_close i t = (r, t')"
  shows "table_wf t'"
proof (cases "bt_get (entries t) (si_id i)")
  case None
  then show ?thesis using assms by (simp add: table_close_def)
next
  case (Some ge)
  then show ?thesis
    using assms btm.count_remove [OF _ Some] table_wf_waiter_pos [of t "si_id i"]
      btm.sum_remove [OF _ Some, of "\<lambda>(_, _, e). entry_waiter_count e"]
    by (cases ge) (auto simp: table_close_def table_wf_def Let_def split: if_splits)
qed

lemma close_next_Nil: "entries t = [] \<Longrightarrow> close_next t = (Some None, t)"
  by (simp add: close_next_def)

lemma close_next_Cons:
  assumes "entries t = (sid, g, e) # rest"
  shows "close_next t = (Some (Some (SocketIdentity sid g, entry_waiters e)),
           snd (table_close (SocketIdentity sid g) t))"
    and "table_close (SocketIdentity sid g) t =
           (Inr (entry_waiters e), snd (table_close (SocketIdentity sid g) t))"
  using assms by (simp_all add: close_next_def table_close_def bt_get_Cons Let_def)

lemma close_next_as_close:
  "close_next t = (r, t') \<Longrightarrow> t' = t \<or> (\<exists>i ws. r = Some (Some (i, ws)) \<and> table_close i t = (Inr ws, t'))"
  using close_next_Nil [of t] close_next_Cons [of t]
  by (cases "entries t") auto

lemma table_wf_close_next [wf_intros]:
  assumes "table_wf t" and "close_next t = (r, t')"
  shows "table_wf t'"
  using close_next_as_close [OF assms(2)] assms(1) table_wf_close by auto

section \<open>Identities\<close>

text \<open>
  What the owner of socket identities relies on: an identity is issued before it is live, stays
  issued, and becomes live only in the step that issues it.
\<close>

locale identity_registry =
  fixes ok :: "'s \<Rightarrow> bool"
    and issued_in :: "'s \<Rightarrow> 'i \<Rightarrow> bool"
    and live_in :: "'s \<Rightarrow> 'i \<Rightarrow> bool"
    and step :: "'s \<Rightarrow> 's \<Rightarrow> bool"
  assumes step_keeps_ok: "ok s \<Longrightarrow> step s s' \<Longrightarrow> ok s'"
    and live_is_issued: "ok s \<Longrightarrow> live_in s i \<Longrightarrow> issued_in s i"
    and step_keeps_issued: "step s s' \<Longrightarrow> issued_in s i \<Longrightarrow> issued_in s' i"
    and step_live_fresh: "step s s' \<Longrightarrow> live_in s' i \<Longrightarrow> live_in s i \<or> \<not> issued_in s i"
begin

lemma steps_keep_ok: "step\<^sup>*\<^sup>* s s' \<Longrightarrow> ok s \<Longrightarrow> ok s'"
  by (induction rule: rtranclp_induct) (auto intro: step_keeps_ok)

lemma steps_keep_issued: "step\<^sup>*\<^sup>* s s' \<Longrightarrow> issued_in s i \<Longrightarrow> issued_in s' i"
  by (induction rule: rtranclp_induct) (auto intro: step_keeps_issued)

lemma retired_forever:
  assumes "step\<^sup>*\<^sup>* s s'" and "issued_in s i" and "\<not> live_in s i"
  shows "\<not> live_in s' i"
  using assms
proof (induction rule: rtranclp_induct)
  case (step y z)
  then show ?case
    using step_live_fresh steps_keep_issued by blast
qed

end

definition registry_ok :: "table_state \<Rightarrow> bool" where
  "registry_ok = (\<lambda>(t, c). table_wf t \<and> (\<forall>i. live t i \<longrightarrow> issued c i))"

lemma table_insert_cases:
  assumes "table_insert k h (t, c) = (r, t', c')"
  shows "(r = Inl SE_SystemLimit \<and> t' = t \<and> next_socket_id c \<le> next_socket_id c') \<or>
    (r = Inr (SocketIdentity (next_socket_id c) (next_generation c)) \<and>
     entries t' = bt_insert (next_socket_id c) (next_generation c, SocketEntry_new k h) (entries t) \<and>
     length (entries t) < max_entries t \<and>
     c' = \<lparr>next_socket_id = Suc (next_socket_id c), next_generation = Suc (next_generation c)\<rparr>)"
  using assms
  by (auto simp: table_insert_def next_identity_def Let_def split: if_splits)

lemma live_insert:
  assumes "table_insert k h (t, c) = (r, t', c')" and "live t' i"
  shows "live t i \<or> r = Inr i \<and> \<not> issued c i \<and> issued c' i"
  using table_insert_cases [OF assms(1)]
proof (elim disjE conjE)
  assume r: "r = Inr (SocketIdentity (next_socket_id c) (next_generation c))"
    and "entries t' = bt_insert (next_socket_id c) (next_generation c, SocketEntry_new k h) (entries t)"
    and "c' = \<lparr>next_socket_id = Suc (next_socket_id c), next_generation = Suc (next_generation c)\<rparr>"
  then show ?thesis
    using assms(2) by (cases i) (simp add: live_def issued_def split: if_splits)
qed (use assms(2) in simp)

lemma issued_insert:
  assumes "table_insert k h (t, c) = (r, t', c')" and "issued c i"
  shows "issued c' i"
  using table_insert_cases [OF assms(1)] assms(2) by (auto simp: issued_def)

lemma live_take_waiter: "take_waiter i k d t = (r, t') \<Longrightarrow> live t' j = live t j"
  by (auto simp: take_waiter_def elim!: check_cases split: option.splits)

lemma live_install: "install_waiter w t = (r, t') \<Longrightarrow> live t' j = live t j"
  by (auto simp: install_waiter_def Let_def elim!: check_cases split: option.splits if_splits)

lemma live_cancel: "cancel i op rf t = (r, t') \<Longrightarrow> live t' j = live t j"
  by (auto simp: cancel_def Let_def split: option.splits if_splits)

lemma live_take_ready: "take_ready_waiter key t = (r, t') \<Longrightarrow> live t' j = live t j"
  by (auto simp: take_ready_waiter_def Let_def update_entry_flags split: option.splits if_splits)

lemma live_remember: "live (remember_sent i d w t) j = live t j"
  by (auto simp: remember_sent_def split: option.splits)

lemma live_close: "table_close i t = (r, t') \<Longrightarrow> live t' j \<Longrightarrow> live t j"
  by (auto simp: table_close_def live_def Let_def split: option.splits if_splits)

lemma live_close_next: "close_next t = (r, t') \<Longrightarrow> live t' j \<Longrightarrow> live t j"
  by (auto dest!: close_next_as_close dest: live_close)

lemmas live_frames = live_take_waiter live_install live_cancel live_take_ready live_remember

lemma table_step_live:
  assumes "table_step (t, c) (t', c')" and "live t' i"
  shows "live t i \<or> \<not> issued c i \<and> issued c' i"
  using assms(1)
proof (cases rule: table_step.cases)
  case (step_insert k h r)
  then show ?thesis using live_insert assms(2) by blast
next
  case (step_close j r)
  then show ?thesis using live_close assms(2) by blast
next
  case (step_close_next r)
  then show ?thesis using live_close_next assms(2) by blast
qed (use assms(2) in \<open>auto simp: live_frames\<close>)

lemma table_step_issued: "table_step (t, c) (t', c') \<Longrightarrow> issued c i \<Longrightarrow> issued c' i"
  by (cases rule: table_step.cases) (auto dest: issued_insert)

lemma table_step_wf:
  assumes step: "table_step (t, c) (t', c')" and ok: "registry_ok (t, c)"
  shows "table_wf t'"
proof -
  have wf: "table_wf t" and iss: "\<forall>i. live t i \<longrightarrow> issued c i"
    using ok by (auto simp: registry_ok_def)
  from step show ?thesis
  proof (cases rule: table_step.cases)
    case (step_insert k h r)
    then show ?thesis using table_wf_insert wf iss by blast
  next
    case (step_take_waiter i k d r)
    then show ?thesis using table_wf_take_waiter wf by blast
  next
    case (step_install w r)
    then show ?thesis using table_wf_install wf by blast
  next
    case (step_cancel i op rf r)
    then show ?thesis using table_wf_cancel wf by blast
  next
    case (step_ready key r)
    then show ?thesis using table_wf_take_ready wf by blast
  next
    case (step_remember i d w)
    then show ?thesis using table_wf_remember_sent wf by blast
  next
    case (step_close i r)
    then show ?thesis using table_wf_close wf by blast
  next
    case (step_close_next r)
    then show ?thesis using table_wf_close_next wf by blast
  next
    case (step_wake key q q' f)
    then show ?thesis using wf by simp
  qed
qed

interpretation registry: identity_registry registry_ok "\<lambda>s. issued (snd s)" "\<lambda>s. live (fst s)" table_step
proof
  fix s s' :: table_state
  assume "registry_ok s" and "table_step s s'"
  then show "registry_ok s'"
    using table_step_wf [of "fst s" "snd s" "fst s'" "snd s'"] table_step_live [of "fst s" "snd s" "fst s'" "snd s'"]
      table_step_issued [of "fst s" "snd s" "fst s'" "snd s'"]
    by (auto simp: registry_ok_def split: prod.splits) blast
next
  fix s s' :: table_state and i
  show "issued (snd s') i" if "table_step s s'" and "issued (snd s) i"
    using that table_step_issued by (cases s; cases s') auto
  show "live (fst s) i \<or> \<not> issued (snd s) i" if "table_step s s'" and "live (fst s') i"
    using that table_step_live [of "fst s" "snd s" "fst s'" "snd s'"] by auto
qed (auto simp: registry_ok_def)

lemma table_close_capacity:
  "table_close i t = (r, t') \<Longrightarrow> max_entries t' = max_entries t \<and> max_waiters t' = max_waiters t"
  by (auto simp: table_close_def Let_def split: option.splits if_splits)

lemma close_next_capacity:
  "close_next t = (r, t') \<Longrightarrow> max_entries t' = max_entries t \<and> max_waiters t' = max_waiters t"
  by (auto dest!: close_next_as_close dest: table_close_capacity)

lemma table_step_capacity:
  "table_step (t, c) (t', c') \<Longrightarrow> max_entries t' = max_entries t \<and> max_waiters t' = max_waiters t"
  by (cases "(t, c)" "(t', c')" rule: table_step.cases)
    (auto simp: table_insert_def next_identity_def take_waiter_def install_waiter_def cancel_def
      take_ready_waiter_def remember_sent_def Let_def
      elim!: check_cases split: option.splits if_splits
      dest: table_close_capacity close_next_capacity)

lemma table_steps_capacity:
  "table_steps s s' \<Longrightarrow> max_entries (fst s') = max_entries (fst s) \<and> max_waiters (fst s') = max_waiters (fst s)"
proof (induction rule: rtranclp_induct)
  case (step y z)
  then show ?case
    using table_step_capacity [of "fst y" "snd y" "fst z" "snd z"] by simp
qed simp

lemma waiter_counts_total:
  "fst (waiter_counts t) + snd (waiter_counts t) = (\<Sum>(_, _, e) \<leftarrow> entries t. entry_waiter_count e)"
proof -
  have "fst (fold (\<lambda>(_, _, e) (r, w). (r + of_bool (read_waiter e \<noteq> None), w + of_bool (write_waiter e \<noteq> None))) es (a, b))
      + snd (fold (\<lambda>(_, _, e) (r, w). (r + of_bool (read_waiter e \<noteq> None), w + of_bool (write_waiter e \<noteq> None))) es (a, b))
    = a + b + (\<Sum>(_, _, e) \<leftarrow> es. entry_waiter_count e)" for es :: "(nat \<times> nat \<times> SocketEntry) list" and a b :: nat
    by (induction es arbitrary: a b) (auto simp: entry_waiter_count_def split: prod.splits)
  from this [of "entries t" 0 0] show ?thesis
    by (simp add: waiter_counts_def)
qed

lemma not_live_rejected:
  assumes "\<not> live t i"
  shows "validate t i k = Inl SE_InvalidSocket" and "validate_any t i = Inl SE_InvalidSocket"
    and "cancel i op rf t = (Inl SE_InvalidSocket, t)"
    and "fst (table_close i t) = Inl SE_InvalidSocket"
    and "take_ready_waiter (ReadyKey i d) t = (Stale, t)"
  using assms
  by (auto simp: live_def validate_def validate_any_def cancel_def table_close_def
      take_ready_waiter_def Let_def split: option.splits)

lemma table_close_retires:
  assumes "table_close i t = (Inr ws, t')"
  shows "live t i" and "\<not> live t' i"
  using assms by (auto simp: table_close_def live_def Let_def split: option.splits if_splits)

lemma registry_ok_new: "registry_ok (SocketTable_new me mw, c)"
  by (simp add: registry_ok_def live_def table_wf_new, simp add: SocketTable_new_def)

section \<open>Properties of the table\<close>

definition sample_table :: table_state where
  "sample_table = (let (_, t, c) = table_insert Tcp 7 (SocketTable_new 2 1, \<lparr>next_socket_id = 5, next_generation = 9\<rparr>)
                   in (t, c))"

definition sample_registration :: WaiterRegistration where
  "sample_registration = \<lparr>r_identity = SocketIdentity 5 9, r_kind = Tcp, r_direction = Read, r_pid = 1,
     r_operation = Recv, r_reference = 3\<rparr>"

text \<open>
  C21. Whatever sequence of operations and wakes a table goes through, it holds at most
  \<open>max_entries\<close> sockets in strictly ascending identifier order, its cached waiter count is the
  number of waiters its entries really hold, and that number is at most \<open>max_waiters\<close>.
\<close>

theorem table_invariant:
  assumes "table_steps (SocketTable_new me mw, c) (t, c')"
  shows "length (entries t) \<le> me \<and> sorted_wrt (<) (map fst (entries t)) \<and>
    waiter_count t = fst (waiter_counts t) + snd (waiter_counts t) \<and> waiter_count t \<le> mw"
proof -
  have wf: "table_wf t"
    using registry.steps_keep_ok [OF assms registry_ok_new] by (simp add: registry_ok_def)
  have cap: "max_entries t = me" "max_waiters t = mw"
    using table_steps_capacity [OF assms] by (simp_all add: SocketTable_new_def)
  show ?thesis
    using wf cap waiter_counts_total [of t] by (auto simp: table_wf_def bt_ok_def)
qed

theorem table_invariant_witness:
  "table_steps (SocketTable_new 2 1, \<lparr>next_socket_id = 5, next_generation = 9\<rparr>) sample_table \<and>
   waiter_count (fst sample_table) \<le> 1"
proof -
  have step: "table_steps (SocketTable_new 2 1, \<lparr>next_socket_id = 5, next_generation = 9\<rparr>)
                (fst sample_table, snd sample_table)"
    by (rule r_into_rtranclp, rule step_insert [of Tcp 7 _ _ "Inr (SocketIdentity 5 9)"])
      (simp add: sample_table_def table_insert_def next_identity_def SocketTable_new_def
        MAX_SOCKET_ID_def Let_def)
  from table_invariant [OF step] show ?thesis
    using step by simp
qed

text \<open>
  C4. Once an identity has been closed it is never accepted again: after any further operations,
  insertions of new sockets included, every validation, cancellation and close of it fails with
  \<open>InvalidSocket\<close>, and a late wake for it is reported stale.
\<close>

theorem closed_identity_is_never_reused:
  assumes "registry_ok (t, c)" and "table_close i t = (Inr ws, t1)" and "table_steps (t1, c) (t2, c2)"
  shows "validate t2 i k = Inl SE_InvalidSocket \<and> validate_any t2 i = Inl SE_InvalidSocket \<and>
    fst (cancel i op rf t2) = Inl SE_InvalidSocket \<and> fst (table_close i t2) = Inl SE_InvalidSocket \<and>
    take_ready_waiter (ReadyKey i d) t2 = (Stale, t2)"
proof -
  have "issued c i"
    using assms(1) table_close_retires [OF assms(2)] by (simp add: registry_ok_def)
  then have "\<not> live t2 i"
    using registry.retired_forever [OF assms(3), of i] table_close_retires [OF assms(2)] by simp
  then show ?thesis
    by (simp add: not_live_rejected)
qed

theorem closed_identity_is_never_reused_witness:
  "(let t = fst sample_table; c = snd sample_table; t1 = snd (table_close (SocketIdentity 5 9) t) in
    is_ok (fst (table_close (SocketIdentity 5 9) t)) \<and>
    (let t2 = fst (snd (table_insert Tcp 8 (t1, c))) in
     length (entries t2) = 1 \<and> validate t2 (SocketIdentity 5 9) Tcp = Inl SE_InvalidSocket))"
proof -
  define t where "t = fst sample_table"
  define c where "c = snd sample_table"
  define t1 where "t1 = snd (table_close (SocketIdentity 5 9) t)"
  define t2 where "t2 = fst (snd (table_insert Tcp 8 (t1, c)))"
  note eval = sample_table_def table_insert_def next_identity_def SocketTable_new_def
    MAX_SOCKET_ID_def Let_def table_close_def bt_get_def bt_remove_def
  have close: "table_close (SocketIdentity 5 9) t = (Inr [], t1)"
    by (simp add: t1_def t_def eval SocketEntry_new_def entry_waiters_def)
  have "registry_ok (t, c)"
    by (auto simp: t_def c_def eval SocketEntry_new_def registry_ok_def table_wf_def bt_ok_def live_def
        issued_def entry_waiter_count_def split: if_splits)
  moreover have "table_steps (t1, c) (t2, snd (snd (table_insert Tcp 8 (t1, c))))"
    unfolding t2_def by (rule r_into_rtranclp, rule step_insert [of Tcp 8 _ _ "fst (table_insert Tcp 8 (t1, c))"]) simp
  ultimately have "validate t2 (SocketIdentity 5 9) Tcp = Inl SE_InvalidSocket"
    using closed_identity_is_never_reused [OF _ close] by blast
  moreover have "length (entries t2) = 1"
    by (simp add: t2_def t1_def t_def c_def eval)
  moreover have "is_ok (fst (table_close (SocketIdentity 5 9) t))"
    by (simp add: close)
  ultimately show ?thesis
    by (simp add: t2_def t1_def t_def c_def Let_def)
qed

lemma take_ready_Notify_iff:
  "take_ready_waiter key t = (Notify w, t') \<longleftrightarrow>
     (\<exists>e. bt_get (entries t) (si_id (identity key)) = Some (generation (identity key), e) \<and>
        lifecycle e = Open \<and> flags t key \<and> waiter (direction key) e = Some w) \<and>
     t' = (update_entry (si_id (identity key))
             (\<lambda>e. set_sent (direction key) None (set_waiter (direction key) None e)) t)
            \<lparr>flags := (flags t)(key := False), waiter_count := waiter_count t - 1\<rparr>"
  by (auto simp: take_ready_waiter_def Let_def update_entry_flags split: option.splits if_splits)

text \<open>
  C23. A notification consumes its waiter: it happens only for a flagged, open socket, it names the
  waiter registered there, it releases one unit of waiter capacity, and no later wake of the same
  key can notify again until another waiter is installed.
\<close>

theorem notification_consumes_its_waiter:
  assumes "table_wf t" and "take_ready_waiter key t = (Notify w, t')"
  shows "flags t key \<and> (\<exists>e. validate_any t (identity key) = Inr e \<and> waiter (direction key) e = Some w) \<and>
    waiter_count t = Suc (waiter_count t') \<and> fst (take_ready_waiter key t') = Coalesced \<and>
    (\<forall>f. fst (take_ready_waiter key (t'\<lparr>flags := f\<rparr>)) \<in> {NoWaiter, Coalesced})"
proof -
  obtain e where e: "bt_get (entries t) (si_id (identity key)) = Some (generation (identity key), e)"
      "lifecycle e = Open" "flags t key" "waiter (direction key) e = Some w"
    and t': "t' = (update_entry (si_id (identity key))
             (\<lambda>e. set_sent (direction key) None (set_waiter (direction key) None e)) t)
            \<lparr>flags := (flags t)(key := False), waiter_count := waiter_count t - 1\<rparr>"
    using assms(2) unfolding take_ready_Notify_iff by blast
  have "0 < entry_waiter_count e"
    using e(4) by (cases "direction key") (auto simp: entry_waiter_count_def)
  then have "waiter_count t = Suc (waiter_count t')"
    using table_wf_waiter_pos [OF assms(1) e(1)] by (simp add: t')
  moreover have "validate_any t (identity key) = Inr e"
    using e by (simp add: validate_any_def)
  ultimately show ?thesis
    using e by (auto simp: t' take_ready_waiter_def Let_def)
qed

lemma install_Armed_iff:
  "install_waiter r t = (Inr Armed, t') \<longleftrightarrow>
     operation_direction (r_operation r) = r_direction r \<and>
     (\<exists>e. validate t (r_identity r) (r_kind r) = Inr e \<and> waiter (r_direction r) e = None) \<and>
     waiter_count t < max_waiters t \<and>
     t' = (update_entry (si_id (r_identity r))
             (\<lambda>e. set_waiter (r_direction r)
                (Some \<lparr>w_pid = r_pid r, w_operation = r_operation r, w_reference = r_reference r\<rparr>)
                (set_sent (r_direction r) None e)) t)\<lparr>waiter_count := waiter_count t + 1\<rparr>"
  by (auto simp: install_waiter_def Let_def not_le elim!: check_cases split: option.splits if_splits)

text \<open>
  C22. The cancellation protocol of an armed waiter. Straight after it is armed, a wake notifies
  exactly that waiter and a cancellation of the same operation and reference succeeds; after the
  cancellation no wake notifies; after the notification, once the delivery is remembered, the
  cancellation answers \<open>AlreadySent\<close>. So a caller learns of every armed operation in one way only.
\<close>

theorem armed_waiter_is_notified_or_cancelled:
  fixes r :: WaiterRegistration and t t1 t2 t3 :: SocketTable
  defines "key \<equiv> ReadyKey (r_identity r) (r_direction r)"
    and "w \<equiv> \<lparr>w_pid = r_pid r, w_operation = r_operation r, w_reference = r_reference r\<rparr>"
  assumes "install_waiter r t = (Inr Armed, t1)" and "f key"
  shows "fst (take_ready_waiter key (t1\<lparr>flags := f\<rparr>)) = Notify w \<and>
    fst (cancel (r_identity r) (r_operation r) (r_reference r) t1) = Inr Cancelled \<and>
    (let t2 = snd (cancel (r_identity r) (r_operation r) (r_reference r) t1)
     in fst (take_ready_waiter key (t2\<lparr>flags := f\<rparr>)) = NoWaiter \<and> waiter_count t2 = waiter_count t) \<and>
    (let t3 = remember_sent (r_identity r) (r_direction r) w (snd (take_ready_waiter key (t1\<lparr>flags := f\<rparr>)))
     in fst (cancel (r_identity r) (r_operation r) (r_reference r) t3) = Inr AlreadySent \<and>
        waiter_count t3 = waiter_count t)"
proof -
  obtain e where dir: "operation_direction (r_operation r) = r_direction r"
    and get: "bt_get (entries t) (si_id (r_identity r)) = Some (generation (r_identity r), e)"
    and e: "lifecycle e = Open"
    and t1: "t1 = (update_entry (si_id (r_identity r))
             (\<lambda>e. set_waiter (r_direction r) (Some w) (set_sent (r_direction r) None e)) t)
             \<lparr>waiter_count := waiter_count t + 1\<rparr>"
    using assms(3) unfolding install_Armed_iff validate_Inr_iff w_def by blast
  have m: "waiter_matches w (r_operation r) (r_reference r)"
    by (simp add: w_def waiter_matches_def)
  have get1: "bt_get (entries t1) (si_id (r_identity r)) = Some (generation (r_identity r),
      set_waiter (r_direction r) (Some w) (set_sent (r_direction r) None e))"
    by (simp add: t1 get)
  have c: "cancel (r_identity r) (r_operation r) (r_reference r) t1 =
      (Inr Cancelled, (update_entry (si_id (r_identity r)) (set_waiter (r_direction r) None) t1)
         \<lparr>flags := (flags t1)(key := False), waiter_count := waiter_count t1 - 1\<rparr>)"
    by (simp add: cancel_def get1 e dir m key_def Let_def)
  have n: "take_ready_waiter key (t1\<lparr>flags := f\<rparr>) = (Notify w,
      (update_entry (si_id (r_identity r))
         (\<lambda>e. set_sent (r_direction r) None (set_waiter (r_direction r) None e)) (t1\<lparr>flags := f\<rparr>))
        \<lparr>flags := f(key := False), waiter_count := waiter_count t1 - 1\<rparr>)"
    using assms(4) unfolding take_ready_Notify_iff by (simp add: key_def get1 e)
  have "waiter_count t1 - 1 = waiter_count t"
    by (simp add: t1)
  then show ?thesis
    using assms(4) unfolding c n
    by (simp add: take_ready_waiter_def remember_sent_def key_def get1 e Let_def)
      (simp add: cancel_def get1 e dir m Let_def)
qed

theorem armed_waiter_is_notified_or_cancelled_witness:
  "(let t1 = snd (install_waiter sample_registration (fst sample_table));
        key = ReadyKey (SocketIdentity 5 9) Read
    in fst (install_waiter sample_registration (fst sample_table)) = Inr Armed \<and>
       fst (take_ready_waiter key (t1\<lparr>flags := (\<lambda>_. True)\<rparr>)) =
         Notify \<lparr>w_pid = 1, w_operation = Recv, w_reference = 3\<rparr>)"
proof -
  have armed: "fst (install_waiter sample_registration (fst sample_table)) = Inr Armed"
    by (simp add: sample_registration_def sample_table_def table_insert_def next_identity_def
        SocketTable_new_def MAX_SOCKET_ID_def Let_def install_waiter_def validate_def bt_get_def
        SocketEntry_new_def)
  obtain t1 where t1: "install_waiter sample_registration (fst sample_table) = (Inr Armed, t1)"
    using armed by (cases "install_waiter sample_registration (fst sample_table)") auto
  show ?thesis
    using armed_waiter_is_notified_or_cancelled [OF t1, of "\<lambda>_. True"]
    by (simp add: t1 Let_def) (simp add: sample_registration_def)
qed

theorem notification_consumes_its_waiter_witness:
  "(let t = (snd (install_waiter sample_registration (fst sample_table)))\<lparr>flags := (\<lambda>_. True)\<rparr>;
        key = ReadyKey (SocketIdentity 5 9) Read
    in fst (take_ready_waiter key (snd (take_ready_waiter key t))) = Coalesced)"
proof -
  define t where "t = (snd (install_waiter sample_registration (fst sample_table)))\<lparr>flags := (\<lambda>_. True)\<rparr>"
  note eval = sample_registration_def sample_table_def table_insert_def next_identity_def
    SocketTable_new_def MAX_SOCKET_ID_def Let_def install_waiter_def validate_def bt_get_def
    SocketEntry_new_def update_entry_def
  have "table_wf t"
    by (simp add: t_def eval table_wf_def bt_ok_def entry_waiter_count_def)
  moreover have "take_ready_waiter (ReadyKey (SocketIdentity 5 9) Read) t =
     (Notify \<lparr>w_pid = 1, w_operation = Recv, w_reference = 3\<rparr>,
      snd (take_ready_waiter (ReadyKey (SocketIdentity 5 9) Read) t))"
    by (simp add: t_def eval take_ready_waiter_def)
  ultimately show ?thesis
    using notification_consumes_its_waiter [of t] by (simp add: Let_def flip: t_def)
qed

end
