(* ===== verification/Wire.thy ===== *)
theory Wire
  imports Prelude
begin

text \<open>
  Addresses and packets as the core reads them: the address classes of
  \<open>native/vendor/smoltcp/src/wire/ip.rs\<close> and its two families, the checked header views of
  \<open>wire/ipv4.rs\<close>, \<open>wire/ipv6.rs\<close>, \<open>wire/ipv6ext_header.rs\<close> and \<open>wire/tcp.rs\<close>, the checksum of
  \<open>wire/ip.rs\<close>, and on top of them the packet checks of \<open>smolnet_core/src/stack.rs\<close>
  (\<open>validate_raw_packet\<close>, \<open>tcp_listener_target\<close> and the header part of \<open>inbound_reset\<close>).

  Header fields keep their width as words. The checksum adds native-endian words and swaps the
  result; the target is little-endian. It is shown to be the big-endian sum of RFC 1071.
\<close>

unbundle bit_operations_syntax

section \<open>Addresses\<close>

datatype IpAddress = Ipv4 bytes | Ipv6 bytes

fun octets :: "IpAddress \<Rightarrow> bytes" where
  "octets (Ipv4 os) = os"
| "octets (Ipv6 os) = os"

definition UNSPECIFIED4 :: IpAddress where "UNSPECIFIED4 = Ipv4 (replicate 4 0)"
definition UNSPECIFIED6 :: IpAddress where "UNSPECIFIED6 = Ipv6 (replicate 16 0)"

fun is_multicast :: "IpAddress \<Rightarrow> bool" where
  "is_multicast (Ipv4 os) \<longleftrightarrow> 224 \<le> os ! 0 \<and> os ! 0 \<le> 239"
| "is_multicast (Ipv6 os) \<longleftrightarrow> os ! 0 = 0xff"

fun is_broadcast :: "IpAddress \<Rightarrow> bool" where
  "is_broadcast (Ipv4 os) \<longleftrightarrow> os = replicate 4 0xff"
| "is_broadcast (Ipv6 os) \<longleftrightarrow> False"

fun is_unspecified :: "IpAddress \<Rightarrow> bool" where
  "is_unspecified (Ipv4 os) \<longleftrightarrow> os = replicate 4 0"
| "is_unspecified (Ipv6 os) \<longleftrightarrow> os = replicate 16 0"

fun is_unicast :: "IpAddress \<Rightarrow> bool" where
  "is_unicast (Ipv4 os) \<longleftrightarrow> \<not> (is_broadcast (Ipv4 os) \<or> is_multicast (Ipv4 os) \<or> is_unspecified (Ipv4 os))"
| "is_unicast (Ipv6 os) \<longleftrightarrow> \<not> (is_multicast (Ipv6 os) \<or> is_unspecified (Ipv6 os))"

definition ipv4_mapped :: "bytes \<Rightarrow> bool" where
  "ipv4_mapped os \<longleftrightarrow> (\<forall>b \<in> set (take 10 os). b = 0) \<and> take 2 (drop 10 os) = [0xff, 0xff]"

definition link_local :: "bytes \<Rightarrow> bool" where
  "link_local os \<longleftrightarrow> os ! 0 = 0xfe \<and> os ! 1 AND 0xc0 = 0x80"

definition ip_address :: "bytes \<Rightarrow> IpAddress option" where
  "ip_address bs =
     (if length bs = 4 then Some (Ipv4 bs)
      else if length bs = 16 then (if ipv4_mapped bs then None else Some (Ipv6 bs))
      else None)"

fun same_family :: "IpAddress \<Rightarrow> IpAddress \<Rightarrow> bool" where
  "same_family (Ipv4 _) (Ipv4 _) = True"
| "same_family (Ipv6 _) (Ipv6 _) = True"
| "same_family _ _ = False"

fun prefix_limit :: "IpAddress \<Rightarrow> nat" where
  "prefix_limit (Ipv4 _) = 32"
| "prefix_limit (Ipv6 _) = 128"

text \<open>An address value holds as many octets as its family has.\<close>

fun address_wf :: "IpAddress \<Rightarrow> bool" where
  "address_wf (Ipv4 os) \<longleftrightarrow> length os = 4"
| "address_wf (Ipv6 os) \<longleftrightarrow> length os = 16"

section \<open>Header views\<close>

definition read_u16 :: "bytes \<Rightarrow> nat \<Rightarrow> 16 word" where
  "read_u16 bs i = push_bit 8 (ucast (bs ! i)) OR ucast (bs ! Suc i)"

definition ipv4_header_len :: "bytes \<Rightarrow> 8 word" where
  "ipv4_header_len bs = (bs ! 0 AND 0x0f) * 4"

definition ipv4_total_len :: "bytes \<Rightarrow> 16 word" where
  "ipv4_total_len bs = read_u16 bs 2"

definition ipv4_check_len :: "bytes \<Rightarrow> bool" where
  "ipv4_check_len bs =
     (if length bs < 20 then False
      else if length bs < unat (ipv4_header_len bs) then False
      else if ipv4_total_len bs < ucast (ipv4_header_len bs) then False
      else if length bs < unat (ipv4_total_len bs) then False
      else if ipv4_header_len bs < 20 then False
      else True)"

definition ipv4_more_frags :: "bytes \<Rightarrow> bool" where
  "ipv4_more_frags bs \<longleftrightarrow> read_u16 bs 6 AND 0x2000 \<noteq> 0"

definition ipv4_frag_offset :: "bytes \<Rightarrow> 16 word" where
  "ipv4_frag_offset bs = push_bit 3 (read_u16 bs 6)"

definition ipv4_next_header :: "bytes \<Rightarrow> byte" where
  "ipv4_next_header bs = bs ! 9"

definition ipv4_src_addr :: "bytes \<Rightarrow> IpAddress" where
  "ipv4_src_addr bs = Ipv4 (take 4 (drop 12 bs))"

definition ipv4_dst_addr :: "bytes \<Rightarrow> IpAddress" where
  "ipv4_dst_addr bs = Ipv4 (take 4 (drop 16 bs))"

definition ipv4_payload :: "bytes \<Rightarrow> bytes" where
  "ipv4_payload bs = drop (unat (ipv4_header_len bs)) (take (unat (ipv4_total_len bs)) bs)"

definition ipv6_payload_len :: "bytes \<Rightarrow> 16 word" where
  "ipv6_payload_len bs = read_u16 bs 4"

definition ipv6_total_len :: "bytes \<Rightarrow> nat" where
  "ipv6_total_len bs = 40 + unat (ipv6_payload_len bs)"

definition ipv6_check_len :: "bytes \<Rightarrow> bool" where
  "ipv6_check_len bs \<longleftrightarrow> \<not> (length bs < 40 \<or> length bs < ipv6_total_len bs)"

definition ipv6_next_header :: "bytes \<Rightarrow> byte" where
  "ipv6_next_header bs = bs ! 6"

definition ipv6_src_addr :: "bytes \<Rightarrow> IpAddress" where
  "ipv6_src_addr bs = Ipv6 (take 16 (drop 8 bs))"

definition ipv6_dst_addr :: "bytes \<Rightarrow> IpAddress" where
  "ipv6_dst_addr bs = Ipv6 (take 16 (drop 24 bs))"

definition ipv6_payload :: "bytes \<Rightarrow> bytes" where
  "ipv6_payload bs = drop 40 (take (ipv6_total_len bs) bs)"

definition ext_check_len :: "bytes \<Rightarrow> bool" where
  "ext_check_len bs =
     (if length bs < 8 then False
      else if length bs < unat (bs ! 1) * 8 + 8 then False
      else True)"

definition ext_next_header :: "bytes \<Rightarrow> byte" where
  "ext_next_header bs = bs ! 0"

definition ext_header_len :: "bytes \<Rightarrow> byte" where
  "ext_header_len bs = bs ! 1"

definition tcp_header_len :: "bytes \<Rightarrow> 8 word" where
  "tcp_header_len bs = ucast (drop_bit 12 (read_u16 bs 12) * 4)"

definition tcp_check_len :: "bytes \<Rightarrow> bool" where
  "tcp_check_len bs =
     (if length bs < 20 then False
      else let header_len = unat (tcp_header_len bs)
           in \<not> (length bs < header_len \<or> header_len < 20))"

definition tcp_src_port :: "bytes \<Rightarrow> nat" where
  "tcp_src_port bs = unat (read_u16 bs 0)"

definition tcp_dst_port :: "bytes \<Rightarrow> nat" where
  "tcp_dst_port bs = unat (read_u16 bs 2)"

definition tcp_syn :: "bytes \<Rightarrow> bool" where
  "tcp_syn bs \<longleftrightarrow> read_u16 bs 12 AND 0x002 \<noteq> 0"

definition tcp_rst :: "bytes \<Rightarrow> bool" where
  "tcp_rst bs \<longleftrightarrow> read_u16 bs 12 AND 0x004 \<noteq> 0"

definition tcp_ack :: "bytes \<Rightarrow> bool" where
  "tcp_ack bs \<longleftrightarrow> read_u16 bs 12 AND 0x010 \<noteq> 0"

section \<open>The checksum\<close>

definition propagate_carries :: "32 word \<Rightarrow> 16 word" where
  "propagate_carries word =
     (let sum = drop_bit 16 word + (word AND 0xffff)
      in ucast (drop_bit 16 sum) + ucast sum)"

definition from_ne_bytes :: "byte \<Rightarrow> byte \<Rightarrow> 16 word" where
  "from_ne_bytes a b = ucast a OR push_bit 8 (ucast b)"

definition to_be :: "16 word \<Rightarrow> 16 word" where
  "to_be w = push_bit 8 w OR drop_bit 8 w"

fun checksum_loop :: "32 word \<Rightarrow> bytes \<Rightarrow> 32 word" where
  "checksum_loop accum (a # b # c # d # rest) =
     checksum_loop (accum + ucast (from_ne_bytes a b) + ucast (from_ne_bytes c d)) rest"
| "checksum_loop accum (a # b # rest) =
     (let accum = accum + ucast (from_ne_bytes a b)
      in case rest of [] \<Rightarrow> accum | value # _ \<Rightarrow> accum + ucast (from_ne_bytes value 0))"
| "checksum_loop accum [value] = accum + ucast (from_ne_bytes value 0)"
| "checksum_loop accum [] = accum"

definition checksum_data :: "bytes \<Rightarrow> 16 word" where
  "checksum_data bs = to_be (propagate_carries (checksum_loop 0 bs))"

definition ipv4_verify_checksum :: "bytes \<Rightarrow> bool" where
  "ipv4_verify_checksum bs \<longleftrightarrow>
     checksum_data (take (unat (ipv4_header_len bs)) bs) = NOT 0"

section \<open>The packet checks of the stack\<close>

datatype StackError =
    Closed | InvalidLimits | InvalidStackConfig | InvalidPacket | PacketTooLarge | BatchTooLarge
  | OwnershipInvariantViolation | EgressCreditDisabled

definition validate_raw_packet :: "bytes \<Rightarrow> nat \<Rightarrow> nat \<Rightarrow> (StackError, unit) result" where
  "validate_raw_packet packet mtu bytes_copied =
     (if packet = [] then Inl InvalidPacket
      else
        let version = drop_bit 4 (packet ! 0);
            valid =
              (if version = 4 then
                 ipv4_check_len packet \<and> unat (ipv4_total_len packet) = length packet \<and>
                 ipv4_verify_checksum packet \<and> \<not> ipv4_more_frags packet \<and> ipv4_frag_offset packet = 0
               else if version = 6 then
                 ipv6_check_len packet \<and>
                 (case checked_add 40 (unat (ipv6_payload_len packet)) of
                    None \<Rightarrow> False | Some declared \<Rightarrow> declared = length packet)
               else False)
        in if \<not> valid then Inl InvalidPacket
           else if mtu < length packet \<or> bytes_copied < length packet then Inl PacketTooLarge
           else Inr ())"

text \<open>The header part that \<open>tcp_listener_target\<close> and \<open>inbound_reset\<close> share: source, destination and
  the TCP segment, past a hop-by-hop extension header if there is one.\<close>

definition tcp_segment :: "bytes \<Rightarrow> (IpAddress \<times> IpAddress \<times> bytes) option" where
  "tcp_segment packet =
     (if packet = [] then None
      else
        let version = drop_bit 4 (packet ! 0);
            headers =
              (if version = 4 then
                 (if ipv4_check_len packet
                  then Some (ipv4_src_addr packet, ipv4_dst_addr packet, ipv4_next_header packet, ipv4_payload packet)
                  else None)
               else if version = 6 then
                 (if \<not> ipv6_check_len packet then None
                  else
                    let next_header = ipv6_next_header packet; transport = ipv6_payload packet
                    in if next_header = 0 then
                         (if \<not> ext_check_len transport then None
                          else
                            let header_len = (unat (ext_header_len transport) + 1) * 8
                            in if header_len \<le> length transport
                               then Some (ipv6_src_addr packet, ipv6_dst_addr packet,
                                          ext_next_header transport, drop header_len transport)
                               else None)
                       else Some (ipv6_src_addr packet, ipv6_dst_addr packet, next_header, transport))
               else None)
        in case headers of
             None \<Rightarrow> None
           | Some (source, destination, next_header, transport) \<Rightarrow>
               if next_header \<noteq> 6 \<or> \<not> tcp_check_len transport then None
               else Some (source, destination, transport))"

definition tcp_listener_target :: "bytes \<Rightarrow> (IpAddress \<times> nat) option" where
  "tcp_listener_target packet =
     (case tcp_segment packet of
        None \<Rightarrow> None
      | Some (_, destination, tcp) \<Rightarrow>
          if tcp_syn tcp \<and> \<not> tcp_ack tcp then Some (destination, tcp_dst_port tcp) else None)"

section \<open>Reference definitions\<close>

text \<open>The 16-bit sum of RFC 1071 in network order, and in the order the code adds.\<close>

fun be_sum :: "bytes \<Rightarrow> nat" where
  "be_sum (a # b # rest) = 256 * unat a + unat b + be_sum rest"
| "be_sum [a] = 256 * unat a"
| "be_sum [] = 0"

fun le_sum :: "bytes \<Rightarrow> nat" where
  "le_sum (a # b # rest) = unat a + 256 * unat b + le_sum rest"
| "le_sum [a] = unat a"
| "le_sum [] = 0"

text \<open>What an acceptable packet is, by its octets.\<close>

definition ipv4_wellformed :: "bytes \<Rightarrow> bool" where
  "ipv4_wellformed p \<longleftrightarrow>
     (let header = 4 * (unat (p ! 0) mod 16) in
      unat (p ! 0) div 16 = 4 \<and> 20 \<le> header \<and> header \<le> length p \<and>
      256 * unat (p ! 2) + unat (p ! 3) = length p \<and>
      (256 * unat (p ! 6) + unat (p ! 7)) mod 16384 = 0 \<and>
      be_sum (take header p) mod 65535 = 0)"

definition ipv6_wellformed :: "bytes \<Rightarrow> bool" where
  "ipv6_wellformed p \<longleftrightarrow>
     40 \<le> length p \<and> unat (p ! 0) div 16 = 6 \<and> 40 + 256 * unat (p ! 4) + unat (p ! 5) = length p"

section \<open>Address lemmas\<close>

lemma ip_address_wf: "ip_address bs = Some a \<Longrightarrow> address_wf a \<and> octets a = bs"
  by (auto simp: ip_address_def split: if_splits)

lemma same_family_iff: "same_family a b \<longleftrightarrow> prefix_limit a = prefix_limit b"
  by (cases a; cases b) auto

lemma tcp_segment_wf:
  assumes "tcp_segment packet = Some (s, d, seg)"
  shows "address_wf s" and "address_wf d" and "same_family s d" and "20 \<le> length seg"
  using assms
  by (auto simp: tcp_segment_def Let_def ipv4_src_addr_def ipv4_dst_addr_def ipv6_src_addr_def
      ipv6_dst_addr_def ipv4_check_len_def ipv6_check_len_def tcp_check_len_def split: if_splits)

section \<open>The checksum is that of RFC 1071\<close>

lemma unat_bound: "unat (w :: 'a::len word) < 2 ^ LENGTH('a)"
  by (rule unsigned_less)

lemma byte_bound [simp]: "unat (a :: byte) < 256"
  using unat_bound [of a] by simp

lemma unat_ucast_up [simp]:
  "unat (ucast (a :: byte) :: 16 word) = unat a" "unat (ucast (w :: 16 word) :: 32 word) = unat w"
  by (simp_all add: unsigned_ucast_eq, rule take_bit_nat_eq_self, rule less_le_trans [OF unat_bound], simp)
    (rule take_bit_nat_eq_self, rule less_le_trans [OF unat_bound], simp)

lemma unat_concat:
  fixes a b :: byte
  shows "unat (ucast a OR push_bit 8 (ucast b) :: 16 word) = unat a + 256 * unat b"
proof -
  have "ucast a OR push_bit 8 (ucast b) = ucast a + push_bit 8 (ucast b :: 16 word)"
    by (rule disjunctive_add [symmetric]) (auto simp: bit_simps dest: bit_imp_le_length)
  moreover have "unat a + 256 * unat b < 65536"
    using byte_bound [of a] byte_bound [of b] by linarith
  ultimately show ?thesis
    by (simp add: push_bit_eq_mult unat_word_ariths) 
qed

lemma unat_from_ne [simp]: "unat (from_ne_bytes a b) = unat a + 256 * unat b"
  by (simp add: from_ne_bytes_def unat_concat)

lemma unat_read_u16: "unat (read_u16 bs i) = 256 * unat (bs ! i) + unat (bs ! Suc i)"
  by (simp add: read_u16_def unat_concat or.commute)

lemma le_sum_bound: "le_sum bs \<le> 65535 * ((length bs + 1) div 2)"
proof (induction bs rule: le_sum.induct)
  case (1 a b rest)
  have "unat a + 256 * unat b \<le> 65535"
    using byte_bound [of a] byte_bound [of b] by linarith
  with 1 show ?case by simp
next
  case (2 a)
  then show ?case using byte_bound [of a] by (simp, linarith)
qed simp

lemma unat_checksum_loop:
  "unat accum + le_sum bs < 2 ^ 32 \<Longrightarrow> unat (checksum_loop accum bs) = unat accum + le_sum bs"
proof (induction accum bs rule: checksum_loop.induct)
  case (1 accum a b c d rest)
  have "unat (accum + ucast (from_ne_bytes a b) + ucast (from_ne_bytes c d)) = unat accum + unat a + 256 * unat b + unat c + 256 * unat d"
    using 1(2) by (simp add: unat_word_ariths mod_less)
  then show ?case using 1 by simp
qed (auto simp: unat_word_ariths Let_def split: list.splits)

lemma sums_swap: "(256 * le_sum bs) mod 65535 = be_sum bs mod 65535"
proof -
  have "\<exists>k. 256 * le_sum bs = be_sum bs + 65535 * k"
  proof (induction bs rule: le_sum.induct)
    case (1 a b rest)
    then obtain k where "256 * le_sum rest = be_sum rest + 65535 * k" by blast
    then have "256 * le_sum (a # b # rest) = be_sum (a # b # rest) + 65535 * (k + unat b)"
      by (simp add: algebra_simps)
    then show ?case by blast
  qed (auto)
  then show ?thesis by auto
qed

lemma sum_zero_iff: "le_sum bs = 0 \<longleftrightarrow> be_sum bs = 0"
  by (induction bs rule: le_sum.induct) auto

lemma mod_65535_fold: "(n div 65536 + n mod 65536) mod 65535 = n mod (65535::nat)"
proof -
  have "n = 65536 * (n div 65536) + n mod 65536" by simp
  then have "n = (n div 65536 + n mod 65536) + 65535 * (n div 65536)" by linarith
  then show ?thesis by (metis mod_mult_self2)
qed

lemma unat_propagate_carries:
  fixes w :: "32 word"
  defines "s \<equiv> unat w div 65536 + unat w mod 65536"
  shows "unat (propagate_carries w) = s div 65536 + s mod 65536"
proof -
  have n: "unat w < 4294967296"
    using unat_bound [of w] by simp
  then have s: "s < 131071"
    unfolding s_def using mod_less_divisor [of 65536 "unat w"] by (auto simp: less_mult_imp_div_less)
  define sum where "sum = drop_bit 16 w + (w AND 0xffff)"
  have "w AND 0xffff = take_bit 16 w"
    by (simp add: take_bit_eq_mask mask_eq_exp_minus_1)
  then have sum: "unat sum = s"
    using s by (simp add: unat_word_ariths unat_drop_bit_eq unsigned_take_bit_eq drop_bit_eq_div
        take_bit_eq_mod s_def sum_def)
  have "unat (ucast (drop_bit 16 sum) :: 16 word) = take_bit 16 (drop_bit 16 s)"
    by (simp only: unsigned_ucast_eq unat_drop_bit_eq sum) simp
  then have "unat (ucast (drop_bit 16 sum) :: 16 word) = s div 65536"
    using s by (simp add: drop_bit_eq_div take_bit_eq_mod)
  moreover have "unat (ucast sum :: 16 word) = s mod 65536"
    by (simp add: unsigned_ucast_eq sum take_bit_eq_mod)
  moreover have "s div 65536 + s mod 65536 < 65536"
    using s by (cases "s < 65536") (auto simp: le_mod_geq le_div_geq)
  ultimately show ?thesis
    by (simp add: propagate_carries_def Let_def unat_word_ariths flip: sum_def)
qed

lemma propagate_carries_mod: "unat (propagate_carries w) mod 65535 = unat w mod 65535"
  by (simp only: unat_propagate_carries mod_65535_fold)

lemma propagate_carries_zero: "propagate_carries w = 0 \<longleftrightarrow> w = 0"
proof -
  have "unat (propagate_carries w) = 0 \<longleftrightarrow> unat w = 0"
    unfolding unat_propagate_carries
    by (metis add_is_0 div_mult_mod_eq mult_0 div_0 mod_0)
  then show ?thesis by (simp add: unat_eq_0)
qed

lemma unat_to_be: "unat (to_be w) = 256 * (unat w mod 256) + unat w div 256"
proof -
  have "to_be w = push_bit 8 w + drop_bit 8 w"
    unfolding to_be_def
    by (rule disjunctive_add [symmetric]) (auto simp: bit_simps dest: bit_imp_le_length)
  moreover have "unat w < 65536"
    using unat_bound [of w] by simp
  then have "unat w div 256 < 256" by auto
  moreover have "unat (push_bit 8 w) = 256 * (unat w mod 256)"
    using mod_mult_mult1 [of 256 "unat w" 256] by (simp add: push_bit_eq_mult unat_word_ariths mult.commute)
  ultimately show ?thesis
    by (simp add: unat_word_ariths unat_drop_bit_eq drop_bit_eq_div)
qed

lemma to_be_mod: "unat (to_be w) mod 65535 = (256 * unat w) mod 65535"
proof -
  define q r where "q = unat w div 256" and "r = unat w mod 256"
  have "256 * unat w = (256 * r + q) + 65535 * q"
    using div_mult_mod_eq [of "unat w" 256] unfolding q_def r_def by linarith
  then show ?thesis
    unfolding unat_to_be q_def [symmetric] r_def [symmetric] by (simp only: mod_mult_self2)
qed

lemma to_be_zero: "to_be w = 0 \<longleftrightarrow> w = 0"
proof -
  have "unat (to_be w) = 0 \<longleftrightarrow> unat w = 0"
    unfolding unat_to_be using div_mult_mod_eq [of "unat w" 256] by linarith
  then show ?thesis by (simp add: unat_eq_0)
qed

lemma checksum_rfc1071:
  assumes "length bs \<le> 65535"
  shows "unat (checksum_data bs) mod 65535 = be_sum bs mod 65535" and "checksum_data bs = 0 \<longleftrightarrow> be_sum bs = 0"
proof -
  have "le_sum bs < 2 ^ 32"
    using le_sum_bound [of bs] assms by (simp)
  then have loop: "unat (checksum_loop 0 bs) = le_sum bs"
    using unat_checksum_loop [of 0 bs] by simp
  show "unat (checksum_data bs) mod 65535 = be_sum bs mod 65535"
    unfolding checksum_data_def to_be_mod
    by (metis loop mod_mult_right_eq propagate_carries_mod sums_swap)
  have "checksum_loop 0 bs = 0 \<longleftrightarrow> be_sum bs = 0"
    using loop sum_zero_iff by (metis unat_eq_0)
  then show "checksum_data bs = 0 \<longleftrightarrow> be_sum bs = 0"
    by (simp add: checksum_data_def to_be_zero propagate_carries_zero)
qed

lemma checksum_all_ones:
  assumes "length bs \<le> 65535"
  shows "checksum_data bs = NOT 0 \<longleftrightarrow> be_sum bs \<noteq> 0 \<and> be_sum bs mod 65535 = 0"
proof -
  have "unat (checksum_data bs) < 65536"
    using unat_bound [of "checksum_data bs"] by simp
  then have "unat (checksum_data bs) mod 65535 = 0 \<longleftrightarrow> unat (checksum_data bs) = 0 \<or> unat (checksum_data bs) = 65535"
    by (cases "unat (checksum_data bs) = 65535") (simp_all add: mod_eq_self_iff_div_eq_0)
  moreover have "checksum_data bs = NOT 0 \<longleftrightarrow> unat (checksum_data bs) = 65535"
    by (simp add: word_unat_eq_iff unsigned_minus_1_eq_mask mask_eq_exp_minus_1)
  ultimately show ?thesis
    using checksum_rfc1071 [OF assms] by (auto simp: unat_eq_0)
qed

text \<open>
  C36. The checksum routine, which adds native-endian words four octets at a time and swaps the
  result, agrees with the network-order sum of RFC 1071 modulo 65535, is zero only for all-zero
  data, and is all ones, the value of a correct header, exactly when that sum is a non-zero
  multiple of 65535.
\<close>

theorem checksum_matches_rfc1071:
  assumes "length bs \<le> 65535"
  shows "unat (checksum_data bs) mod 65535 = be_sum bs mod 65535 \<and>
    (checksum_data bs = 0 \<longleftrightarrow> be_sum bs = 0) \<and>
    (checksum_data bs = NOT 0 \<longleftrightarrow> be_sum bs \<noteq> 0 \<and> be_sum bs mod 65535 = 0)"
  using checksum_rfc1071 [OF assms] checksum_all_ones [OF assms] by blast

theorem checksum_matches_rfc1071_witness:
  "checksum_data [0x45, 0x00, 0xba, 0xff] = NOT 0"
  using checksum_matches_rfc1071 [of "[0x45, 0x00, 0xba, 0xff]"] by simp

section \<open>Header arithmetic\<close>

lemma unat_ipv4_header_len: "unat (ipv4_header_len bs) = 4 * (unat (bs ! 0) mod 16)"
proof -
  have "bs ! 0 AND 0x0f = take_bit 4 (bs ! 0)"
    by (simp add: take_bit_eq_mask mask_eq_exp_minus_1)
  then have "unat (bs ! 0 AND 0x0f) = take_bit 4 (unat (bs ! 0))"
    by (simp only: unsigned_take_bit_eq)
  then have "unat (bs ! 0 AND 0x0f) = unat (bs ! 0) mod 16"
    by (simp only: take_bit_eq_mod) simp
  moreover have "unat (bs ! 0) mod 16 < 16" by simp
  ultimately show ?thesis
    by (simp add: ipv4_header_len_def unat_word_ariths mult.commute)
qed

lemma fragment_field_zero:
  fixes w :: "16 word"
  shows "push_bit 3 w = 0 \<and> w AND 0x2000 = 0 \<longleftrightarrow> unat w mod 16384 = 0"
proof -
  have "push_bit 3 w = 0 \<longleftrightarrow> (\<forall>n < 13. \<not> bit w n)"
  proof
    assume z: "push_bit 3 w = 0"
    show "\<forall>n < 13. \<not> bit w n"
    proof (intro allI impI)
      fix n :: nat assume "n < 13"
      then show "\<not> bit w n"
        using arg_cong [OF z, of "\<lambda>x. bit x (n + 3)"] by (simp add: bit_simps)
    qed
  qed (auto simp: bit_eq_iff bit_simps)
  moreover have "w AND 0x2000 = 0 \<longleftrightarrow> \<not> bit w 13"
    using and_exp_eq_0_iff_not_bit [of w 13] by simp
  moreover have "n < 14 \<longleftrightarrow> n < 13 \<or> n = 13" for n :: nat
    by linarith
  then have "(\<forall>n < 14. \<not> bit w n) \<longleftrightarrow> (\<forall>n < 13. \<not> bit w n) \<and> \<not> bit w 13"
    by blast
  moreover have "take_bit 14 w = 0 \<longleftrightarrow> (\<forall>n < 14. \<not> bit w n)"
    by (auto simp: bit_eq_iff bit_simps)
  moreover have "unat w mod 16384 = unat (take_bit 14 w)"
    by (simp only: unsigned_take_bit_eq) (simp add: take_bit_eq_mod)
  ultimately show ?thesis by (simp add: unat_eq_0)
qed

lemma version_iff:
  "drop_bit 4 (b :: byte) = 4 \<longleftrightarrow> unat b div 16 = 4" "drop_bit 4 (b :: byte) = 6 \<longleftrightarrow> unat b div 16 = 6"
  by (simp_all only: word_unat_eq_iff unat_drop_bit_eq) (simp_all add: drop_bit_eq_div)

lemma be_sum_pos: "xs \<noteq> [] \<Longrightarrow> xs ! 0 \<noteq> 0 \<Longrightarrow> be_sum xs \<noteq> 0"
  by (cases xs rule: be_sum.cases) (auto simp: unat_eq_0)

lemma ipv4_valid_iff:
  assumes "p \<noteq> []"
  shows "(drop_bit 4 (p ! 0) = 4 \<and> ipv4_check_len p \<and> unat (ipv4_total_len p) = length p \<and>
      ipv4_verify_checksum p \<and> \<not> ipv4_more_frags p \<and> ipv4_frag_offset p = 0) \<longleftrightarrow> ipv4_wellformed p"
proof -
  define h where "h = 4 * (unat (p ! 0) mod 16)"
  have h: "unat (ipv4_header_len p) = h" "h \<le> 60"
    using mod_less_divisor [of 16 "unat (p ! 0)"] by (simp_all add: unat_ipv4_header_len h_def)
  have tl: "unat (ipv4_total_len p) = 256 * unat (p ! 2) + unat (p ! 3)"
    by (simp add: ipv4_total_len_def unat_read_u16 numeral_3_eq_3 numeral_2_eq_2)
  have hl: "ipv4_total_len p < ucast (ipv4_header_len p) \<longleftrightarrow> unat (ipv4_total_len p) < h"
    "ipv4_header_len p < 20 \<longleftrightarrow> h < 20"
    using h by (simp_all add: word_less_nat_alt)
  have fr: "\<not> ipv4_more_frags p \<and> ipv4_frag_offset p = 0 \<longleftrightarrow> (256 * unat (p ! 6) + unat (p ! 7)) mod 16384 = 0"
    using fragment_field_zero [of "read_u16 p 6"] unat_read_u16 [of p 6]
    by (auto simp: ipv4_more_frags_def ipv4_frag_offset_def)
  have cs: "ipv4_verify_checksum p \<longleftrightarrow> be_sum (take h p) mod 65535 = 0"
    if "drop_bit 4 (p ! 0) = 4" and "20 \<le> h"
  proof -
    have "p ! 0 \<noteq> 0" using that(1) by auto
    then have "be_sum (take h p) \<noteq> 0"
      using assms that(2) by (intro be_sum_pos) auto
    then show ?thesis
      using checksum_all_ones [of "take h p"] h by (simp add: ipv4_verify_checksum_def)
  qed
  show ?thesis
    unfolding ipv4_wellformed_def ipv4_check_len_def Let_def h_def [symmetric] version_iff [symmetric]
    using fr cs by (auto simp: hl h tl)
qed

lemma ipv6_valid_iff:
  "(drop_bit 4 (p ! 0) = 6 \<and> ipv6_check_len p \<and>
     (case checked_add 40 (unat (ipv6_payload_len p)) of None \<Rightarrow> False | Some declared \<Rightarrow> declared = length p))
   \<longleftrightarrow> ipv6_wellformed p"
proof -
  have len: "unat (ipv6_payload_len p) = 256 * unat (p ! 4) + unat (p ! 5)"
    using unat_read_u16 [of p 4] by (simp add: ipv6_payload_len_def)
  have "40 + unat (ipv6_payload_len p) \<le> usize_max"
    using unat_bound [of "ipv6_payload_len p"] by (simp add: usize_max_def)
  then have add: "checked_add 40 (unat (ipv6_payload_len p)) = Some (40 + unat (ipv6_payload_len p))"
    by simp
  show ?thesis
    unfolding add option.case
    by (auto simp: ipv6_wellformed_def ipv6_check_len_def ipv6_total_len_def version_iff len)
qed

text \<open>
  C35. A packet is accepted exactly when its octets form an unfragmented IPv4 packet with a correct
  header checksum, or an IPv6 packet, whose declared length is the packet's, and it fits both the
  MTU and the copy limit. A malformed packet is always \<open>InvalidPacket\<close>, whatever its size; only a
  well-formed one can be \<open>PacketTooLarge\<close>.
\<close>

theorem validate_raw_packet_exact:
  "validate_raw_packet p mtu bytes_copied =
     (if p \<noteq> [] \<and> (ipv4_wellformed p \<or> ipv6_wellformed p)
      then (if mtu < length p \<or> bytes_copied < length p then Inl PacketTooLarge else Inr ())
      else Inl InvalidPacket)"
proof (cases "p = []")
  case False
  then show ?thesis
    using ipv4_valid_iff [of p] ipv6_valid_iff [of p]
    by (auto simp: validate_raw_packet_def Let_def)
qed (simp add: validate_raw_packet_def)


end
