(* ===== verification/Endpoint.thy ===== *)
theory Endpoint
  imports Limits Device Socket_Table Wire
begin

text \<open>
  The records and checks of \<open>native/smolnet_core/src/tcp.rs\<close> and \<open>udp.rs\<close>, and the configuration
  checks of \<open>stack.rs\<close> (\<open>StackConfig\<close>, \<open>AddressConfig\<close>, \<open>RouteConfig\<close>).

  An endpoint arrives from the caller as octets, a port and a scope, each unchecked, and is
  validated once; what the stack answers is encoded the same way. Ports and scopes are natural
  numbers, in range once validated. \<open>allocate_ephemeral\<close> is the search for a free port.
\<close>

section \<open>Definitions\<close>

definition DEFAULT_BUFFER_BYTES :: nat where "DEFAULT_BUFFER_BYTES = 256 * 1024"
definition MIN_BUFFER_BYTES :: nat where "MIN_BUFFER_BYTES = 1024"
definition MAX_BUFFER_BYTES :: nat where "MAX_BUFFER_BYTES = 1024 * 1024"
definition CONNECT_TIMEOUT_MILLIS :: nat where "CONNECT_TIMEOUT_MILLIS = 30000"
definition CLOSE_TIMEOUT_MILLIS :: nat where "CLOSE_TIMEOUT_MILLIS = 30000"
definition USER_TIMEOUT_MILLIS :: nat where "USER_TIMEOUT_MILLIS = 924600"
definition KEEPALIVE_IDLE_MILLIS :: nat where "KEEPALIVE_IDLE_MILLIS = 7200000"
definition KEEPALIVE_INTERVAL_MILLIS :: nat where "KEEPALIVE_INTERVAL_MILLIS = 75000"
definition KEEPALIVE_PROBES :: nat where "KEEPALIVE_PROBES = 9"
definition EPHEMERAL_PORT_FIRST :: nat where "EPHEMERAL_PORT_FIRST = 49152"
definition EPHEMERAL_PORT_LAST :: nat where "EPHEMERAL_PORT_LAST = 50175"
definition LISTENER_POOL_MAX :: nat where "LISTENER_POOL_MAX = 4"
definition LISTENER_BACKLOG_MAX :: nat where "LISTENER_BACKLOG_MAX = 128"

datatype AddressFamily = Inet | Inet6

fun family_of :: "IpAddress \<Rightarrow> AddressFamily" where
  "family_of (Ipv4 _) = Inet"
| "family_of (Ipv6 _) = Inet6"

fun unspecified :: "AddressFamily \<Rightarrow> IpAddress" where
  "unspecified Inet = UNSPECIFIED4"
| "unspecified Inet6 = UNSPECIFIED6"

fun family_matches :: "AddressFamily \<Rightarrow> IpAddress \<Rightarrow> bool" where
  "family_matches Inet (Ipv4 _) = True"
| "family_matches Inet6 (Ipv6 _) = True"
| "family_matches _ _ = False"

record TcpEndpoint =
  te_address :: bytes
  te_port :: int
  te_scope_id :: int

record ValidatedEndpoint =
  ve_address :: IpAddress
  ve_port :: nat
  ve_scope_id :: nat

record IpEndpoint =
  ip_addr :: IpAddress
  ip_port :: nat

record IpListenEndpoint =
  le_addr :: "IpAddress option"
  le_port :: nat

definition u16_max :: int where "u16_max = 65535"
definition u32_max :: int where "u32_max = 4294967295"

definition endpoint_validate :: "bool \<Rightarrow> TcpEndpoint \<Rightarrow> (SocketError, ValidatedEndpoint) result" where
  "endpoint_validate bind e =
     (let octets = te_address e;
          address =
            (if length octets = 4 then Inr (Ipv4 octets)
             else if length octets = 16
             then (if ipv4_mapped octets then Inl SE_InvalidAddress else Inr (Ipv6 octets))
             else Inl SE_InvalidAddress)
      in bind_res address (\<lambda>address.
        if is_multicast address \<or> is_broadcast address \<or> (\<not> bind \<and> is_unspecified address)
        then Inl SE_InvalidAddress
        else if te_port e < 0 \<or> u16_max < te_port e \<or> (\<not> bind \<and> te_port e = 0)
        then Inl SE_InvalidPort
        else
          let scope =
            (case address of
               Ipv6 os \<Rightarrow>
                 if link_local os then
                   (if te_scope_id e = 0 then Inl SE_ScopeRequired
                    else if te_scope_id e < 0 \<or> u32_max < te_scope_id e then Inl SE_InvalidScope
                    else Inr ())
                 else if te_scope_id e \<noteq> 0 then Inl SE_InvalidScope
                 else Inr ()
             | Ipv4 _ \<Rightarrow> if te_scope_id e \<noteq> 0 then Inl SE_InvalidScope else Inr ())
          in bind_res scope (\<lambda>_.
            Inr \<lparr>ve_address = address, ve_port = nat (te_port e), ve_scope_id = nat (te_scope_id e)\<rparr>)))"

definition bind_endpoint :: "TcpEndpoint \<Rightarrow> (SocketError, ValidatedEndpoint) result" where
  "bind_endpoint e = endpoint_validate True e"

definition remote_endpoint :: "TcpEndpoint \<Rightarrow> (SocketError, ValidatedEndpoint) result" where
  "remote_endpoint e = endpoint_validate False e"

definition ip_endpoint :: "ValidatedEndpoint \<Rightarrow> IpEndpoint" where
  "ip_endpoint e = \<lparr>ip_addr = ve_address e, ip_port = ve_port e\<rparr>"

definition listen_endpoint_of :: "ValidatedEndpoint \<Rightarrow> IpListenEndpoint" where
  "listen_endpoint_of e =
     \<lparr>le_addr = (if is_unspecified (ve_address e) then None else Some (ve_address e)), le_port = ve_port e\<rparr>"

record EncodedEndpoint =
  ee_address :: bytes
  ee_port :: nat
  ee_scope_id :: nat

definition EncodedEndpoint_new :: "IpEndpoint \<Rightarrow> nat \<Rightarrow> EncodedEndpoint" where
  "EncodedEndpoint_new endpoint scope_id =
     \<lparr>ee_address = octets (ip_addr endpoint), ee_port = ip_port endpoint, ee_scope_id = scope_id\<rparr>"

datatype ConnectFailure = Refused | Reset | TimedOut

datatype ConnectPhase = PhaseOpen | Bound | Connecting | Connected | Failed ConnectFailure

datatype ShutdownHow = ShutRead | ShutWrite | ShutReadWrite

fun socket_error :: "ConnectFailure \<Rightarrow> SocketError" where
  "socket_error Refused = SE_ConnectionRefused"
| "socket_error Reset = SE_ConnectionReset"
| "socket_error TimedOut = SE_ConnectionTimeout"

record TcpTimers =
  user_timeout :: nat
  keepalive_idle :: nat
  keepalive_interval :: nat
  keepalive_probes :: nat

definition TcpTimers_default :: TcpTimers where
  "TcpTimers_default = \<lparr>user_timeout = USER_TIMEOUT_MILLIS, keepalive_idle = KEEPALIVE_IDLE_MILLIS,
     keepalive_interval = KEEPALIVE_INTERVAL_MILLIS, keepalive_probes = KEEPALIVE_PROBES\<rparr>"

definition MAX_MILLIS :: nat where "MAX_MILLIS = 86400000"

definition timers_valid :: "TcpTimers \<Rightarrow> bool" where
  "timers_valid t \<longleftrightarrow>
     1 \<le> user_timeout t \<and> user_timeout t \<le> MAX_MILLIS \<and>
     1 \<le> keepalive_idle t \<and> keepalive_idle t \<le> MAX_MILLIS \<and>
     1 \<le> keepalive_interval t \<and> keepalive_interval t \<le> MAX_MILLIS \<and> 0 < keepalive_probes t"

record KeepAlive =
  ka_idle :: duration
  ka_interval :: duration
  ka_probes :: "nat option"

definition timers_user_timeout :: "TcpTimers \<Rightarrow> duration" where
  "timers_user_timeout t = Duration_from_millis (user_timeout t)"

definition timers_keep_alive :: "TcpTimers \<Rightarrow> bool \<Rightarrow> KeepAlive option" where
  "timers_keep_alive t enabled =
     (if enabled
      then Some \<lparr>ka_idle = Duration_from_millis (keepalive_idle t),
                 ka_interval = Duration_from_millis (keepalive_interval t),
                 ka_probes = Some (keepalive_probes t)\<rparr>
      else None)"

type_synonym SocketHandle = nat

record TcpRecord =
  tr_identity :: SocketIdentity
  tr_handle :: SocketHandle
  tr_family :: AddressFamily
  phase :: ConnectPhase
  local :: "IpEndpoint option"
  local_scope_id :: nat
  remote :: "IpEndpoint option"
  remote_scope_id :: nat
  read_shutdown :: bool
  write_shutdown :: bool
  close_deadline :: "instant option"
  accepted :: bool
  tr_rcvbuf :: nat
  tr_sndbuf :: nat

record ListenerRecord =
  lr_identity :: SocketIdentity
  lr_endpoint :: ValidatedEndpoint
  listen_endpoint :: IpListenEndpoint
  lr_local :: IpEndpoint
  backlog :: nat
  pool_target :: nat
  pool :: "SocketHandle bset"
  accept_queue :: "SocketIdentity list"
  lr_rcvbuf :: nat
  lr_sndbuf :: nat
  lr_nodelay :: bool
  lr_keepalive :: bool

definition ListenerRecord_new ::
    "SocketIdentity \<Rightarrow> ValidatedEndpoint \<Rightarrow> IpListenEndpoint \<Rightarrow> IpEndpoint \<Rightarrow> nat
      \<Rightarrow> SocketHandle list \<Rightarrow> nat \<Rightarrow> nat \<Rightarrow> ListenerRecord" where
  "ListenerRecord_new i endpoint listen loc bl handles rcvbuf sndbuf =
     \<lparr>lr_identity = i, lr_endpoint = endpoint, listen_endpoint = listen, lr_local = loc,
      backlog = bl, pool_target = min bl LISTENER_POOL_MAX,
      pool = foldr bs_insert handles [], accept_queue = [],
      lr_rcvbuf = rcvbuf, lr_sndbuf = sndbuf, lr_nodelay = False, lr_keepalive = False\<rparr>"

definition TcpRecord_new :: "SocketIdentity \<Rightarrow> SocketHandle \<Rightarrow> AddressFamily \<Rightarrow> nat \<Rightarrow> nat \<Rightarrow> TcpRecord" where
  "TcpRecord_new i handle fam rcvbuf sndbuf =
     \<lparr>tr_identity = i, tr_handle = handle, tr_family = fam, phase = PhaseOpen,
      local = None, local_scope_id = 0, remote = None, remote_scope_id = 0,
      read_shutdown = False, write_shutdown = False, close_deadline = None, accepted = False,
      tr_rcvbuf = rcvbuf, tr_sndbuf = sndbuf\<rparr>"

definition TcpRecord_accepted ::
    "SocketIdentity \<Rightarrow> SocketHandle \<Rightarrow> IpEndpoint \<Rightarrow> IpEndpoint \<Rightarrow> nat \<Rightarrow> nat \<Rightarrow> nat \<Rightarrow> TcpRecord" where
  "TcpRecord_accepted i handle loc rem scope_id rcvbuf sndbuf =
     \<lparr>tr_identity = i, tr_handle = handle, tr_family = family_of (ip_addr loc), phase = Connected,
      local = Some loc, local_scope_id = scope_id, remote = Some rem, remote_scope_id = scope_id,
      read_shutdown = False, write_shutdown = False, close_deadline = None, accepted = True,
      tr_rcvbuf = rcvbuf, tr_sndbuf = sndbuf\<rparr>"

definition valid_buffer_bytes :: "nat \<Rightarrow> bool" where
  "valid_buffer_bytes bytes \<longleftrightarrow> MIN_BUFFER_BYTES \<le> bytes \<and> bytes \<le> MAX_BUFFER_BYTES"

text \<open>The loop \<open>for offset in 0..count\<close>, counting down the offsets that are left.\<close>

fun allocate_loop :: "nat set \<Rightarrow> nat \<Rightarrow> nat \<Rightarrow> nat \<Rightarrow> nat \<Rightarrow> nat \<Rightarrow> (SocketError, nat) result" where
  "allocate_loop used st first count offset 0 = Inl SE_EphemeralPortsExhausted"
| "allocate_loop used st first count offset (Suc left) =
     (let candidate = first + (st - first + offset) mod count
      in if candidate \<notin> used then Inr candidate
         else allocate_loop used st first count (Suc offset) left)"

definition clamp :: "nat \<Rightarrow> nat \<Rightarrow> nat \<Rightarrow> nat" where
  "clamp x lo hi = (if x < lo then lo else if hi < x then hi else x)"

definition allocate_ephemeral :: "nat set \<Rightarrow> nat \<Rightarrow> nat \<Rightarrow> nat \<Rightarrow> (SocketError, nat) result" where
  "allocate_ephemeral used st first last_port =
     (let count = last_port - first + 1
      in allocate_loop used (clamp st first last_port) first count 0 count)"

text \<open>UDP.\<close>

definition PACKET_CAPACITY :: nat where "PACKET_CAPACITY = 16"
definition PAYLOAD_BYTES :: nat where "PAYLOAD_BYTES = 16 * 1024"
definition BUFFER_BYTES :: nat where "BUFFER_BYTES = 2 * PAYLOAD_BYTES"

record UdpRecord =
  ur_identity :: SocketIdentity
  ur_handles :: "SocketHandle list"
  ur_family :: AddressFamily
  ur_local :: "ValidatedEndpoint option"
  peer :: "ValidatedEndpoint option"
  receive_cursor :: nat

definition UdpRecord_new :: "SocketIdentity \<Rightarrow> SocketHandle \<Rightarrow> AddressFamily \<Rightarrow> UdpRecord" where
  "UdpRecord_new i handle fam = \<lparr>ur_identity = i, ur_handles = [handle], ur_family = fam,
     ur_local = None, peer = None, receive_cursor = 0\<rparr>"

text \<open>\<open>None\<close> is the failed \<open>expect\<close>.\<close>

definition primary_handle :: "UdpRecord \<Rightarrow> SocketHandle option" where
  "primary_handle r = (case ur_handles r of [] \<Rightarrow> None | h # _ \<Rightarrow> Some h)"

definition max_datagram_bytes :: "nat \<Rightarrow> AddressFamily \<Rightarrow> nat" where
  "max_datagram_bytes mtu fam =
     min (mtu - (case fam of Inet \<Rightarrow> 28 | Inet6 \<Rightarrow> 48)) PAYLOAD_BYTES"

text \<open>Configuration.\<close>

record AddressConfig =
  ac_address :: bytes
  ac_prefix_length :: nat

record RouteConfig =
  rc_destination :: bytes
  rc_prefix_length :: nat
  rc_gateway :: bytes

datatype IpCidr = IpCidr (cidr_address: IpAddress) (cidr_prefix_length: nat)

definition address_config_valid :: "AddressConfig \<Rightarrow> bool" where
  "address_config_valid c =
     (case ip_address (ac_address c) of
        None \<Rightarrow> False
      | Some address \<Rightarrow> ac_prefix_length c \<le> prefix_limit address \<and>
                        (is_unspecified address \<or> is_unicast address))"

definition address_to_cidr :: "AddressConfig \<Rightarrow> IpCidr option" where
  "address_to_cidr c = map_option (\<lambda>a. IpCidr a (ac_prefix_length c)) (ip_address (ac_address c))"

definition route_config_valid :: "RouteConfig \<Rightarrow> bool" where
  "route_config_valid c =
     (case ip_address (rc_destination c) of
        None \<Rightarrow> False
      | Some destination \<Rightarrow>
          (case ip_address (rc_gateway c) of
             None \<Rightarrow> False
           | Some gateway \<Rightarrow>
               same_family destination gateway \<and> rc_prefix_length c \<le> prefix_limit destination \<and>
               \<not> is_multicast destination \<and> is_unicast gateway))"

record Route =
  cidr :: IpCidr
  via_router :: IpAddress

definition to_route :: "RouteConfig \<Rightarrow> Route option" where
  "to_route c =
     (case (ip_address (rc_destination c), ip_address (rc_gateway c)) of
        (Some destination, Some gateway) \<Rightarrow>
          Some \<lparr>cidr = IpCidr destination (rc_prefix_length c), via_router = gateway\<rparr>
      | _ \<Rightarrow> None)"

record StackConfig =
  cfg_mtu :: nat
  cfg_addresses :: "AddressConfig list"
  cfg_routes :: "RouteConfig list"
  cfg_egress_credit :: "EgressCredit option"
  cfg_tcp_timers :: TcpTimers

definition config_validate :: "StackConfig \<Rightarrow> Limits \<Rightarrow> (StackError, unit) result" where
  "config_validate c l =
     (if \<not> (1280 \<le> cfg_mtu c \<and> cfg_mtu c \<le> 65575) \<or> bytes_copied l < cfg_mtu c
         \<or> 8 < length (cfg_addresses c) \<or> 4 < length (cfg_routes c)
         \<or> list_ex (\<lambda>a. \<not> address_config_valid a) (cfg_addresses c)
         \<or> list_ex (\<lambda>r. \<not> route_config_valid r) (cfg_routes c)
         \<or> \<not> timers_valid (cfg_tcp_timers c)
      then Inl InvalidStackConfig else Inr ())"

section \<open>Ephemeral ports\<close>

lemma allocate_loop_Inr:
  "allocate_loop used st first count offset left = Inr p \<Longrightarrow>
     \<exists>k. offset \<le> k \<and> k < offset + left \<and> p = first + (st - first + k) mod count \<and> p \<notin> used \<and>
       (\<forall>j. offset \<le> j \<and> j < k \<longrightarrow> first + (st - first + j) mod count \<in> used)"
proof (induction used st first count offset left rule: allocate_loop.induct)
  case (2 used st first count offset left)
  show ?case
  proof (cases "first + (st - first + offset) mod count \<in> used")
    case True
    then obtain k where "Suc offset \<le> k" "k < Suc offset + left" "p = first + (st - first + k) mod count"
      "p \<notin> used" "\<forall>j. Suc offset \<le> j \<and> j < k \<longrightarrow> first + (st - first + j) mod count \<in> used"
      using 2 by (auto simp: Let_def)
    moreover from this have "first + (st - first + j) mod count \<in> used" if "offset \<le> j" and "j < k" for j
      using True that by (cases "j = offset") auto
    ultimately show ?thesis
      by (intro exI [of _ k]) auto
  next
    case False
    then show ?thesis
      using 2(2) by (intro exI [of _ offset]) (auto simp: Let_def)
  qed
qed simp

lemma allocate_loop_Inl:
  "allocate_loop used st first count offset left = Inl e \<Longrightarrow>
     e = SE_EphemeralPortsExhausted \<and>
     (\<forall>k. offset \<le> k \<and> k < offset + left \<longrightarrow> first + (st - first + k) mod count \<in> used)"
proof (induction used st first count offset left rule: allocate_loop.induct)
  case (2 used st first count offset left)
  then have here: "first + (st - first + offset) mod count \<in> used"
    and rest: "e = SE_EphemeralPortsExhausted"
      "\<forall>k. Suc offset \<le> k \<and> k < Suc offset + left \<longrightarrow> first + (st - first + k) mod count \<in> used"
    by (auto simp: Let_def split: if_splits)
  have "first + (st - first + k) mod count \<in> used" if "offset \<le> k" and "k < offset + Suc left" for k
    using here rest(2) that by (cases "k = offset") auto
  then show ?case using rest(1) by blast
qed auto

lemma rotation_onto:
  assumes "n < (count::nat)"
  shows "\<exists>k < count. (s + k) mod count = n"
proof -
  let ?k = "(n + count - s mod count) mod count"
  have "(s + ?k) mod count = (s mod count + (n + count - s mod count)) mod count"
    by (metis mod_add_left_eq mod_add_right_eq)
  also have "\<dots> = n"
    using assms mod_less_divisor [of count s] by (simp add: less_imp_le trans_le_add2)
  finally show ?thesis
    using assms by (intro exI [of _ ?k]) simp
qed

text \<open>
  C37. The ephemeral port search is correct and complete: a port it returns lies in the range and is
  free, and it is the first free one from the starting port on, wrapping around; it fails only with
  \<open>EphemeralPortsExhausted\<close>, and only when every port of the range is in use.
\<close>

theorem allocate_ephemeral_correct:
  assumes "first \<le> last_port"
  shows "(\<forall>p. allocate_ephemeral used st first last_port = Inr p \<longrightarrow>
      first \<le> p \<and> p \<le> last_port \<and> p \<notin> used \<and>
      (\<exists>k. p = first + (clamp st first last_port - first + k) mod (last_port - first + 1) \<and>
        (\<forall>j < k. first + (clamp st first last_port - first + j) mod (last_port - first + 1) \<in> used))) \<and>
    (\<forall>e. allocate_ephemeral used st first last_port = Inl e \<longleftrightarrow>
      e = SE_EphemeralPortsExhausted \<and> {first..last_port} \<subseteq> used)"
proof -
  let ?count = "last_port - first + 1"
  let ?st = "clamp st first last_port"
  let ?cand = "\<lambda>k. first + (?st - first + k) mod ?count"
  have in_range: "first \<le> ?cand k \<and> ?cand k \<le> last_port" for k
    using mod_less_divisor [of ?count "?st - first + k"] assms by linarith
  have ok: "first \<le> p \<and> p \<le> last_port \<and> p \<notin> used \<and> (\<exists>k. p = ?cand k \<and> (\<forall>j < k. ?cand j \<in> used))"
    if run: "allocate_ephemeral used st first last_port = Inr p" for p
  proof -
    obtain k where "p = ?cand k" and "p \<notin> used" and "\<forall>j. 0 \<le> j \<and> j < k \<longrightarrow> ?cand j \<in> used"
      using allocate_loop_Inr [of used ?st first ?count 0 ?count p] run
      unfolding allocate_ephemeral_def Let_def by blast
    then show ?thesis
      using in_range [of k] by (auto intro: exI [of _ k])
  qed
  have err: "e = SE_EphemeralPortsExhausted \<and> {first..last_port} \<subseteq> used"
    if "allocate_ephemeral used st first last_port = Inl e" for e
  proof -
    have *: "e = SE_EphemeralPortsExhausted" "\<forall>k < ?count. ?cand k \<in> used"
      using allocate_loop_Inl [of used ?st first ?count 0 ?count e] that
      unfolding allocate_ephemeral_def Let_def by simp_all
    have "p \<in> used" if "p \<in> {first..last_port}" for p
    proof -
      have "p - first < ?count" using that by auto
      then obtain k where "k < ?count" and "(?st - first + k) mod ?count = p - first"
        using rotation_onto by blast
      then show ?thesis using *(2) [rule_format, of k] that by simp
    qed
    then show ?thesis using * by blast
  qed
  have full: "allocate_ephemeral used st first last_port = Inl SE_EphemeralPortsExhausted"
    if "{first..last_port} \<subseteq> used"
  proof (cases "allocate_ephemeral used st first last_port")
    case (Inl e)
    then show ?thesis using err by blast
  next
    case (Inr p)
    have "p \<in> {first..last_port}" and "p \<notin> used" using ok [OF Inr] by simp_all
    then show ?thesis using that by blast
  qed
  show ?thesis
    using ok err full by blast
qed

theorem allocate_ephemeral_correct_witness:
  "allocate_ephemeral {49152} 49152 49152 49153 = Inr 49153 \<and> (49153::nat) \<notin> {49152}"
proof -
  have run: "allocate_ephemeral {49152} 49152 49152 49153 = Inr 49153"
    by (simp add: allocate_ephemeral_def clamp_def Let_def numeral_2_eq_2)
  show ?thesis
    using allocate_ephemeral_correct [of 49152 49153 "{49152}" 49152, THEN conjunct1, THEN spec, of 49153] run
    by simp
qed

section \<open>Endpoints\<close>

lemma endpoint_validate_Inr:
  assumes "endpoint_validate bind e = Inr v"
  shows "octets (ve_address v) = te_address e" and "address_wf (ve_address v)"
    and "\<not> is_multicast (ve_address v)" and "\<not> is_broadcast (ve_address v)"
    and "int (ve_port v) = te_port e" and "ve_port v \<le> 65535"
    and "int (ve_scope_id v) = te_scope_id e" and "ve_scope_id v \<le> 4294967295"
    and "ve_scope_id v \<noteq> 0 \<longleftrightarrow> (\<exists>os. ve_address v = Ipv6 os \<and> link_local os)"
    and "\<not> bind \<Longrightarrow> ve_port v \<noteq> 0 \<and> \<not> is_unspecified (ve_address v)"
  using assms
  by (auto simp: endpoint_validate_def Let_def u16_max_def u32_max_def bind_res_def
      split: if_splits sum.splits IpAddress.splits)

lemma replicate4: "replicate 4 x = [x, x, x, x]"
  by (simp add: numeral_eq_Suc)

lemma link_local_unicast:
  assumes "link_local os" and "length os = 16"
  shows "\<not> is_multicast (Ipv6 os)" and "\<not> is_broadcast (Ipv6 os)" and "\<not> is_unspecified (Ipv6 os)" and "\<not> ipv4_mapped os"
proof -
  have first: "os ! 0 = 0xfe" using assms(1) by (simp add: link_local_def)
  then show "\<not> is_multicast (Ipv6 os)" "\<not> is_broadcast (Ipv6 os)" by simp_all
  have nonzero: "os ! 0 \<noteq> 0" using first by simp
  moreover have "replicate 16 (0::byte) ! 0 = 0" by (rule nth_replicate) simp
  ultimately show "\<not> is_unspecified (Ipv6 os)" by (metis is_unspecified.simps(2))
  have "os ! 0 \<in> set (take 10 os)" using assms(2) by (auto simp: in_set_conv_nth intro!: exI [of _ 0])
  with nonzero show "\<not> ipv4_mapped os" by (auto simp: ipv4_mapped_def)
qed

text \<open>An endpoint the stack reports, as a caller passes it back, and the conditions under which it is
  one that the stack accepts.\<close>

definition reported :: "IpEndpoint \<Rightarrow> nat \<Rightarrow> TcpEndpoint" where
  "reported endpoint scope_id = (let e = EncodedEndpoint_new endpoint scope_id
     in \<lparr>te_address = ee_address e, te_port = int (ee_port e), te_scope_id = int (ee_scope_id e)\<rparr>)"

definition reencode :: "ValidatedEndpoint \<Rightarrow> TcpEndpoint" where
  "reencode v = reported (ip_endpoint v) (ve_scope_id v)"

definition reusable :: "bool \<Rightarrow> IpEndpoint \<Rightarrow> nat \<Rightarrow> bool" where
  "reusable bind endpoint scope_id \<longleftrightarrow>
     (case ip_addr endpoint of
        Ipv4 _ \<Rightarrow> scope_id = 0
      | Ipv6 os \<Rightarrow> \<not> ipv4_mapped os \<and> (scope_id \<noteq> 0 \<longleftrightarrow> link_local os)) \<and>
     \<not> is_multicast (ip_addr endpoint) \<and> \<not> is_broadcast (ip_addr endpoint) \<and>
     (bind \<or> ip_port endpoint \<noteq> 0 \<and> \<not> is_unspecified (ip_addr endpoint))"

lemma reported_validates:
  assumes "address_wf (ip_addr ep)" and "ip_port ep \<le> 65535" and "sc \<le> 4294967295"
  shows "endpoint_validate bind (reported ep sc) = Inr v \<longleftrightarrow>
    reusable bind ep sc \<and> v = \<lparr>ve_address = ip_addr ep, ve_port = ip_port ep, ve_scope_id = sc\<rparr>"
  using assms
  by (cases "ip_addr ep")
    (auto simp: endpoint_validate_def reported_def EncodedEndpoint_new_def reusable_def Let_def u16_max_def u32_max_def bind_res_def)



section \<open>Configuration\<close>

lemma config_validate_Inr:
  assumes "config_validate c l = Inr x"
  shows "1280 \<le> cfg_mtu c" and "cfg_mtu c \<le> bytes_copied l" and "cfg_mtu c \<le> 65575"
    and "length (cfg_addresses c) \<le> 8" and "length (cfg_routes c) \<le> 4"
    and "a \<in> set (cfg_addresses c) \<Longrightarrow> address_to_cidr a \<noteq> None"
    and "r \<in> set (cfg_routes c) \<Longrightarrow> to_route r \<noteq> None"
    and "timers_valid (cfg_tcp_timers c)"
  using assms
  by (auto simp: config_validate_def list_ex_iff address_config_valid_def route_config_valid_def
      address_to_cidr_def to_route_def split: if_splits option.splits)

lemma max_datagram_fits:
  "48 \<le> mtu \<Longrightarrow> max_datagram_bytes mtu fam + (case fam of Inet \<Rightarrow> 28 | Inet6 \<Rightarrow> 48) \<le> mtu"
  by (cases fam) (auto simp: max_datagram_bytes_def)

lemma family_matches_iff: "family_matches f a \<longleftrightarrow> family_of a = f"
  by (cases f; cases a) auto

end
