(* ===== verification/Prog.thy ===== *)
theory Prog
  imports Prelude
begin

text \<open>
  Handlers as programs. The methods of \<open>NativeStack\<close> take \<open>&mut self\<close>, return early with \<open>?\<close>, and
  may panic through \<open>expect\<close>, \<open>unwrap\<close> or a bad socket handle. A program maps a state to a result and
  a state; a result is a value, an error the code returns, or a panic. \<open>bnd\<close> is the sequencing of
  statements, with the early return of \<open>?\<close>.

  \<open>wp m Q E s\<close> says that running \<open>m\<close> from \<open>s\<close> ends in a value and state related by \<open>Q\<close>, or in a fault
  and state related by \<open>E\<close>. Its rewrite rules \<open>wp_simps\<close> evaluate straight-line code; calls are
  handled by one specification lemma per operation.
\<close>

datatype 'e fault = Err 'e | Panic

type_synonym ('s, 'e, 'a) prog = "'s \<Rightarrow> ('e fault, 'a) result \<times> 's"

definition ret :: "'a \<Rightarrow> ('s, 'e, 'a) prog" where
  "ret x = (\<lambda>s. (Inr x, s))"

definition raise :: "'e fault \<Rightarrow> ('s, 'e, 'a) prog" where
  "raise f = (\<lambda>s. (Inl f, s))"

definition bnd :: "('s, 'e, 'a) prog \<Rightarrow> ('a \<Rightarrow> ('s, 'e, 'b) prog) \<Rightarrow> ('s, 'e, 'b) prog" where
  "bnd m k = (\<lambda>s. case m s of (Inl f, s) \<Rightarrow> (Inl f, s) | (Inr x, s) \<Rightarrow> k x s)"

definition gets :: "('s \<Rightarrow> 'a) \<Rightarrow> ('s, 'e, 'a) prog" where
  "gets f = (\<lambda>s. (Inr (f s), s))"

definition modify :: "('s \<Rightarrow> 's) \<Rightarrow> ('s, 'e, unit) prog" where
  "modify f = (\<lambda>s. (Inr (), f s))"

text \<open>A check on the state followed by \<open>?\<close>, and an operation that changes the state.\<close>

definition ask :: "('s \<Rightarrow> ('e, 'a) result) \<Rightarrow> ('s, 'e, 'a) prog" where
  "ask f = (\<lambda>s. case f s of Inl e \<Rightarrow> (Inl (Err e), s) | Inr x \<Rightarrow> (Inr x, s))"

definition act :: "('s \<Rightarrow> 'a \<times> 's) \<Rightarrow> ('s, 'e, 'a) prog" where
  "act f = (\<lambda>s. case f s of (x, s) \<Rightarrow> (Inr x, s))"

text \<open>\<open>expect\<close> turns a returned error into a panic, \<open>unwrap\<close> the absence of a value.\<close>

definition expect :: "('s, 'd, 'a) prog \<Rightarrow> ('s, 'e, 'a) prog" where
  "expect m = (\<lambda>s. case m s of (Inl f, s) \<Rightarrow> (Inl Panic, s) | (Inr x, s) \<Rightarrow> (Inr x, s))"

definition unwrap :: "'a option \<Rightarrow> ('s, 'e, 'a) prog" where
  "unwrap v = (case v of None \<Rightarrow> raise Panic | Some x \<Rightarrow> ret x)"

definition liftr :: "('e, 'a) result \<Rightarrow> ('s, 'e, 'a) prog" where
  "liftr r = ask (\<lambda>_. r)"

text \<open>A failed \<open>debug_assert!\<close> panics, as in a debug build; a release build leaves the check out.\<close>

definition debug_assert :: "bool \<Rightarrow> ('s, 'e, unit) prog" where
  "debug_assert c = (if c then ret () else raise Panic)"

definition guarded :: "bool \<Rightarrow> ('s, 'e, unit) prog \<Rightarrow> ('s, 'e, unit) prog" where
  "guarded c m = (if c then m else ret ())"

fun each :: "('a \<Rightarrow> ('s, 'e, unit) prog) \<Rightarrow> 'a list \<Rightarrow> ('s, 'e, unit) prog" where
  "each f [] = ret ()"
| "each f (x # xs) = bnd (f x) (\<lambda>_. each f xs)"

definition wp ::
    "('s, 'e, 'a) prog \<Rightarrow> ('a \<Rightarrow> 's \<Rightarrow> bool) \<Rightarrow> ('e fault \<Rightarrow> 's \<Rightarrow> bool) \<Rightarrow> 's \<Rightarrow> bool" where
  "wp m Q E s = (case m s of (Inl f, s) \<Rightarrow> E f s | (Inr x, s) \<Rightarrow> Q x s)"

section \<open>Evaluation of straight-line code\<close>

named_theorems wp_simps
named_theorems wp_intros

lemma wp_ret [wp_simps]: "wp (ret x) Q E = Q x"
  by (simp add: wp_def ret_def fun_eq_iff)

lemma wp_raise [wp_simps]: "wp (raise f) Q E = E f"
  by (simp add: wp_def raise_def fun_eq_iff)

lemma wp_bnd [wp_simps]: "wp (bnd m k) Q E = wp m (\<lambda>x. wp (k x) Q E) E"
  by (simp add: wp_def bnd_def fun_eq_iff split: prod.splits sum.splits)

lemma wp_gets [wp_simps]: "wp (gets g) Q E = (\<lambda>s. Q (g s) s)"
  by (simp add: wp_def gets_def fun_eq_iff)

lemma wp_modify [wp_simps]: "wp (modify h) Q E = (\<lambda>s. Q () (h s))"
  by (simp add: wp_def modify_def fun_eq_iff)

lemma wp_expect [wp_simps]: "wp (expect m) Q E = wp m Q (\<lambda>_. E Panic)"
  by (simp add: wp_def expect_def fun_eq_iff split: prod.splits sum.splits)

lemma wp_ask [wp_simps]: "wp (ask g) Q E = (\<lambda>s. case g s of Inl e \<Rightarrow> E (Err e) s | Inr x \<Rightarrow> Q x s)"
  by (simp add: wp_def ask_def fun_eq_iff split: sum.splits)

lemma wp_liftr [wp_simps]: "wp (liftr r) Q E = (\<lambda>s. case r of Inl e \<Rightarrow> E (Err e) s | Inr x \<Rightarrow> Q x s)"
  by (simp add: liftr_def wp_ask)

lemma wp_act [wp_simps]: "wp (act g) Q E = (\<lambda>s. case g s of (x, s) \<Rightarrow> Q x s)"
  by (auto simp: wp_def act_def fun_eq_iff split: prod.splits)

lemma wp_unwrap [wp_simps]: "wp (unwrap v) Q E = (\<lambda>s. case v of None \<Rightarrow> E Panic s | Some x \<Rightarrow> Q x s)"
  by (simp add: unwrap_def wp_raise wp_ret fun_eq_iff split: option.splits)

lemma wp_debug_assert [wp_simps]: "wp (debug_assert c) Q E = (\<lambda>s. if c then Q () s else E Panic s)"
  by (simp add: debug_assert_def wp_raise wp_ret fun_eq_iff)

lemma wp_guarded [wp_simps]: "wp (guarded c m) Q E = (\<lambda>s. if c then wp m Q E s else Q () s)"
  by (simp add: guarded_def wp_ret fun_eq_iff)

lemma wp_if [wp_simps]: "wp (if c then m else n) Q E s = (if c then wp m Q E s else wp n Q E s)"
  by simp

lemma wp_let [wp_simps]: "wp (Let x f) Q E s = (let y = x in wp (f y) Q E s)"
  by simp

lemma wp_case_option [wp_simps]:
  "wp (case v of None \<Rightarrow> m | Some x \<Rightarrow> n x) Q E s = (case v of None \<Rightarrow> wp m Q E s | Some x \<Rightarrow> wp (n x) Q E s)"
  by (cases v) simp_all

lemma wp_case_prod [wp_simps]:
  "wp (case v of (x, y) \<Rightarrow> m x y) Q E s = (case v of (x, y) \<Rightarrow> wp (m x y) Q E s)"
  by (cases v) simp

lemma wp_case_sum [wp_simps]:
  "wp (case v of Inl x \<Rightarrow> m x | Inr y \<Rightarrow> n y) Q E s = (case v of Inl x \<Rightarrow> wp (m x) Q E s | Inr y \<Rightarrow> wp (n y) Q E s)"
  by (cases v) simp_all

lemma wp_case_list [wp_simps]:
  "wp (case v of [] \<Rightarrow> m | x # xs \<Rightarrow> n x xs) Q E s = (case v of [] \<Rightarrow> wp m Q E s | x # xs \<Rightarrow> wp (n x xs) Q E s)"
  by (cases v) simp_all

section \<open>Rules for calls and loops\<close>

lemma wp_mono:
  assumes "wp m Q E s" and "\<And>x s'. Q x s' \<Longrightarrow> Q' x s'" and "\<And>f s'. E f s' \<Longrightarrow> E' f s'"
  shows "wp m Q' E' s"
  using assms by (auto simp: wp_def split: prod.splits sum.splits)

lemma wp_conj: "wp m Q E s \<Longrightarrow> wp m Q' E' s \<Longrightarrow> wp m (\<lambda>x t. Q x t \<and> Q' x t) (\<lambda>f t. E f t \<and> E' f t) s"
  by (auto simp: wp_def split: prod.splits sum.splits)

lemma wp_each:
  assumes "P s" and "\<And>x s. x \<in> set xs \<Longrightarrow> P s \<Longrightarrow> wp (f x) (\<lambda>_. P) E s"
  shows "wp (each f xs) (\<lambda>_. P) E s"
  using assms
proof (induction xs arbitrary: s)
  case (Cons x xs)
  have "wp (f x) (\<lambda>_. wp (each f xs) (\<lambda>_. P) E) E s"
    using Cons.prems by (intro wp_mono [OF Cons.prems(2)]) (auto intro: Cons.IH)
  then show ?case by (simp add: wp_simps)
qed (simp add: wp_simps)

text \<open>An invariant \<open>I\<close> is kept by a program that does not panic from a state of \<open>I\<close> and ends in one,
  with a value or with an error.\<close>

definition keeps :: "('s \<Rightarrow> bool) \<Rightarrow> ('s, 'e, 'a) prog \<Rightarrow> bool" where
  "keeps I m \<longleftrightarrow> (\<forall>s. I s \<longrightarrow> wp m (\<lambda>_. I) (\<lambda>f s. f \<noteq> Panic \<and> I s) s)"

lemma keepsI: "(\<And>s. I s \<Longrightarrow> wp m (\<lambda>_. I) (\<lambda>f s. f \<noteq> Panic \<and> I s) s) \<Longrightarrow> keeps I m"
  by (simp add: keeps_def)

lemma keepsD: "keeps I m \<Longrightarrow> I s \<Longrightarrow> wp m (\<lambda>_. I) (\<lambda>f s. f \<noteq> Panic \<and> I s) s"
  by (simp add: keeps_def)

lemma keeps_wp:
  assumes "keeps I m" and "I s" and "\<And>x s'. I s' \<Longrightarrow> Q x s'" and "\<And>e s'. I s' \<Longrightarrow> E (Err e) s'"
  shows "wp m Q E s"
  using wp_mono [OF keepsD [OF assms(1,2)], of Q E] assms(3,4) by (metis fault.exhaust)

lemma keeps_bnd: "keeps I m \<Longrightarrow> (\<And>x. keeps I (k x)) \<Longrightarrow> keeps I (bnd m k)"
  unfolding keeps_def [of I "bnd m k"] by (auto simp: wp_bnd intro!: keeps_wp [of I m] keepsD)

lemma keeps_each: "(\<And>x. x \<in> set xs \<Longrightarrow> keeps I (f x)) \<Longrightarrow> keeps I (each f xs)"
  by (intro keepsI wp_each) (auto intro: keepsD)

lemma keeps_run:
  assumes "keeps I m" and "I s"
  shows "I (snd (m s))" and "fst (m s) \<noteq> Inl Panic"
  using keepsD [OF assms] by (auto simp: wp_def split: prod.splits sum.splits)

text \<open>A program that ends with a value from every state of \<open>I\<close>, in a state of \<open>I\<close>.\<close>

definition runs :: "('s \<Rightarrow> bool) \<Rightarrow> ('s, 'e, 'a) prog \<Rightarrow> bool" where
  "runs I m \<longleftrightarrow> (\<forall>s. I s \<longrightarrow> wp m (\<lambda>_. I) (\<lambda>_ _. False) s)"

named_theorems runs_intros

lemma runsI: "(\<And>s. I s \<Longrightarrow> wp m (\<lambda>_. I) (\<lambda>_ _. False) s) \<Longrightarrow> runs I m"
  by (simp add: runs_def)

lemma runs_wp: "runs I m \<Longrightarrow> I s \<Longrightarrow> (\<And>x s'. I s' \<Longrightarrow> Q x s') \<Longrightarrow> wp m Q E s"
  by (rule wp_mono [of m "\<lambda>_. I" "\<lambda>_ _. False"]) (auto simp: runs_def)

lemma runs_keeps: "runs I m \<Longrightarrow> keeps I m"
  by (intro keepsI runs_wp [of I m])

lemma runs_ret [runs_intros]: "runs I (ret x)"
  by (simp add: runs_def wp_simps)

lemma runs_bnd [runs_intros]: "runs I m \<Longrightarrow> (\<And>x. runs I (k x)) \<Longrightarrow> runs I (bnd m k)"
  unfolding runs_def [of I "bnd m k"] by (auto simp: wp_bnd intro!: runs_wp [of I m]) (simp add: runs_def)

lemma runs_gets [runs_intros]: "runs I (gets f)"
  by (simp add: runs_def wp_simps)

lemma runs_modify [runs_intros]: "(\<And>s. I s \<Longrightarrow> I (f s)) \<Longrightarrow> runs I (modify f)"
  by (simp add: runs_def wp_simps)

lemma runs_act [runs_intros]: "(\<And>s. I s \<Longrightarrow> I (snd (f s))) \<Longrightarrow> runs I (act f)"
  by (simp add: runs_def wp_simps case_prod_beta)

lemma runs_if [runs_intros]: "(c \<Longrightarrow> runs I m) \<Longrightarrow> (\<not> c \<Longrightarrow> runs I n) \<Longrightarrow> runs I (if c then m else n)"
  by simp

lemma runs_guarded [runs_intros]: "(c \<Longrightarrow> runs I m) \<Longrightarrow> runs I (guarded c m)"
  by (simp add: guarded_def runs_ret)

lemma runs_let [runs_intros]: "runs I (f x) \<Longrightarrow> runs I (Let x f)"
  by simp

lemma runs_case_option [runs_intros]:
  "(v = None \<Longrightarrow> runs I m) \<Longrightarrow> (\<And>x. v = Some x \<Longrightarrow> runs I (n x)) \<Longrightarrow> runs I (case v of None \<Rightarrow> m | Some x \<Rightarrow> n x)"
  by (cases v) simp_all

lemma runs_case_prod [runs_intros]: "(\<And>x y. v = (x, y) \<Longrightarrow> runs I (m x y)) \<Longrightarrow> runs I (case v of (x, y) \<Rightarrow> m x y)"
  by (cases v) simp

lemma runs_case_sum [runs_intros]:
  "(\<And>x. v = Inl x \<Longrightarrow> runs I (m x)) \<Longrightarrow> (\<And>y. v = Inr y \<Longrightarrow> runs I (n y)) \<Longrightarrow>
     runs I (case v of Inl x \<Rightarrow> m x | Inr y \<Rightarrow> n y)"
  by (cases v) simp_all

lemma runs_case_list [runs_intros]:
  "(v = [] \<Longrightarrow> runs I m) \<Longrightarrow> (\<And>x xs. v = x # xs \<Longrightarrow> runs I (n x xs)) \<Longrightarrow>
     runs I (case v of [] \<Rightarrow> m | x # xs \<Rightarrow> n x xs)"
  by (cases v) simp_all

lemma runs_each [runs_intros]: "(\<And>x. x \<in> set xs \<Longrightarrow> runs I (f x)) \<Longrightarrow> runs I (each f xs)"
  by (intro runsI wp_each) (auto simp: runs_def)

lemma runs_expect [runs_intros]: "runs I m \<Longrightarrow> runs I (expect m)"
  by (simp add: runs_def wp_expect)

text \<open>The rules for \<open>keeps\<close>, where an error is allowed.\<close>

named_theorems keeps_intros

lemma keeps_raise [keeps_intros]: "keeps I (raise (Err e))"
  by (simp add: keeps_def wp_simps)

lemma keeps_ask [keeps_intros]: "keeps I (ask f)"
  by (simp add: keeps_def wp_simps split: sum.splits)

lemma keeps_liftr [keeps_intros]: "keeps I (liftr r)"
  by (simp add: liftr_def keeps_ask)

lemma keeps_if [keeps_intros]: "(c \<Longrightarrow> keeps I m) \<Longrightarrow> (\<not> c \<Longrightarrow> keeps I n) \<Longrightarrow> keeps I (if c then m else n)"
  by simp

lemma keeps_let [keeps_intros]: "keeps I (f x) \<Longrightarrow> keeps I (Let x f)"
  by simp

lemma keeps_case_option [keeps_intros]:
  "(v = None \<Longrightarrow> keeps I m) \<Longrightarrow> (\<And>x. v = Some x \<Longrightarrow> keeps I (n x)) \<Longrightarrow> keeps I (case v of None \<Rightarrow> m | Some x \<Rightarrow> n x)"
  by (cases v) simp_all

lemma keeps_case_prod [keeps_intros]: "(\<And>x y. v = (x, y) \<Longrightarrow> keeps I (m x y)) \<Longrightarrow> keeps I (case v of (x, y) \<Rightarrow> m x y)"
  by (cases v) simp

lemma keeps_case_sum [keeps_intros]:
  "(\<And>x. v = Inl x \<Longrightarrow> keeps I (m x)) \<Longrightarrow> (\<And>y. v = Inr y \<Longrightarrow> keeps I (n y)) \<Longrightarrow>
     keeps I (case v of Inl x \<Rightarrow> m x | Inr y \<Rightarrow> n y)"
  by (cases v) simp_all

lemma keeps_expect [keeps_intros]: "runs I m \<Longrightarrow> keeps I (expect m)"
  by (intro runs_keeps runs_expect)

lemma keeps_ret [keeps_intros]: "keeps I (ret x)"
  by (intro runs_keeps runs_ret)

lemma keeps_gets [keeps_intros]: "keeps I (gets f)"
  by (intro runs_keeps runs_gets)

lemma keeps_modify [keeps_intros]: "(\<And>s. I s \<Longrightarrow> I (f s)) \<Longrightarrow> keeps I (modify f)"
  by (intro runs_keeps runs_modify)

lemma keeps_act [keeps_intros]: "(\<And>s. I s \<Longrightarrow> I (snd (f s))) \<Longrightarrow> keeps I (act f)"
  by (intro runs_keeps runs_act)

lemma keeps_guarded [keeps_intros]: "(c \<Longrightarrow> keeps I m) \<Longrightarrow> keeps I (guarded c m)"
  by (simp add: guarded_def keeps_ret)

lemma keeps_case_list [keeps_intros]:
  "(v = [] \<Longrightarrow> keeps I m) \<Longrightarrow> (\<And>x xs. v = x # xs \<Longrightarrow> keeps I (n x xs)) \<Longrightarrow>
     keeps I (case v of [] \<Rightarrow> m | x # xs \<Rightarrow> n x xs)"
  by (cases v) simp_all

declare keeps_bnd [keeps_intros] keeps_each [keeps_intros]

end
