(* ===== verification/Ring_Buffer.thy ===== *)
theory Ring_Buffer
  imports Prelude
begin

text \<open>
  The ring buffer of the engine (\<open>native/vendor/smoltcp/src/storage/ring_buffer.rs\<close>), which holds
  the stream data of every TCP socket and, through \<open>packet_buffer.rs\<close>, the datagrams of every UDP
  socket.

  A buffer is its storage, the index of the first element and the number of elements. An operation
  that hands a slice of the storage to a closure takes a function that returns the size, the slice
  as the closure leaves it and the closure's result. \<open>contents\<close> is the queue a buffer stands for.
  The locale \<open>stream_queue\<close> states the promise of a bounded first-in first-out byte stream, and the
  ring buffer is shown to keep it.
\<close>

section \<open>Definitions\<close>

record 'a RingBuffer =
  storage :: "'a list"
  read_at :: nat
  rb_length :: nat

definition RingBuffer_new :: "'a list \<Rightarrow> 'a RingBuffer" where
  "RingBuffer_new s = \<lparr>storage = s, read_at = 0, rb_length = 0\<rparr>"

definition rb_clear :: "'a RingBuffer \<Rightarrow> 'a RingBuffer" where
  "rb_clear b = b\<lparr>read_at := 0, rb_length := 0\<rparr>"

definition capacity :: "'a RingBuffer \<Rightarrow> nat" where
  "capacity b = length (storage b)"

definition window :: "'a RingBuffer \<Rightarrow> nat" where
  "window b = capacity b - rb_length b"

definition get_idx :: "'a RingBuffer \<Rightarrow> nat \<Rightarrow> nat" where
  "get_idx b idx = (if 0 < capacity b then (read_at b + idx) mod capacity b else 0)"

definition get_idx_unchecked :: "'a RingBuffer \<Rightarrow> nat \<Rightarrow> nat" where
  "get_idx_unchecked b idx = (read_at b + idx) mod capacity b"

definition contiguous_window :: "'a RingBuffer \<Rightarrow> nat" where
  "contiguous_window b = min (window b) (capacity b - get_idx b (rb_length b))"

definition rb_is_empty :: "'a RingBuffer \<Rightarrow> bool" where
  "rb_is_empty b \<longleftrightarrow> rb_length b = 0"

definition rb_is_full :: "'a RingBuffer \<Rightarrow> bool" where
  "rb_is_full b \<longleftrightarrow> window b = 0"

text \<open>The discrete interface: \<open>None\<close> is \<open>Err(Full)\<close> or \<open>Err(Empty)\<close>. The closure returns the element
  as it leaves it, and whether it succeeded.\<close>

definition enqueue_one_with :: "('a \<Rightarrow> 'a \<times> ('e + 'r)) \<Rightarrow> 'a RingBuffer \<Rightarrow> (('e + 'r) option) \<times> 'a RingBuffer" where
  "enqueue_one_with f b =
     (if rb_is_full b then (None, b)
      else
        let index = get_idx_unchecked b (rb_length b);
            (x, res) = f (storage b ! index);
            b = b\<lparr>storage := (storage b)[index := x]\<rparr>
        in (Some res, case res of Inl _ \<Rightarrow> b | Inr _ \<Rightarrow> b\<lparr>rb_length := rb_length b + 1\<rparr>))"

definition dequeue_one_with :: "('a \<Rightarrow> 'a \<times> ('e + 'r)) \<Rightarrow> 'a RingBuffer \<Rightarrow> (('e + 'r) option) \<times> 'a RingBuffer" where
  "dequeue_one_with f b =
     (if rb_is_empty b then (None, b)
      else
        let next_at = get_idx_unchecked b 1;
            (x, res) = f (storage b ! read_at b);
            b = b\<lparr>storage := (storage b)[read_at b := x]\<rparr>
        in (Some res,
            case res of Inl _ \<Rightarrow> b | Inr _ \<Rightarrow> b\<lparr>rb_length := rb_length b - 1, read_at := next_at\<rparr>))"

text \<open>A slice of the storage, and the storage with the slice replaced.\<close>

definition slice :: "nat \<Rightarrow> nat \<Rightarrow> 'a list \<Rightarrow> 'a list" where
  "slice i n xs = take n (drop i xs)"

definition put_slice :: "nat \<Rightarrow> 'a list \<Rightarrow> 'a list \<Rightarrow> 'a list" where
  "put_slice i ys xs = take i xs @ ys @ drop (i + length ys) xs"

text \<open>The continuous interface.\<close>

definition rewind :: "'a RingBuffer \<Rightarrow> 'a RingBuffer" where
  "rewind b = (if rb_length b = 0 then b\<lparr>read_at := 0\<rparr> else b)"

text \<open>The function given to \<open>enqueue_many_with\<close> or \<open>dequeue_many_with\<close> answers how many elements of the slice it
  used. The code asserts that these are at most the slice; \<open>copies_fit\<close> shows it of the functions in use.\<close>

definition enqueue_many_with ::
    "('a list \<Rightarrow> nat \<times> 'a list \<times> 'r) \<Rightarrow> 'a RingBuffer \<Rightarrow> (nat \<times> 'r) \<times> 'a RingBuffer" where
  "enqueue_many_with f b =
     (let b = rewind b;
          write_at = get_idx b (rb_length b);
          max_size = contiguous_window b;
          (sz, ys, result) = f (slice write_at max_size (storage b))
      in ((sz, result),
          b\<lparr>storage := put_slice write_at ys (storage b), rb_length := rb_length b + sz\<rparr>))"

definition copy_in :: "'a list \<Rightarrow> 'a list \<Rightarrow> nat \<times> 'a list \<times> 'a list" where
  "copy_in data buf =
     (let sz = min (length buf) (length data)
      in (sz, take sz data @ drop sz buf, drop sz data))"

definition enqueue_many :: "nat \<Rightarrow> 'a RingBuffer \<Rightarrow> nat \<times> 'a RingBuffer" where
  "enqueue_many sz b =
     (let ((n, _), b) = enqueue_many_with (\<lambda>buf. (min sz (length buf), buf, ())) b in (n, b))"

definition enqueue_slice :: "'a list \<Rightarrow> 'a RingBuffer \<Rightarrow> nat \<times> 'a RingBuffer" where
  "enqueue_slice data b =
     (let ((size_1, rest), b) = enqueue_many_with (copy_in data) b;
          ((size_2, _), b) = enqueue_many_with (copy_in rest) b
      in (size_1 + size_2, b))"

definition dequeue_many_with ::
    "('a list \<Rightarrow> nat \<times> 'a list \<times> 'r) \<Rightarrow> 'a RingBuffer \<Rightarrow> (nat \<times> 'r) \<times> 'a RingBuffer" where
  "dequeue_many_with f b =
     (let cap = capacity b;
          max_size = min (rb_length b) (cap - read_at b);
          (sz, ys, result) = f (slice (read_at b) max_size (storage b))
      in ((sz, result),
          b\<lparr>storage := put_slice (read_at b) ys (storage b),
            read_at := (if 0 < cap then (read_at b + sz) mod cap else 0),
            rb_length := rb_length b - sz\<rparr>))"

definition copy_out :: "nat \<Rightarrow> 'a list \<Rightarrow> nat \<times> 'a list \<times> 'a list" where
  "copy_out room buf = (let sz = min (length buf) room in (sz, buf, take sz buf))"

definition dequeue_many :: "nat \<Rightarrow> 'a RingBuffer \<Rightarrow> 'a list \<times> 'a RingBuffer" where
  "dequeue_many sz b = (let ((_, xs), b) = dequeue_many_with (copy_out sz) b in (xs, b))"

text \<open>\<open>dequeue_slice\<close> fills a slice of \<open>n\<close> elements; the result is what it wrote there.\<close>

definition dequeue_slice :: "nat \<Rightarrow> 'a RingBuffer \<Rightarrow> 'a list \<times> 'a RingBuffer" where
  "dequeue_slice n b =
     (let ((size_1, xs), b) = dequeue_many_with (copy_out n) b;
          ((size_2, ys), b) = dequeue_many_with (copy_out (n - size_1)) b
      in (xs @ ys, b))"

text \<open>The random access interface. A view is the start index and the size of a slice.\<close>

definition get_unallocated :: "nat \<Rightarrow> nat \<Rightarrow> 'a RingBuffer \<Rightarrow> nat \<times> nat" where
  "get_unallocated offset sz b =
     (let start_at = get_idx b (rb_length b + offset)
      in if window b < offset then (start_at, 0)
         else (start_at, min (min sz (window b - offset)) (capacity b - start_at)))"

definition write_unallocated :: "nat \<Rightarrow> 'a list \<Rightarrow> 'a RingBuffer \<Rightarrow> nat \<times> 'a RingBuffer" where
  "write_unallocated offset data b =
     (let (at_1, n_1) = get_unallocated offset (length data) b;
          b = b\<lparr>storage := put_slice at_1 (take n_1 data) (storage b)\<rparr>;
          rest = drop n_1 data;
          (at_2, n_2) = get_unallocated (offset + n_1) (length rest) b;
          b = b\<lparr>storage := put_slice at_2 (take n_2 rest) (storage b)\<rparr>
      in (n_1 + n_2, b))"

text \<open>The assertion fails when the count exceeds the window.\<close>

definition enqueue_unallocated :: "nat \<Rightarrow> 'a RingBuffer \<Rightarrow> 'a RingBuffer option" where
  "enqueue_unallocated count b =
     (if count \<le> window b then Some (b\<lparr>rb_length := rb_length b + count\<rparr>) else None)"

definition get_allocated :: "nat \<Rightarrow> nat \<Rightarrow> 'a RingBuffer \<Rightarrow> 'a list" where
  "get_allocated offset sz b =
     (let start_at = get_idx b offset
      in if rb_length b < offset then []
         else slice start_at (min (min sz (rb_length b - offset)) (capacity b - start_at)) (storage b))"

definition read_allocated :: "nat \<Rightarrow> nat \<Rightarrow> 'a RingBuffer \<Rightarrow> 'a list" where
  "read_allocated offset n b =
     (let xs = get_allocated offset n b;
          ys = get_allocated (offset + length xs) (n - length xs) b
      in xs @ ys)"

definition dequeue_allocated :: "nat \<Rightarrow> 'a RingBuffer \<Rightarrow> 'a RingBuffer option" where
  "dequeue_allocated count b =
     (if count \<le> rb_length b
      then Some (b\<lparr>rb_length := rb_length b - count, read_at := get_idx b count\<rparr>) else None)"

text \<open>The queue a buffer stands for, and its invariant.\<close>

definition slot :: "'a RingBuffer \<Rightarrow> nat \<Rightarrow> 'a" where
  "slot b k = storage b ! get_idx b k"

definition contents :: "'a RingBuffer \<Rightarrow> 'a list" where
  "contents b = map (slot b) [0..<rb_length b]"

definition ring_wf :: "'a RingBuffer \<Rightarrow> bool" where
  "ring_wf b \<longleftrightarrow> rb_length b \<le> capacity b \<and> (read_at b < capacity b \<or> read_at b = 0)"

section \<open>Slots and slices\<close>

lemma length_slice [simp]: "i + n \<le> length xs \<Longrightarrow> length (slice i n xs) = n"
  by (simp add: slice_def)

lemma nth_slice [simp]: "k < n \<Longrightarrow> i + n \<le> length xs \<Longrightarrow> slice i n xs ! k = xs ! (i + k)"
  by (simp add: slice_def)

lemma length_put_slice [simp]: "i + length ys \<le> length xs \<Longrightarrow> length (put_slice i ys xs) = length xs"
  by (simp add: put_slice_def)

lemma nth_put_slice:
  "i + length ys \<le> length xs \<Longrightarrow> j < length xs \<Longrightarrow>
     put_slice i ys xs ! j = (if i \<le> j \<and> j < i + length ys then ys ! (j - i) else xs ! j)"
  by (auto simp: put_slice_def nth_append min_def)

lemma put_slice_same: "i + n \<le> length xs \<Longrightarrow> put_slice i (slice i n xs) xs = xs"
  by (rule nth_equalityI) (auto simp: nth_put_slice)

lemma capacity_frame [simp]:
  "capacity (b\<lparr>read_at := r\<rparr>) = capacity b" "capacity (b\<lparr>rb_length := n\<rparr>) = capacity b"
  by (simp_all add: capacity_def)

lemma get_idx_less [simp]: "0 < capacity b \<Longrightarrow> get_idx b k < capacity b"
  by (simp add: get_idx_def)

lemma get_idx_frame [simp]:
  "get_idx (b\<lparr>rb_length := n\<rparr>) k = get_idx b k"
  "length s = length (storage b) \<Longrightarrow> get_idx (b\<lparr>storage := s\<rparr>) k = get_idx b k"
  by (simp_all add: get_idx_def capacity_def)

lemma get_idx_inj:
  assumes "j < capacity b" and "k < capacity b" and "get_idx b j = get_idx b k"
  shows "j = k"
proof -
  have *: "x = y" if "x \<le> y" and "y < c" and "(r + x) mod c = (r + y) mod c" for x y r c :: nat
  proof -
    have "c dvd (r + y) - (r + x)"
      using that(3) by (metis mod_eq_dvd_iff_nat add_le_cancel_left that(1))
    then have "c dvd y - x" by simp
    then show ?thesis using that(1,2) by (auto dest: dvd_imp_le)
  qed
  show ?thesis
    using assms * [of j k "capacity b" "read_at b"] * [of k j "capacity b" "read_at b"]
    by (cases "j \<le> k") (auto simp: get_idx_def split: if_splits)
qed

lemma get_idx_add:
  assumes "get_idx b i + k < capacity b"
  shows "get_idx b (i + k) = get_idx b i + k"
proof -
  have "(read_at b + (i + k)) mod capacity b = ((read_at b + i) mod capacity b + k) mod capacity b"
    by (simp add: mod_simps add.assoc)
  then show ?thesis
    using assms by (auto simp: get_idx_def split: if_splits)
qed

lemma length_contents [simp]: "length (contents b) = rb_length b"
  by (simp add: contents_def)

lemma nth_contents [simp]: "k < rb_length b \<Longrightarrow> contents b ! k = slot b k"
  by (simp add: contents_def)

lemma contents_eqI:
  assumes "rb_length b = length xs" and "\<And>k. k < length xs \<Longrightarrow> slot b k = xs ! k"
  shows "contents b = xs"
  using assms by (intro nth_equalityI) auto

section \<open>Enqueueing\<close>

lemma rewind_props [simp]:
  "contents (rewind b) = contents b" "capacity (rewind b) = capacity b" "rb_length (rewind b) = rb_length b"
  "window (rewind b) = window b" "ring_wf b \<Longrightarrow> ring_wf (rewind b)"
  by (auto simp: rewind_def contents_def ring_wf_def window_def)

lemma contiguous_in_range:
  assumes "ring_wf b"
  shows "get_idx b (rb_length b) + contiguous_window b \<le> capacity b"
    and "rb_length b + contiguous_window b \<le> capacity b"
proof -
  have "get_idx b (rb_length b) \<le> capacity b"
    by (cases "0 < capacity b") (simp_all add: less_imp_le get_idx_def)
  moreover have "contiguous_window b \<le> capacity b - get_idx b (rb_length b)"
    by (simp add: contiguous_window_def)
  ultimately show "get_idx b (rb_length b) + contiguous_window b \<le> capacity b" by simp
  have "contiguous_window b \<le> window b" by (simp add: contiguous_window_def)
  then show "rb_length b + contiguous_window b \<le> capacity b"
    using assms unfolding ring_wf_def window_def by linarith
qed

text \<open>Writing a slice that does not wrap changes exactly the slots it covers.\<close>

lemma slot_put:
  assumes "p + length ys \<le> capacity b" and "get_idx b p + length ys \<le> capacity b" and k: "k < capacity b"
  shows "slot (b\<lparr>storage := put_slice (get_idx b p) ys (storage b)\<rparr>) k =
    (if p \<le> k \<and> k < p + length ys then ys ! (k - p) else slot b k)"
proof -
  let ?w = "get_idx b p"
  have in_store: "get_idx b k < length (storage b)"
    unfolding capacity_def [symmetric] using k by (intro get_idx_less) simp
  have store: "slot (b\<lparr>storage := put_slice ?w ys (storage b)\<rparr>) k = put_slice ?w ys (storage b) ! get_idx b k"
    using assms(2) by (simp add: slot_def capacity_def)
  have at: "get_idx b (p + j) = ?w + j" if "j < length ys" for j
    using that assms(2) by (intro get_idx_add) simp
  have covered: "?w \<le> get_idx b k \<and> get_idx b k < ?w + length ys \<longleftrightarrow> p \<le> k \<and> k < p + length ys"
  proof
    assume "?w \<le> get_idx b k \<and> get_idx b k < ?w + length ys"
    then obtain j where j: "get_idx b k = ?w + j" "j < length ys"
      by (metis add_less_cancel_left le_add_diff_inverse)
    then have "p + j = k"
      using at [OF j(2)] get_idx_inj [of "p + j" b k] k assms(1) by simp
    then show "p \<le> k \<and> k < p + length ys" using j(2) by simp
  next
    assume "p \<le> k \<and> k < p + length ys"
    then show "?w \<le> get_idx b k \<and> get_idx b k < ?w + length ys"
      using at [of "k - p"] by auto
  qed
  have "get_idx b k - ?w = k - p" if "p \<le> k \<and> k < p + length ys"
    using that at [of "k - p"] by auto
  then show ?thesis
    using covered assms(2) in_store unfolding store by (auto simp: nth_put_slice slot_def capacity_def)
qed

lemma ring_wf_put:
  assumes "ring_wf b" and "i + length ys \<le> capacity b"
  shows "capacity (b\<lparr>storage := put_slice i ys (storage b)\<rparr>) = capacity b"
    and "ring_wf (b\<lparr>storage := put_slice i ys (storage b)\<rparr>)"
  using assms by (simp_all add: capacity_def ring_wf_def)

lemma slot_frame [simp]: "slot (b\<lparr>rb_length := n\<rparr>) k = slot b k"
  by (simp add: slot_def)

text \<open>Writing a slice at the tail and counting its first elements appends them.\<close>

lemma contents_append_slice:
  assumes wf: "ring_wf b" and len: "length ys \<le> contiguous_window b" and n: "n \<le> length ys"
  defines "b' \<equiv> b\<lparr>storage := put_slice (get_idx b (rb_length b)) ys (storage b), rb_length := rb_length b + n\<rparr>"
  shows "ring_wf b'" and "capacity b' = capacity b" and "contents b' = contents b @ take n ys"
proof -
  have rng: "get_idx b (rb_length b) + length ys \<le> capacity b" "rb_length b + length ys \<le> capacity b"
    using contiguous_in_range [OF wf] len by auto
  note put = ring_wf_put [OF wf rng(1)]
  show cap: "capacity b' = capacity b"
    unfolding b'_def capacity_frame by (rule put)
  show "ring_wf b'"
    using put(2) rng(2) n cap by (auto simp: ring_wf_def b'_def)
  show "contents b' = contents b @ take n ys"
  proof (rule contents_eqI)
    show "rb_length b' = length (contents b @ take n ys)"
      using n by (simp add: b'_def)
    fix k assume k: "k < length (contents b @ take n ys)"
    then have "k < capacity b" using rng(2) n by simp
    then show "slot b' k = (contents b @ take n ys) ! k"
      using slot_put [OF rng(2,1), of k] k n by (auto simp: b'_def nth_append)
  qed
qed

lemma copies_fit:
  "fst (copy_in data buf) \<le> length buf" "fst (copy_out n buf) \<le> length buf"
  "fst ((\<lambda>buf. (min sz (length buf), buf, ())) buf) \<le> length buf"
  by (simp_all add: copy_in_def copy_out_def Let_def)

lemma enqueue_many_with_copy:
  assumes wf: "ring_wf b" and run: "enqueue_many_with (copy_in data) b = ((n, rest), b')"
  shows "ring_wf b'" and "capacity b' = capacity b" and "contents b' = contents b @ take n data"
    and "rest = drop n data" and "n = min (contiguous_window (rewind b)) (length data)"
    and "b' = (rewind b)\<lparr>storage := storage b', rb_length := rb_length b + n\<rparr>"
proof -
  let ?b = "rewind b"
  let ?w = "get_idx ?b (rb_length ?b)"
  let ?m = "contiguous_window ?b"
  have wf0: "ring_wf ?b" using wf by simp
  have sl: "length (slice ?w ?m (storage ?b)) = ?m"
    using contiguous_in_range(1) [OF wf0] by (simp add: capacity_def)
  have n: "n = min ?m (length data)" and rest: "rest = drop n data"
    and b': "b' = ?b\<lparr>storage := put_slice ?w (take n data @ drop n (slice ?w ?m (storage ?b))) (storage ?b),
                rb_length := rb_length ?b + n\<rparr>"
    using run sl by (auto simp: enqueue_many_with_def copy_in_def Let_def)
  let ?ys = "take n data @ drop n (slice ?w ?m (storage ?b))"
  have ys: "length ?ys = ?m" using n sl by simp
  note app = contents_append_slice [OF wf0, of ?ys n, folded b']
  show "ring_wf b'" and "capacity b' = capacity b" and "contents b' = contents b @ take n data"
    using app ys n by simp_all
  show "rest = drop n data" "n = min ?m (length data)" using n rest by simp_all
  show "b' = ?b\<lparr>storage := storage b', rb_length := rb_length b + n\<rparr>"
    by (simp add: b')
qed

lemma window_contents: "ring_wf b \<Longrightarrow> window b + length (contents b) = capacity b"
  by (simp add: window_def ring_wf_def)

lemma contiguous_window_le: "contiguous_window b \<le> window b"
  by (simp add: contiguous_window_def)

lemma contiguous_window_at_start:
  assumes "get_idx b (rb_length b) = 0"
  shows "contiguous_window (rewind b) = window b"
proof (cases "rb_length b = 0")
  case True
  then have "get_idx (rewind b) (rb_length b) = 0" by (simp add: rewind_def get_idx_def)
  then show ?thesis by (simp add: contiguous_window_def window_def)
next
  case False
  then show ?thesis using assms by (simp add: contiguous_window_def window_def rewind_def)
qed

text \<open>When a first copy stops at the end of the storage, the tail is at its start.\<close>

lemma wrapped_tail:
  assumes "n = contiguous_window b" and "n \<noteq> window b"
  shows "get_idx b (rb_length b + n) = 0"
proof -
  let ?w = "get_idx b (rb_length b)"
  have n: "n = capacity b - ?w" and pos: "0 < capacity b"
    using assms by (auto simp: contiguous_window_def min_def window_def split: if_splits)
  then have "?w + n = capacity b" using get_idx_less [OF pos] by (simp add: less_imp_le)
  moreover have "get_idx b (rb_length b + n) = (?w + n) mod capacity b"
    using pos by (simp add: get_idx_def mod_simps add.assoc)
  ultimately show ?thesis by simp
qed

lemma enqueue_slice_spec:
  assumes wf: "ring_wf b" and run: "enqueue_slice data b = (n, b')"
  shows "ring_wf b'" and "capacity b' = capacity b" and "n = min (window b) (length data)"
    and "contents b' = contents b @ take n data"
proof -
  obtain n1 rest b1 where r1: "enqueue_many_with (copy_in data) b = ((n1, rest), b1)"
    by (metis prod.collapse)
  obtain n2 rest2 b2 where r2: "enqueue_many_with (copy_in rest) b1 = ((n2, rest2), b2)"
    by (metis prod.collapse)
  have res: "n = n1 + n2" "b' = b2"
    using run by (simp_all add: enqueue_slice_def r1 r2)
  note s1 = enqueue_many_with_copy [OF wf r1]
  note s2 = enqueue_many_with_copy [OF s1(1) r2]
  have n1: "n1 \<le> length data" "n1 \<le> window b"
    using s1(5) contiguous_window_le [of "rewind b"] by simp_all
  have w1: "window b1 = window b - n1"
    using window_contents [OF wf] window_contents [OF s1(1)] s1(2,3) n1 by simp
  have "n2 = min (window b1) (length rest)"
  proof (cases "n1 = length data \<or> n1 = window b")
    case True
    then show ?thesis
      using s2(5) contiguous_window_le [of "rewind b1"] w1 s1(4) by auto
  next
    case False
    then have "n1 = contiguous_window (rewind b)" "n1 \<noteq> window (rewind b)"
      using s1(5) by (auto simp: min_def split: if_splits)
    then have "get_idx (rewind b) (rb_length b + n1) = 0"
      using wrapped_tail [of n1 "rewind b"] by simp
    moreover have "read_at b1 = read_at (rewind b)" and "rb_length b1 = rb_length b + n1"
      by (subst s1(6), simp)+
    then have "get_idx b1 (rb_length b1) = get_idx (rewind b) (rb_length b + n1)"
      using s1(2) by (simp add: get_idx_def)
    ultimately show ?thesis
      using s2(5) contiguous_window_at_start [of b1] by simp
  qed
  then have "n = min (window b) (length data)"
    using res s1(4) n1 w1 by (auto simp: min_def)
  then show "n = min (window b) (length data)" .
  show "ring_wf b'" "capacity b' = capacity b" using s1 s2 res by simp_all
  show "contents b' = contents b @ take n data"
    using s1(3,4) s2(3) res by (simp add: take_add)
qed

section \<open>Dequeueing\<close>

lemma ring_wf_read: "ring_wf b \<Longrightarrow> read_at b \<le> capacity b"
  by (auto simp: ring_wf_def)

lemma slot_head:
  assumes "ring_wf b" and "k < min (rb_length b) (capacity b - read_at b)"
  shows "slot b k = storage b ! (read_at b + k)"
  using assms by (auto simp: slot_def get_idx_def)

lemma dequeue_many_with_copy:
  assumes wf: "ring_wf b" and run: "dequeue_many_with (copy_out m) b = ((n, xs), b')"
  shows "ring_wf b'" and "capacity b' = capacity b"
    and "n = min (min (rb_length b) (capacity b - read_at b)) m"
    and "xs = take n (contents b)" and "contents b' = drop n (contents b)"
    and "storage b' = storage b" and "get_idx b' k = get_idx b (n + k)"
proof -
  let ?m = "min (rb_length b) (capacity b - read_at b)"
  have rng: "read_at b + ?m \<le> length (storage b)"
    using ring_wf_read [OF wf] by (auto simp: capacity_def)
  have n: "n = min ?m m" and xs: "xs = take n (slice (read_at b) ?m (storage b))"
    and b': "b' = b\<lparr>storage := storage b, read_at := (if 0 < capacity b then (read_at b + n) mod capacity b else 0),
               rb_length := rb_length b - n\<rparr>"
    using run rng by (auto simp: dequeue_many_with_def copy_out_def Let_def put_slice_same capacity_def)
  show "n = min ?m m" and "storage b' = storage b" using n b' by simp_all
  show cap: "capacity b' = capacity b" using b' by (simp add: capacity_def)
  have nl: "n \<le> rb_length b" using n by simp
  show "ring_wf b'"
    using wf nl unfolding ring_wf_def cap by (auto simp: b')
  show idx: "get_idx b' k = get_idx b (n + k)" for k
    using cap by (auto simp: get_idx_def b' mod_simps add.assoc)
  show "xs = take n (contents b)"
    using n rng wf by (intro nth_equalityI) (auto simp: xs slot_head)
  show "contents b' = drop n (contents b)"
  proof (rule contents_eqI)
    have rl: "rb_length b' = rb_length b - n" and st: "storage b' = storage b" by (simp_all add: b')
    then show "rb_length b' = length (drop n (contents b))" by simp
    fix k assume "k < length (drop n (contents b))"
    then show "slot b' k = drop n (contents b) ! k"
      by (simp add: slot_def idx st)
  qed
qed

lemma dequeue_slice_spec:
  assumes wf: "ring_wf b" and run: "dequeue_slice m b = (xs, b')"
  shows "ring_wf b'" and "capacity b' = capacity b" and "xs = take m (contents b)"
    and "contents b' = drop m (contents b)"
proof -
  obtain n1 ys b1 where r1: "dequeue_many_with (copy_out m) b = ((n1, ys), b1)"
    by (metis prod.collapse)
  obtain n2 zs b2 where r2: "dequeue_many_with (copy_out (m - n1)) b1 = ((n2, zs), b2)"
    by (metis prod.collapse)
  have res: "xs = ys @ zs" "b' = b2"
    using run by (simp_all add: dequeue_slice_def r1 r2)
  note s1 = dequeue_many_with_copy [OF wf r1]
  note s2 = dequeue_many_with_copy [OF s1(1) r2]
  have len1: "rb_length b1 = rb_length b - n1" "n1 \<le> rb_length b" "n1 \<le> m"
    using s1(3) arg_cong [OF s1(5), of length] by (auto simp: min.coboundedI1)
  have "n1 + n2 = min (rb_length b) m"
  proof (cases "n1 = rb_length b \<or> n1 = m")
    case True
    then show ?thesis using s2(3) len1 by auto
  next
    case False
    then have "n1 = capacity b - read_at b" and lt: "n1 < m" "n1 < rb_length b"
      using s1(3) len1 by (auto simp: min_def split: if_splits)
    then have "get_idx b n1 = 0"
      using ring_wf_read [OF wf] by (simp add: get_idx_def)
    then have "get_idx b1 0 = 0" using s1(7) [of 0] by simp
    then have "read_at b1 = 0"
      using s1(1) by (auto simp: get_idx_def ring_wf_def split: if_splits)
    then show ?thesis
      using s2(3) len1 s1(1) by (auto simp: ring_wf_def min_def)
  qed
  then have total: "n1 + n2 = min (length (contents b)) m" by simp
  have cut: "take (min (length ys) k) ys = take k ys" "drop (min (length ys) k) ys = drop k ys" for ys :: "'a list" and k
    by (cases "length ys \<le> k"; simp add: min_def)+
  show "ring_wf b'" "capacity b' = capacity b" using s1(1,2) s2(1,2) res by simp_all
  have "xs = take (n1 + n2) (contents b)"
    by (simp only: res(1) s1(4,5) s2(4) take_add)
  then show "xs = take m (contents b)"
    by (simp only: total cut)
  have "contents b' = drop (n1 + n2) (contents b)"
    by (simp only: res(2) s1(5) s2(5) drop_drop add.commute)
  then show "contents b' = drop m (contents b)"
    by (simp only: total cut)
qed

section \<open>Random access\<close>

lemma get_allocated_spec:
  assumes wf: "ring_wf b"
  shows "get_allocated offset m b = take (min m (capacity b - get_idx b offset)) (drop offset (contents b))"
proof (cases "rb_length b < offset")
  case True
  then show ?thesis by (simp add: get_allocated_def Let_def)
next
  case False
  define n where "n = min (min m (rb_length b - offset)) (capacity b - get_idx b offset)"
  have le: "get_idx b offset \<le> capacity b"
    by (cases "0 < capacity b") (simp_all add: less_imp_le get_idx_def)
  then have rng: "get_idx b offset + n \<le> length (storage b)"
    by (simp add: n_def capacity_def)
  have "get_allocated offset m b = slice (get_idx b offset) n (storage b)"
    using False by (simp add: get_allocated_def Let_def n_def)
  also have "\<dots> = take n (drop offset (contents b))"
  proof (rule nth_equalityI)
    show "length (slice (get_idx b offset) n (storage b)) = length (take n (drop offset (contents b)))"
      using rng False by (simp add: n_def)
    fix k assume "k < length (slice (get_idx b offset) n (storage b))"
    then have k: "k < n" using rng by simp
    then have "get_idx b (offset + k) = get_idx b offset + k"
      using rng by (intro get_idx_add) (simp add: capacity_def)
    moreover have "offset + k < rb_length b" using k False unfolding n_def by linarith
    ultimately show "slice (get_idx b offset) n (storage b) ! k = take n (drop offset (contents b)) ! k"
      using k rng by (simp add: slot_def)
  qed
  also have "\<dots> = take (min m (capacity b - get_idx b offset)) (drop offset (contents b))"
    by (rule nth_equalityI) (auto simp: n_def)
  finally show ?thesis .
qed

lemma read_allocated_spec:
  assumes wf: "ring_wf b"
  shows "read_allocated offset m b = take m (drop offset (contents b))"
proof -
  define xs where "xs = get_allocated offset m b"
  define c where "c = capacity b - get_idx b offset"
  have xs: "xs = take (min m c) (drop offset (contents b))"
    by (simp add: xs_def c_def get_allocated_spec [OF wf])
  have rest: "get_allocated (offset + length xs) (m - length xs) b =
      take (m - length xs) (drop (offset + length xs) (contents b))"
  proof (cases "length xs = m \<or> rb_length b \<le> offset + length xs")
    case True
    then show ?thesis by (auto simp: get_allocated_spec [OF wf])
  next
    case False
    then have len: "length xs = c" and c: "c < m" "offset + c < rb_length b"
      using xs by (auto simp: min_def split: if_splits)
    then have pos: "0 < capacity b" using wf by (auto simp: ring_wf_def)
    have "get_idx b (offset + c) = (get_idx b offset + c) mod capacity b"
      using pos by (simp add: get_idx_def mod_simps add.assoc)
    also have "\<dots> = 0"
      using get_idx_less [OF pos, of offset] by (simp add: c_def less_imp_le)
    finally have "get_idx b (offset + length xs) = 0" using len by simp
    moreover have "length (drop (offset + length xs) (contents b)) \<le> capacity b"
      using wf by (auto simp: ring_wf_def)
    ultimately show ?thesis
      by (simp add: get_allocated_spec [OF wf] min_def)
  qed
  have "read_allocated offset m b = xs @ take (m - length xs) (drop (length xs) (drop offset (contents b)))"
    using rest by (simp add: read_allocated_def xs_def [symmetric] Let_def add.commute)
  also have "\<dots> = take m (drop offset (contents b))"
  proof -
    have "xs = take (length xs) (drop offset (contents b))" "length xs \<le> m"
      by (simp_all add: xs min_def)
    then show ?thesis by (metis take_add le_add_diff_inverse)
  qed
  finally show ?thesis .
qed

lemma dequeue_allocated_spec:
  assumes "ring_wf b" and "n \<le> length (contents b)"
  shows "\<exists>b'. dequeue_allocated n b = Some b' \<and> ring_wf b' \<and> capacity b' = capacity b \<and>
    contents b' = drop n (contents b)"
proof -
  define b' where "b' = b\<lparr>rb_length := rb_length b - n, read_at := get_idx b n\<rparr>"
  have idx: "get_idx b' k = get_idx b (n + k)" for k
    by (auto simp: b'_def get_idx_def mod_simps add.assoc)
  have "ring_wf b'"
    using assms by (cases "0 < capacity b") (auto simp: b'_def ring_wf_def get_idx_def)
  moreover have "contents b' = drop n (contents b)"
    using assms(2) by (intro contents_eqI) (auto simp: slot_def idx, auto simp: b'_def)
  ultimately show ?thesis
    using assms(2) by (simp add: dequeue_allocated_def b'_def)
qed

text \<open>One write of a view that \<open>get_unallocated\<close> returned.\<close>

lemma write_view:
  assumes wf: "ring_wf b" and off: "offset \<le> window b" and view: "get_unallocated offset (length data) b = (at, n)"
  defines "b' \<equiv> b\<lparr>storage := put_slice at (take n data) (storage b)\<rparr>"
  shows "ring_wf b'" and "capacity b' = capacity b" and "n \<le> length data" and "offset + n \<le> window b"
    and "k < capacity b \<Longrightarrow> slot b' k =
      (if rb_length b + offset \<le> k \<and> k < rb_length b + offset + n then data ! (k - (rb_length b + offset)) else slot b k)"
    and "n = length data \<or> offset + n = window b \<or> get_idx b (rb_length b + offset + n) = 0"
proof -
  let ?p = "rb_length b + offset"
  have at: "at = get_idx b ?p" and n: "n = min (min (length data) (window b - offset)) (capacity b - at)"
    using view off by (auto simp: get_unallocated_def Let_def)
  have at_le: "at \<le> capacity b"
    unfolding at by (cases "0 < capacity b") (simp_all add: less_imp_le get_idx_def)
  show nd: "n \<le> length data" and nw: "offset + n \<le> window b" using n off by auto
  have rng: "?p + length (take n data) \<le> capacity b" "get_idx b ?p + length (take n data) \<le> capacity b"
  proof -
    show "?p + length (take n data) \<le> capacity b"
      using nd nw wf unfolding window_def ring_wf_def by auto
    show "get_idx b ?p + length (take n data) \<le> capacity b"
      using nd at_le unfolding at [symmetric] n by simp
  qed
  show "ring_wf b'" and "capacity b' = capacity b"
    using ring_wf_put [OF wf rng(2)] at by (simp_all add: b'_def)
  show "slot b' k = (if ?p \<le> k \<and> k < ?p + n then data ! (k - ?p) else slot b k)" if "k < capacity b"
    using slot_put [OF rng that] nd unfolding b'_def at by (auto simp: min_absorb2)
  show "n = length data \<or> offset + n = window b \<or> get_idx b (?p + n) = 0"
  proof (cases "n = length data \<or> offset + n = window b")
    case False
    then have eq: "n = capacity b - at" using n off by (auto simp: min_def split: if_splits)
    show ?thesis
    proof (cases "0 < capacity b")
      case True
      have "get_idx b (?p + n) = (at + n) mod capacity b"
        using True by (simp add: at get_idx_def mod_simps add.assoc)
      then show ?thesis using eq at_le by simp
    qed (simp add: get_idx_def)
  qed blast
qed

lemma write_unallocated_spec:
  assumes wf: "ring_wf b" and off: "offset \<le> window b" and run: "write_unallocated offset data b = (n, b')"
  shows "ring_wf b'" and "capacity b' = capacity b" and "rb_length b' = rb_length b"
    and "n = min (length data) (window b - offset)"
    and "k < capacity b \<Longrightarrow> slot b' k =
      (if rb_length b + offset \<le> k \<and> k < rb_length b + offset + n then data ! (k - (rb_length b + offset)) else slot b k)"
proof -
  let ?p = "rb_length b + offset"
  obtain at1 n1 where v1: "get_unallocated offset (length data) b = (at1, n1)" by fastforce
  define b1 where "b1 = b\<lparr>storage := put_slice at1 (take n1 data) (storage b)\<rparr>"
  obtain at2 n2 where v2: "get_unallocated (offset + n1) (length (drop n1 data)) b1 = (at2, n2)" by fastforce
  have res: "n = n1 + n2" "b' = b1\<lparr>storage := put_slice at2 (take n2 (drop n1 data)) (storage b1)\<rparr>"
    using run v1 v2 by (simp_all add: write_unallocated_def Let_def b1_def)
  note w1 = write_view [OF wf off v1, folded b1_def]
  have rl: "rb_length b1 = rb_length b" and win: "window b1 = window b"
    using w1(2) by (simp_all add: b1_def window_def)
  have off2: "offset + n1 \<le> window b1" using w1(4) win by simp
  note w2 = write_view [OF w1(1) off2 v2, folded res(2)]
  show "ring_wf b'" "capacity b' = capacity b" using w2(1,2) w1(2) by simp_all
  show "rb_length b' = rb_length b" by (simp add: res rl)
  have "n2 = min (length data - n1) (window b - (offset + n1))"
  proof (cases "n1 = length data \<or> offset + n1 = window b")
    case True
    then show ?thesis using w2(3,4) win by auto
  next
    case False
    then have "get_idx b (?p + n1) = 0" using w1(6) by simp
    then have "get_idx b1 (rb_length b1 + (offset + n1)) = 0"
      using w1(2) rl unfolding get_idx_def by (simp add: b1_def add.assoc split: if_splits)
    then show ?thesis
      using v2 off2 win w1(2) by (auto simp: get_unallocated_def Let_def window_def)
  qed
  then show n: "n = min (length data) (window b - offset)"
    using res(1) w1(3,4) by (auto simp: min_def)
  show "slot b' k = (if ?p \<le> k \<and> k < ?p + n then data ! (k - ?p) else slot b k)" if "k < capacity b"
    using w1(5) [OF that] w2(5) [of k] that w1(2,3) rl res(1) w2(3) by (auto simp: add.assoc)
qed

text \<open>Segments written in any order: the slots past the queue hold the stream wherever some segment
  covered it.\<close>

definition write_segments :: "(nat \<times> 'a list) list \<Rightarrow> 'a RingBuffer \<Rightarrow> 'a RingBuffer" where
  "write_segments segs b = fold (\<lambda>(offset, data) b. snd (write_unallocated offset data b)) segs b"

definition segment_of :: "'a list \<Rightarrow> nat \<times> 'a list \<Rightarrow> bool" where
  "segment_of str seg \<longleftrightarrow> fst seg \<le> length str \<and> snd seg = take (length (snd seg)) (drop (fst seg) str)"

definition covers :: "(nat \<times> 'a list) list \<Rightarrow> nat \<Rightarrow> bool" where
  "covers segs k \<longleftrightarrow> list_ex (\<lambda>seg. fst seg \<le> k \<and> k < fst seg + length (snd seg)) segs"

lemma covers_simps [simp]:
  "\<not> covers [] k"
  "covers (seg # segs) k \<longleftrightarrow> fst seg \<le> k \<and> k < fst seg + length (snd seg) \<or> covers segs k"
  by (simp_all add: covers_def)

lemma write_segments_spec:
  assumes "ring_wf b" and "list_all (segment_of str) segs" and "length str \<le> window b"
  defines "b' \<equiv> write_segments segs b"
  shows "ring_wf b' \<and> capacity b' = capacity b \<and> rb_length b' = rb_length b \<and>
    (\<forall>k < rb_length b. slot b' k = slot b k) \<and>
    (\<forall>k < window b. slot b' (rb_length b + k) = (if covers segs k then str ! k else slot b (rb_length b + k)))"
  using assms(1-3) unfolding b'_def
proof (induction segs arbitrary: b)
  case Nil
  then show ?case by (simp add: write_segments_def)
next
  case (Cons seg segs)
  obtain off data where seg: "seg = (off, data)" by fastforce
  obtain n b1 where w: "write_unallocated off data b = (n, b1)" by fastforce
  have sg: "off \<le> length str" "data = take (length data) (drop off str)"
    using Cons.prems(2) by (simp_all add: seg segment_of_def)
  have fits: "length data \<le> length str - off" by (subst sg(2)) simp
  have off: "off \<le> window b" using sg(1) Cons.prems(3) by simp
  note s = write_unallocated_spec [OF Cons.prems(1) off w]
  have n: "n = length data" using s(4) fits Cons.prems(3) by simp
  have win: "window b1 = window b" using s(2,3) by (simp add: window_def)
  have capw: "rb_length b + window b = capacity b" using Cons.prems(1) by (simp add: window_def ring_wf_def)
  have slots: "slot b1 (rb_length b + k) = (if off \<le> k \<and> k < off + length data then str ! k else slot b (rb_length b + k))"
    if k: "k < window b" for k
  proof -
    have "data ! (k - off) = str ! k" if "off \<le> k" "k < off + length data"
      using that fits by (subst sg(2)) simp
    then show ?thesis using s(5) [of "rb_length b + k"] k capw n by auto
  qed
  have old: "slot b1 k = slot b k" if "k < rb_length b" for k
    using s(5) [of k] that capw by simp
  have step: "write_segments (seg # segs) b = write_segments segs b1"
    by (simp add: write_segments_def seg w)
  show ?case
    using Cons.IH [OF s(1), folded step] Cons.prems(2,3) win s(2,3) slots old by (auto simp: seg)
qed

section \<open>The discrete interface\<close>

lemma enqueue_one_spec:
  assumes wf: "ring_wf b" and "\<not> rb_is_full b"
    and f: "f (storage b ! get_idx_unchecked b (rb_length b)) = (x, Inr r)"
  shows "fst (enqueue_one_with f b) = Some (Inr r)" and "ring_wf (snd (enqueue_one_with f b))"
    and "capacity (snd (enqueue_one_with f b)) = capacity b"
    and "contents (snd (enqueue_one_with f b)) = contents b @ [x]"
proof -
  let ?w = "get_idx b (rb_length b)"
  have room: "rb_length b < capacity b" using assms(2) by (simp add: rb_is_full_def window_def)
  have idx: "get_idx_unchecked b (rb_length b) = ?w"
    using room by (simp add: get_idx_unchecked_def get_idx_def)
  have w: "?w < length (storage b)" unfolding capacity_def [symmetric] using room by (intro get_idx_less) simp
  have upd: "put_slice ?w [x] (storage b) = (storage b)[?w := x]"
    using w by (simp add: put_slice_def upd_conv_take_nth_drop)
  have run: "enqueue_one_with f b = (Some (Inr r), b\<lparr>storage := put_slice ?w [x] (storage b), rb_length := rb_length b + 1\<rparr>)"
    using assms(2) f by (simp add: enqueue_one_with_def idx upd)
  have "length [x] \<le> contiguous_window b"
    using room w by (auto simp: contiguous_window_def window_def capacity_def)
  from contents_append_slice [OF wf this, of 1]
  show "fst (enqueue_one_with f b) = Some (Inr r)" "ring_wf (snd (enqueue_one_with f b))"
    "capacity (snd (enqueue_one_with f b)) = capacity b" "contents (snd (enqueue_one_with f b)) = contents b @ [x]"
    by (simp_all add: run)
qed

lemma get_idx_0 [simp]: "ring_wf b \<Longrightarrow> get_idx b 0 = read_at b"
  by (auto simp: get_idx_def ring_wf_def)

lemma contents_split:
  assumes "ring_wf b" and "0 < rb_length b"
  shows "contents b = storage b ! read_at b # drop 1 (contents b)"
proof -
  have "contents b ! 0 = storage b ! read_at b" using assms by (simp add: slot_def)
  then show ?thesis using assms(2) Cons_nth_drop_Suc [of 0 "contents b"] by simp
qed

lemma dequeue_one_spec:
  assumes wf: "ring_wf b" and ne: "contents b = x # xs" and f: "f x = (y, Inr r)"
  shows "fst (dequeue_one_with f b) = Some (Inr r)" and "ring_wf (snd (dequeue_one_with f b))"
    and "capacity (snd (dequeue_one_with f b)) = capacity b" and "contents (snd (dequeue_one_with f b)) = xs"
proof -
  have pos: "0 < rb_length b" using ne length_contents [of b] by simp
  have x: "storage b ! read_at b = x" using contents_split [OF wf pos] ne by simp
  have cap: "0 < capacity b" "rb_length b \<le> capacity b" using pos wf by (auto simp: ring_wf_def)
  have r: "read_at b < length (storage b)" using wf cap by (auto simp: ring_wf_def capacity_def)
  let ?b1 = "b\<lparr>storage := put_slice (get_idx b 0) [y] (storage b)\<rparr>"
  let ?b2 = "?b1\<lparr>rb_length := rb_length b - 1, read_at := get_idx b 1\<rparr>"
  have run: "dequeue_one_with f b = (Some (Inr r), ?b2)"
    using pos x f wf r cap(1)
    by (simp add: dequeue_one_with_def rb_is_empty_def Let_def put_slice_def upd_conv_take_nth_drop
        get_idx_unchecked_def get_idx_def capacity_def split: if_splits)
  have rng: "0 + length [y] \<le> capacity b" "get_idx b 0 + length [y] \<le> capacity b"
    using cap wf r by (simp_all add: capacity_def)
  have ix: "get_idx ?b2 k = get_idx b (k + 1)" for k
    using cap r wf by (simp add: get_idx_def capacity_def mod_simps add.commute add.left_commute)
  have c: "contents ?b2 = xs"
  proof (rule contents_eqI)
    show len: "rb_length ?b2 = length xs" using ne length_contents [of b] by simp
    fix k assume k: "k < length xs"
    then have lt: "k + 1 < rb_length b" using len by simp
    have "slot ?b2 k = slot ?b1 (k + 1)"
      unfolding slot_def ix using r wf by simp
    also have "\<dots> = contents b ! (k + 1)"
      using slot_put [OF rng, of "k + 1"] lt cap by simp
    also have "\<dots> = xs ! k" by (simp add: ne)
    finally show "slot ?b2 k = xs ! k" .
  qed
  show "fst (dequeue_one_with f b) = Some (Inr r)" "contents (snd (dequeue_one_with f b)) = xs"
    "capacity (snd (dequeue_one_with f b)) = capacity b" "ring_wf (snd (dequeue_one_with f b))"
    using c ring_wf_put [OF wf rng(2)] cap get_idx_less [OF cap(1), of 1]
    by (auto simp: run ring_wf_def capacity_def)
qed

section \<open>A bounded first-in first-out stream\<close>

text \<open>A run of writes and reads: what the writes reported as accepted, what the reads returned, and
  the queue after it.\<close>

datatype 'a stream_op = Put "'a list" | Take nat

fun stream_run ::
    "('a list \<Rightarrow> 'q \<Rightarrow> nat \<times> 'q) \<Rightarrow> (nat \<Rightarrow> 'q \<Rightarrow> 'a list \<times> 'q) \<Rightarrow>
     'a stream_op list \<Rightarrow> 'q \<Rightarrow> 'a list \<times> 'a list \<times> 'q" where
  "stream_run enq deq [] q = ([], [], q)"
| "stream_run enq deq (Put xs # ops) q =
     (let (n, q) = enq xs q; (acc, out, q) = stream_run enq deq ops q in (take n xs @ acc, out, q))"
| "stream_run enq deq (Take m # ops) q =
     (let (ys, q) = deq m q; (acc, out, q) = stream_run enq deq ops q in (acc, ys @ out, q))"

locale stream_queue =
  fixes invar :: "'q \<Rightarrow> bool"
    and queued :: "'q \<Rightarrow> 'a list"
    and bound :: "'q \<Rightarrow> nat"
    and enq :: "'a list \<Rightarrow> 'q \<Rightarrow> nat \<times> 'q"
    and deq :: "nat \<Rightarrow> 'q \<Rightarrow> 'a list \<times> 'q"
  assumes queued_bound: "invar q \<Longrightarrow> length (queued q) \<le> bound q"
    and enq_law: "invar q \<Longrightarrow> enq xs q = (n, q') \<Longrightarrow>
      invar q' \<and> bound q' = bound q \<and> n = min (bound q - length (queued q)) (length xs) \<and>
      queued q' = queued q @ take n xs"
    and deq_law: "invar q \<Longrightarrow> deq m q = (ys, q') \<Longrightarrow>
      invar q' \<and> bound q' = bound q \<and> ys = take m (queued q) \<and> queued q' = drop m (queued q)"
begin

lemma run_stream:
  assumes "invar q" and "stream_run enq deq ops q = (acc, out, q')"
  shows "invar q' \<and> bound q' = bound q \<and> queued q @ acc = out @ queued q'"
  using assms
proof (induction ops arbitrary: q acc out)
  case (Cons op ops)
  show ?case
  proof (cases op)
    case (Put xs)
    obtain n q1 where e: "enq xs q = (n, q1)" by fastforce
    obtain acc1 where r: "stream_run enq deq ops q1 = (acc1, out, q')" and acc: "acc = take n xs @ acc1"
      using Cons.prems(2) by (auto simp: Put e split: prod.splits)
    show ?thesis using enq_law [OF Cons.prems(1) e] Cons.IH [OF _ r] acc by auto
  next
    case (Take m)
    obtain ys q1 where d: "deq m q = (ys, q1)" by fastforce
    obtain out1 where r: "stream_run enq deq ops q1 = (acc, out1, q')" and out: "out = ys @ out1"
      using Cons.prems(2) by (auto simp: Take d split: prod.splits)
    have law: "invar q1" "bound q1 = bound q" "queued q = ys @ queued q1"
      using deq_law [OF Cons.prems(1) d] by simp_all
    show ?thesis using Cons.IH [OF law(1) r] law out by simp
  qed
qed simp

lemma read_after_write:
  assumes "invar q" and "queued q = []" and "length xs \<le> bound q"
  shows "fst (deq (length xs) (snd (enq xs q))) = xs"
proof -
  obtain n q1 where e: "enq xs q = (n, q1)" by fastforce
  obtain ys q2 where d: "deq (length xs) q1 = (ys, q2)" by fastforce
  show ?thesis
    using enq_law [OF assms(1) e] deq_law [OF _ d] assms(2,3) by (simp add: e d)
qed

end

interpretation rb: stream_queue ring_wf contents capacity enqueue_slice dequeue_slice
proof
  fix b :: "'a RingBuffer" and xs n b'
  assume "ring_wf b" and "enqueue_slice xs b = (n, b')"
  from enqueue_slice_spec [OF this]
  show "ring_wf b' \<and> capacity b' = capacity b \<and> n = min (capacity b - length (contents b)) (length xs) \<and>
      contents b' = contents b @ take n xs"
    by (simp add: window_def)
next
  fix b :: "'a RingBuffer" and m ys b'
  assume "ring_wf b" and "dequeue_slice m b = (ys, b')"
  from dequeue_slice_spec [OF this]
  show "ring_wf b' \<and> capacity b' = capacity b \<and> ys = take m (contents b) \<and> contents b' = drop m (contents b)"
    by simp
qed (simp add: ring_wf_def)

lemma RingBuffer_new_ok [simp]:
  "ring_wf (RingBuffer_new s)" "contents (RingBuffer_new s) = []" "capacity (RingBuffer_new s) = length s"
  by (simp_all add: RingBuffer_new_def ring_wf_def contents_def capacity_def)

lemma rb_clear_ok [simp]:
  "ring_wf (rb_clear b)" "contents (rb_clear b) = []" "capacity (rb_clear b) = capacity b"
  by (simp_all add: rb_clear_def ring_wf_def contents_def)

section \<open>Properties\<close>

text \<open>C33. The ring buffer is a bounded stream. Over every sequence of \<open>enqueue_slice\<close> and
  \<open>dequeue_slice\<close> calls, whatever wraps around the end of the storage, the bytes the reads returned
  followed by the bytes still queued are the bytes queued at the start followed by the bytes the
  writes accepted, in order: nothing is lost, duplicated or reordered. The queue never exceeds the
  capacity, which never changes.\<close>

theorem ring_buffer_stream_integrity:
  assumes "ring_wf b" and "stream_run enqueue_slice dequeue_slice ops b = (acc, out, b')"
  shows "contents b @ acc = out @ contents b' \<and> ring_wf b' \<and>
    capacity b' = capacity b \<and> length (contents b') \<le> capacity b"
  using rb.run_stream [OF assms] rb.queued_bound [of b'] by simp

theorem ring_buffer_stream_integrity_witness:
  "let b = RingBuffer_new [0, 0, 0 :: nat];
       r = stream_run enqueue_slice dequeue_slice [Put [1, 2], Take 1, Put [3, 4], Take 3, Put [5]] b
   in contents b @ fst r = fst (snd r) @ contents (snd (snd r)) \<and> length (contents (snd (snd r))) \<le> 3"
proof -
  define r where "r = stream_run enqueue_slice dequeue_slice
    [Put [1, 2], Take 1, Put [3, 4], Take 3, Put [5]] (RingBuffer_new [0, 0, 0 :: nat])"
  have "r = (fst r, fst (snd r), snd (snd r))" by simp
  from ring_buffer_stream_integrity [OF RingBuffer_new_ok(1) this [unfolded r_def], folded r_def]
  show ?thesis unfolding Let_def r_def [symmetric] by simp
qed

text \<open>C34. Reassembly does not depend on the order of arrival. When segments of one byte stream are
  written past the end of the queue with \<open>write_unallocated\<close>, in any order and with any overlap,
  and together they cover its first bytes, then committing those bytes with \<open>enqueue_unallocated\<close>
  succeeds and appends exactly them to the queue.\<close>

theorem reassembly_in_any_order:
  assumes "ring_wf b" and "list_all (segment_of str) segs" and "length str \<le> window b"
    and "n \<le> length str" and "list_all (covers segs) [0..<n]"
  shows "map_option contents (enqueue_unallocated n (write_segments segs b)) = Some (contents b @ take n str)"
proof -
  let ?b = "write_segments segs b"
  note s = write_segments_spec [OF assms(1-3)]
  have win: "n \<le> window ?b" using s assms(3,4) by (simp add: window_def)
  have "contents (?b\<lparr>rb_length := rb_length b + n\<rparr>) = contents b @ take n str"
  proof (rule contents_eqI)
    show "rb_length (?b\<lparr>rb_length := rb_length b + n\<rparr>) = length (contents b @ take n str)"
      using assms(4) by simp
    fix k assume k: "k < length (contents b @ take n str)"
    show "slot (?b\<lparr>rb_length := rb_length b + n\<rparr>) k = (contents b @ take n str) ! k"
    proof (cases "k < rb_length b")
      case True
      then show ?thesis using s by (simp add: nth_append)
    next
      case False
      then obtain j where j: "k = rb_length b + j" using le_Suc_ex by (metis not_less)
      then have "j < n" using k assms(4) by simp
      then show ?thesis using s j assms(3-5) by (simp add: nth_append list_all_iff)
    qed
  qed
  then show ?thesis using win s by (simp add: enqueue_unallocated_def)
qed

theorem reassembly_in_any_order_witness:
  "map_option contents (enqueue_unallocated 4
     (write_segments [(3, [4]), (1, [2, 3]), (0, [1, 2])] (snd (dequeue_slice 2 (snd (enqueue_slice [7, 8, 9]
        (RingBuffer_new (replicate 6 (0 :: nat))))))))) = Some [9, 1, 2, 3, 4]"
proof -
  define b where "b = snd (dequeue_slice 2 (snd (enqueue_slice [7, 8, 9] (RingBuffer_new (replicate 6 (0 :: nat))))))"
  define segs :: "(nat \<times> nat list) list" where "segs = [(3, [4]), (1, [2, 3]), (0, [1, 2])]"
  have hyps: "ring_wf b" "list_all (segment_of [1, 2, 3, 4, 5]) segs" "5 \<le> window b" "list_all (covers segs) [0..<4]"
    unfolding b_def segs_def by code_simp+
  have "contents b = [9]" unfolding b_def by code_simp
  moreover have "map_option contents (enqueue_unallocated 4 (write_segments segs b)) = Some (contents b @ take 4 [1, 2, 3, 4, 5])"
    using hyps by (intro reassembly_in_any_order) simp_all
  ultimately have "map_option contents (enqueue_unallocated 4 (write_segments segs b)) = Some [9, 1, 2, 3, 4]"
    by simp
  then show ?thesis unfolding b_def segs_def .
qed

end
