(* ===== verification/Packet_Buffer.thy ===== *)
theory Packet_Buffer
  imports Prog Ring_Buffer
begin

text \<open>
  The packet ring of the engine (\<open>native/vendor/smoltcp/src/storage/packet_buffer.rs\<close>), which holds
  the datagrams of a UDP socket: a ring of packet descriptions and a ring of payload bytes. A packet
  never wraps around the end of the payload ring; padding fills the end instead, and a description
  without a header stands for it. The properties show that, padding aside, the buffer is a queue of
  whole datagrams.
\<close>

section \<open>Definitions\<close>

record 'h PacketMetadata =
  pm_size :: nat
  pm_header :: "'h option"

definition padding_meta :: "nat \<Rightarrow> 'h PacketMetadata" where
  "padding_meta sz = \<lparr>pm_size = sz, pm_header = None\<rparr>"

definition packet_meta :: "nat \<Rightarrow> 'h \<Rightarrow> 'h PacketMetadata" where
  "packet_meta sz h = \<lparr>pm_size = sz, pm_header = Some h\<rparr>"

definition is_padding :: "'h PacketMetadata \<Rightarrow> bool" where
  "is_padding m \<longleftrightarrow> pm_header m = None"

record 'h PacketBuffer =
  metadata_ring :: "'h PacketMetadata RingBuffer"
  payload_ring :: "byte RingBuffer"

definition PacketBuffer_new :: "'h PacketMetadata list \<Rightarrow> bytes \<Rightarrow> 'h PacketBuffer" where
  "PacketBuffer_new ms ps = \<lparr>metadata_ring = RingBuffer_new ms, payload_ring = RingBuffer_new ps\<rparr>"

definition pb_is_empty :: "'h PacketBuffer \<Rightarrow> bool" where
  "pb_is_empty b \<longleftrightarrow> rb_is_empty (metadata_ring b)"

definition pb_is_full :: "'h PacketBuffer \<Rightarrow> bool" where
  "pb_is_full b \<longleftrightarrow> rb_is_full (metadata_ring b)"

text \<open>\<open>enqueue_one\<close> returns a reference to the next slot, which its callers assign at once.\<close>

definition enqueue_metadata :: "'h PacketMetadata \<Rightarrow> 'h PacketBuffer \<Rightarrow> bool \<times> 'h PacketBuffer" where
  "enqueue_metadata m b =
     (case enqueue_one_with (\<lambda>_. (m, Inr () :: unit + unit)) (metadata_ring b) of
        (None, _) \<Rightarrow> (False, b)
      | (Some _, ring) \<Rightarrow> (True, b\<lparr>metadata_ring := ring\<rparr>))"

text \<open>\<open>enqueue\<close> returns the payload slice, which its callers fill with the datagram.\<close>

definition pb_enqueue :: "bytes \<Rightarrow> 'h \<Rightarrow> 'h PacketBuffer \<Rightarrow> bool \<times> 'h PacketBuffer" where
  "pb_enqueue data h b =
     (let sz = length data in
      if capacity (payload_ring b) < sz \<or> rb_is_full (metadata_ring b) then (False, b)
      else
        let b = (if rb_is_empty (payload_ring b) then b\<lparr>payload_ring := rb_clear (payload_ring b)\<rparr> else b);
            win = window (payload_ring b);
            contig = contiguous_window (payload_ring b)
        in if win < sz then (False, b)
           else if contig < sz \<and> win - contig < sz then (False, b)
           else
             let (ok, b) =
               (if contig < sz then
                  (case enqueue_metadata (padding_meta contig) b of
                     (False, b) \<Rightarrow> (False, b)
                   | (True, b) \<Rightarrow> (True, b\<lparr>payload_ring := snd (enqueue_many contig (payload_ring b))\<rparr>))
                else (True, b))
             in if \<not> ok then (False, b)
                else case enqueue_metadata (packet_meta sz h) b of
                       (False, b) \<Rightarrow> (False, b)
                     | (True, b) \<Rightarrow>
                         (True, b\<lparr>payload_ring := snd (enqueue_many_with (copy_in data) (payload_ring b))\<rparr>))"

definition dequeue_padding :: "'h PacketBuffer \<Rightarrow> 'h PacketBuffer" where
  "dequeue_padding b =
     (case dequeue_one_with (\<lambda>m. (m, if is_padding m then Inr (pm_size m) else Inl ())) (metadata_ring b) of
        (Some (Inr sz), ring) \<Rightarrow>
          b\<lparr>metadata_ring := ring, payload_ring := snd (dequeue_many sz (payload_ring b))\<rparr>
      | (_, ring) \<Rightarrow> b\<lparr>metadata_ring := ring\<rparr>)"

text \<open>\<open>Err ()\<close> is \<open>Err(Empty)\<close>; \<open>header.take().unwrap()\<close> panics on padding.\<close>

definition pb_dequeue :: "'h PacketBuffer \<Rightarrow> (unit fault, 'h \<times> bytes) result \<times> 'h PacketBuffer" where
  "pb_dequeue b =
     (let b = dequeue_padding b in
      case dequeue_one_with (\<lambda>m. (m\<lparr>pm_header := None\<rparr>, Inr m :: unit + 'h PacketMetadata)) (metadata_ring b) of
        (Some (Inr m), ring) \<Rightarrow>
          (let (payload, pring) = dequeue_many (pm_size m) (payload_ring b);
               b = b\<lparr>metadata_ring := ring, payload_ring := pring\<rparr>
           in case pm_header m of
                None \<Rightarrow> (Inl Panic, b)
              | Some h \<Rightarrow> (Inr (h, payload), b))
      | (_, ring) \<Rightarrow> (Inl (Err ()), b))"

definition payload_bytes_count :: "'h PacketBuffer \<Rightarrow> nat" where
  "payload_bytes_count b = rb_length (payload_ring b)"

definition pb_reset :: "'h PacketBuffer \<Rightarrow> 'h PacketBuffer" where
  "pb_reset b = b\<lparr>payload_ring := rb_clear (payload_ring b), metadata_ring := rb_clear (metadata_ring b)\<rparr>"

section \<open>Invariant and abstraction\<close>

text \<open>The packets a sequence of descriptions cuts out of the payload bytes.\<close>

fun cut_packets :: "'h PacketMetadata list \<Rightarrow> bytes \<Rightarrow> ('h \<times> bytes) list" where
  "cut_packets [] bs = []"
| "cut_packets (m # ms) bs =
     (case pm_header m of None \<Rightarrow> [] | Some h \<Rightarrow> [(h, take (pm_size m) bs)]) @ cut_packets ms (drop (pm_size m) bs)"

definition pm_total :: "'h PacketMetadata list \<Rightarrow> nat" where
  "pm_total ms = sum_list (map pm_size ms)"

text \<open>\<open>laid c p ms\<close>: from index \<open>p\<close> of a payload ring of capacity \<open>c\<close>, no packet wraps around the end,
  and padding ends at the end of the ring without filling all of it.\<close>

fun laid :: "nat \<Rightarrow> nat \<Rightarrow> 'h PacketMetadata list \<Rightarrow> bool" where
  "laid c p [] = True"
| "laid c p (m # ms) = (p + pm_size m \<le> c \<and> (is_padding m \<longrightarrow> p + pm_size m = c \<and> pm_size m < c) \<and>
     laid c ((p + pm_size m) mod c) ms)"

definition pb_wf :: "'h PacketBuffer \<Rightarrow> bool" where
  "pb_wf b \<longleftrightarrow> ring_wf (metadata_ring b) \<and> ring_wf (payload_ring b) \<and>
     pm_total (contents (metadata_ring b)) = rb_length (payload_ring b) \<and>
     laid (capacity (payload_ring b)) (read_at (payload_ring b)) (contents (metadata_ring b))"

definition pb_packets :: "'h PacketBuffer \<Rightarrow> ('h \<times> bytes) list" where
  "pb_packets b = cut_packets (contents (metadata_ring b)) (contents (payload_ring b))"

definition pb_size :: "'h PacketBuffer \<Rightarrow> nat \<times> nat" where
  "pb_size b = (capacity (metadata_ring b), capacity (payload_ring b))"

lemma pm_total_simps [simp]:
  "pm_total [] = 0" "pm_total (m # ms) = pm_size m + pm_total ms" "pm_total (ms @ ns) = pm_total ms + pm_total ns"
  by (simp_all add: pm_total_def)

lemma meta_simps [simp]:
  "pm_size (padding_meta n) = n" "is_padding (padding_meta n)" "pm_header (padding_meta n) = None"
  "pm_size (packet_meta n h) = n" "\<not> is_padding (packet_meta n h)" "pm_header (packet_meta n h) = Some h"
  by (simp_all add: padding_meta_def packet_meta_def is_padding_def)

lemma laid_append:
  "p < c \<or> p = 0 \<Longrightarrow> laid c p (ms @ ns) \<longleftrightarrow> laid c p ms \<and> laid c ((p + pm_total ms) mod c) ns"
proof (induction ms arbitrary: p)
  case (Cons m ms)
  have "p + pm_size m \<le> c \<Longrightarrow> (p + pm_size m) mod c < c \<or> (p + pm_size m) mod c = 0"
    by (cases c) auto
  moreover have "((p + pm_size m) mod c + pm_total ms) mod c = (p + pm_total (m # ms)) mod c"
    by (simp add: mod_simps add.assoc)
  ultimately show ?case using Cons.IH by auto
qed auto

lemma laid_empty_sizes: "laid c p ms \<Longrightarrow> pm_total ms = 0 \<Longrightarrow> p < c \<or> p = 0 \<Longrightarrow> laid c 0 ms"
  by (induction ms arbitrary: p) auto

lemma cut_packets_append: "cut_packets (ms @ ns) bs = cut_packets ms bs @ cut_packets ns (drop (pm_total ms) bs)"
  by (induction ms arbitrary: bs) (simp_all add: add.commute)

lemma cut_packets_more: "pm_total ms \<le> length bs \<Longrightarrow> cut_packets ms (bs @ cs) = cut_packets ms bs"
  by (induction ms arbitrary: bs) (simp_all split: option.splits)

lemma ring_wf_read_at: "ring_wf b \<Longrightarrow> read_at b < capacity b \<or> read_at b = 0"
  by (simp add: ring_wf_def)

section \<open>Enqueueing\<close>

lemma enqueue_metadata_full: "rb_is_full (metadata_ring b) \<Longrightarrow> enqueue_metadata m b = (False, b)"
  by (simp add: enqueue_metadata_def enqueue_one_with_def)

lemma enqueue_metadata_room:
  assumes "ring_wf (metadata_ring b)" and "\<not> rb_is_full (metadata_ring b)"
  shows "\<exists>ring. enqueue_metadata m b = (True, b\<lparr>metadata_ring := ring\<rparr>) \<and> ring_wf ring \<and>
    capacity ring = capacity (metadata_ring b) \<and> contents ring = contents (metadata_ring b) @ [m]"
  using enqueue_one_spec [OF assms, of "\<lambda>_. (m, Inr () :: unit + unit)" m "()"]
  by (auto simp: enqueue_metadata_def split: prod.splits)

lemma enqueue_many_spec:
  assumes "ring_wf b" and "rewind b = b" and "n \<le> contiguous_window b"
  shows "\<exists>xs. length xs = n \<and> contents (snd (enqueue_many n b)) = contents b @ xs"
    and "ring_wf (snd (enqueue_many n b))" and "capacity (snd (enqueue_many n b)) = capacity b"
    and "read_at (snd (enqueue_many n b)) = read_at b" and "rewind (snd (enqueue_many n b)) = snd (enqueue_many n b)"
proof -
  define ys where "ys = slice (get_idx b (rb_length b)) (contiguous_window b) (storage b)"
  have len: "length ys = contiguous_window b"
    using contiguous_in_range(1) [OF assms(1)] by (simp add: ys_def capacity_def)
  define b' where "b' = b\<lparr>storage := put_slice (get_idx b (rb_length b)) ys (storage b), rb_length := rb_length b + n\<rparr>"
  have run: "snd (enqueue_many n b) = b'"
    using len assms(3) by (simp add: enqueue_many_def enqueue_many_with_def assms(2) b'_def ys_def Let_def)
  note app = contents_append_slice [OF assms(1), of ys n, folded b'_def]
  show "\<exists>xs. length xs = n \<and> contents (snd (enqueue_many n b)) = contents b @ xs"
    using app len assms(3) unfolding run by (intro exI [of _ "take n ys"]) simp
  show "ring_wf (snd (enqueue_many n b))" "capacity (snd (enqueue_many n b)) = capacity b"
    "read_at (snd (enqueue_many n b)) = read_at b"
    using app len assms(3) by (simp_all add: run b'_def)
  have "rb_length b = 0 \<Longrightarrow> read_at b = 0"
    using arg_cong [OF assms(2), of read_at] by (simp add: rewind_def)
  then show "rewind (snd (enqueue_many n b)) = snd (enqueue_many n b)"
    unfolding run by (auto simp: b'_def rewind_def)
qed

lemma enqueue_payload_spec:
  assumes "ring_wf b" and "rewind b = b" and "length data \<le> contiguous_window b"
  defines "b' \<equiv> snd (enqueue_many_with (copy_in data) b)"
  shows "ring_wf b'" and "capacity b' = capacity b" and "contents b' = contents b @ data" and "read_at b' = read_at b"
proof -
  obtain n rest where run: "enqueue_many_with (copy_in data) b = ((n, rest), b')"
    by (metis b'_def prod.collapse)
  note s = enqueue_many_with_copy [OF assms(1) run]
  show "ring_wf b'" "capacity b' = capacity b" "contents b' = contents b @ data"
    using s assms(2,3) by simp_all
  show "read_at b' = read_at b" using assms(2) by (subst s(6)) simp
qed

text \<open>Where the next packet starts.\<close>

lemma write_index:
  "pb_wf b \<Longrightarrow> (read_at (payload_ring b) + pm_total (contents (metadata_ring b))) mod capacity (payload_ring b) =
     get_idx (payload_ring b) (rb_length (payload_ring b))"
  by (auto simp: pb_wf_def get_idx_def ring_wf_def)

text \<open>Appending one description and as many payload bytes.\<close>

lemma pb_wf_append:
  assumes wf: "pb_wf b"
    and ms: "ring_wf ring" "capacity ring = capacity (metadata_ring b)" "contents ring = contents (metadata_ring b) @ [m]"
    and ps: "ring_wf pring" "capacity pring = capacity (payload_ring b)" "read_at pring = read_at (payload_ring b)"
      "contents pring = contents (payload_ring b) @ xs"
    and m: "pm_size m = length xs" "laid (capacity (payload_ring b)) (get_idx (payload_ring b) (rb_length (payload_ring b))) [m]"
  shows "pb_wf \<lparr>metadata_ring = ring, payload_ring = pring\<rparr>"
    and "pb_packets \<lparr>metadata_ring = ring, payload_ring = pring\<rparr> =
      pb_packets b @ (case pm_header m of None \<Rightarrow> [] | Some h \<Rightarrow> [(h, xs)])"
    and "pb_size \<lparr>metadata_ring = ring, payload_ring = pring\<rparr> = pb_size b"
proof -
  have len: "rb_length pring = rb_length (payload_ring b) + length xs"
    using arg_cong [OF ps(4), of length] by simp
  have tot: "pm_total (contents (metadata_ring b)) = length (contents (payload_ring b))"
    using wf by (simp add: pb_wf_def)
  show "pb_wf \<lparr>metadata_ring = ring, payload_ring = pring\<rparr>"
    using wf ms ps m len write_index [OF wf] ring_wf_read_at [of "payload_ring b"]
    by (simp add: pb_wf_def laid_append)
  show "pb_packets \<lparr>metadata_ring = ring, payload_ring = pring\<rparr> =
      pb_packets b @ (case pm_header m of None \<Rightarrow> [] | Some h \<Rightarrow> [(h, xs)])"
    using tot m(1) by (simp add: pb_packets_def ms(3) ps(4) cut_packets_append cut_packets_more split: option.splits)
  show "pb_size \<lparr>metadata_ring = ring, payload_ring = pring\<rparr> = pb_size b"
    by (simp add: pb_size_def ms(2) ps(2))
qed

lemma pb_clear:
  assumes "pb_wf b" and "rb_is_empty (payload_ring b)"
  defines "b' \<equiv> b\<lparr>payload_ring := rb_clear (payload_ring b)\<rparr>"
  shows "pb_wf b'" and "pb_packets b' = pb_packets b" and "pb_size b' = pb_size b" and "rewind (payload_ring b') = payload_ring b'"
proof -
  have empty: "contents (payload_ring b) = []" "rb_length (payload_ring b) = 0"
    using assms(2) by (simp_all add: rb_is_empty_def contents_def)
  show "pb_wf b'"
    using assms(1) empty ring_wf_read_at [of "payload_ring b"] rb_clear_ok [of "payload_ring b"]
    unfolding pb_wf_def b'_def by (auto simp: rb_clear_def intro: laid_empty_sizes)
  show "pb_packets b' = pb_packets b" "pb_size b' = pb_size b"
    by (simp_all add: b'_def pb_packets_def pb_size_def empty(1))
  show "rewind (payload_ring b') = payload_ring b'"
    by (simp add: b'_def rewind_def rb_clear_def)
qed

definition put_packet :: "bytes \<Rightarrow> 'h \<Rightarrow> 'h PacketBuffer \<Rightarrow> bool \<times> 'h PacketBuffer" where
  "put_packet data h b =
     (case enqueue_metadata (packet_meta (length data) h) b of
        (False, b) \<Rightarrow> (False, b)
      | (True, b) \<Rightarrow> (True, b\<lparr>payload_ring := snd (enqueue_many_with (copy_in data) (payload_ring b))\<rparr>))"

definition put_padding :: "'h PacketBuffer \<Rightarrow> bool \<times> 'h PacketBuffer" where
  "put_padding b =
     (case enqueue_metadata (padding_meta (contiguous_window (payload_ring b))) b of
        (False, b) \<Rightarrow> (False, b)
      | (True, b) \<Rightarrow> (True, b\<lparr>payload_ring := snd (enqueue_many (contiguous_window (payload_ring b)) (payload_ring b))\<rparr>))"

lemma put_packet_spec:
  assumes wf: "pb_wf b" and rew: "rewind (payload_ring b) = payload_ring b"
    and fits: "length data \<le> contiguous_window (payload_ring b)" and run: "put_packet data h b = (ok, b')"
  shows "pb_wf b'" and "pb_packets b' = pb_packets b @ (if ok then [(h, data)] else [])" and "pb_size b' = pb_size b"
    and "ok \<longleftrightarrow> \<not> rb_is_full (metadata_ring b)"
proof -
  have rings: "ring_wf (metadata_ring b)" "ring_wf (payload_ring b)" using wf by (simp_all add: pb_wf_def)
  have "pb_wf b' \<and> pb_packets b' = pb_packets b @ (if ok then [(h, data)] else []) \<and> pb_size b' = pb_size b \<and>
      (ok \<longleftrightarrow> \<not> rb_is_full (metadata_ring b))"
  proof (cases "rb_is_full (metadata_ring b)")
    case True
    then show ?thesis using run wf by (simp add: put_packet_def enqueue_metadata_full)
  next
    case False
    let ?m = "packet_meta (length data) h"
    from enqueue_metadata_room [OF rings(1) False, of ?m]
    obtain ring where e: "enqueue_metadata ?m b = (True, b\<lparr>metadata_ring := ring\<rparr>)"
      and ring: "ring_wf ring" "capacity ring = capacity (metadata_ring b)" "contents ring = contents (metadata_ring b) @ [?m]"
      by auto
    note pr = enqueue_payload_spec [OF rings(2) rew fits]
    have "laid (capacity (payload_ring b)) (get_idx (payload_ring b) (rb_length (payload_ring b))) [?m]"
      using contiguous_in_range(1) [OF rings(2)] fits by simp
    note app = pb_wf_append [OF wf ring pr(1,2,4,3) _ this]
    have res: "ok" "b' = \<lparr>metadata_ring = ring, payload_ring = snd (enqueue_many_with (copy_in data) (payload_ring b))\<rparr>"
      using run by (auto simp: put_packet_def e)
    show ?thesis using app False by (simp add: res)
  qed
  then show "pb_wf b'" "pb_packets b' = pb_packets b @ (if ok then [(h, data)] else [])" "pb_size b' = pb_size b"
    "ok \<longleftrightarrow> \<not> rb_is_full (metadata_ring b)" by simp_all
qed

lemma put_padding_spec:
  assumes wf: "pb_wf b" and rew: "rewind (payload_ring b) = payload_ring b"
    and wrap: "contiguous_window (payload_ring b) < window (payload_ring b)"
      "contiguous_window (payload_ring b) < capacity (payload_ring b)"
    and run: "put_padding b = (ok, b')"
  shows "pb_wf b' \<and> pb_packets b' = pb_packets b \<and> pb_size b' = pb_size b \<and> rewind (payload_ring b') = payload_ring b' \<and>
    (ok \<longrightarrow> contiguous_window (payload_ring b') = window (payload_ring b) - contiguous_window (payload_ring b)) \<and>
    (ok \<longleftrightarrow> \<not> rb_is_full (metadata_ring b))"
proof (cases "rb_is_full (metadata_ring b)")
  case True
  then show ?thesis using run wf rew by (simp add: put_padding_def enqueue_metadata_full)
next
  case False
  let ?p = "payload_ring b"
  let ?c = "contiguous_window ?p"
  let ?m = "padding_meta ?c :: 'a PacketMetadata"
  have rings: "ring_wf (metadata_ring b)" "ring_wf ?p" using wf by (simp_all add: pb_wf_def)
  from enqueue_metadata_room [OF rings(1) False, of ?m]
  obtain ring where e: "enqueue_metadata ?m b = (True, b\<lparr>metadata_ring := ring\<rparr>)"
    and ring: "ring_wf ring" "capacity ring = capacity (metadata_ring b)" "contents ring = contents (metadata_ring b) @ [?m]"
    by auto
  define q where "q = snd (enqueue_many ?c ?p)"
  note en = enqueue_many_spec [OF rings(2) rew order_refl, folded q_def]
  from en(1) obtain xs where xs: "length xs = ?c" "contents q = contents ?p @ xs" by auto
  have res: "ok" "b' = \<lparr>metadata_ring = ring, payload_ring = q\<rparr>"
    using run by (auto simp: put_padding_def e q_def)
  have at_end: "get_idx ?p (rb_length ?p) + ?c = capacity ?p"
  proof -
    have "get_idx ?p (rb_length ?p) < capacity ?p" using wrap(2) by (intro get_idx_less) simp
    moreover have "?c = capacity ?p - get_idx ?p (rb_length ?p)"
      using wrap(1) by (auto simp: contiguous_window_def)
    ultimately show ?thesis by simp
  qed
  have "laid (capacity ?p) (get_idx ?p (rb_length ?p)) [?m]"
    using at_end wrap(2) by simp
  from pb_wf_append [OF wf ring en(2,3,4) xs(2) _ this] xs(1)
  have same: "pb_wf b'" "pb_packets b' = pb_packets b" "pb_size b' = pb_size b" by (simp_all add: res)
  have len: "rb_length q = rb_length ?p + ?c"
    using arg_cong [OF xs(2), of length] xs(1) by simp
  have "get_idx q (rb_length q) = get_idx ?p (rb_length ?p + ?c)"
    using en(3,4) len by (simp add: get_idx_def)
  also have "\<dots> = 0" using wrapped_tail [of ?c ?p] wrap(1) by simp
  finally have "contiguous_window q = window ?p - ?c"
    using contiguous_window_at_start [of q] en(3,5) len by (simp add: window_def)
  then show ?thesis using same en(5) False by (simp add: res)
qed

lemma pb_enqueue_eq:
  "pb_enqueue data h b =
     (if capacity (payload_ring b) < length data \<or> rb_is_full (metadata_ring b) then (False, b)
      else let b = (if rb_is_empty (payload_ring b) then b\<lparr>payload_ring := rb_clear (payload_ring b)\<rparr> else b);
               win = window (payload_ring b); contig = contiguous_window (payload_ring b)
           in if win < length data \<or> contig < length data \<and> win - contig < length data then (False, b)
              else if contig < length data
                   then (case put_padding b of (False, b) \<Rightarrow> (False, b) | (True, b) \<Rightarrow> put_packet data h b)
                   else put_packet data h b)"
  by (auto simp: pb_enqueue_def put_padding_def put_packet_def Let_def enqueue_metadata_def split: option.splits prod.splits)

lemma pb_enqueue_spec:
  assumes wf: "pb_wf b" and run: "pb_enqueue data h b = (ok, b')"
  shows "pb_wf b' \<and> pb_size b' = pb_size b \<and> pb_packets b' = pb_packets b @ (if ok then [(h, data)] else [])"
proof (cases "capacity (payload_ring b) < length data \<or> rb_is_full (metadata_ring b)")
  case True
  then show ?thesis using run wf by (simp add: pb_enqueue_eq)
next
  case False
  define c where "c = (if rb_is_empty (payload_ring b) then b\<lparr>payload_ring := rb_clear (payload_ring b)\<rparr> else b)"
  have c: "pb_wf c" "pb_packets c = pb_packets b" "pb_size c = pb_size b" "rewind (payload_ring c) = payload_ring c"
    using pb_clear [OF wf] wf by (auto simp: c_def rewind_def rb_is_empty_def)
  let ?win = "window (payload_ring c)"
  let ?contig = "contiguous_window (payload_ring c)"
  have cap: "length data \<le> capacity (payload_ring c)" using False c(3) by (simp add: pb_size_def)
  show ?thesis
  proof (cases "?win < length data \<or> ?contig < length data \<and> ?win - ?contig < length data")
    case True
    then show ?thesis using run False c by (simp add: pb_enqueue_eq c_def [symmetric] Let_def)
  next
    case room: False
    show ?thesis
    proof (cases "?contig < length data")
      case pad: True
      obtain ok1 d where d: "put_padding c = (ok1, d)" by fastforce
      have "?contig < ?win" "?contig < capacity (payload_ring c)" using room pad cap by auto
      note s = put_padding_spec [OF c(1,4) this d]
      have run': "(if ok1 then put_packet data h d else (False, d)) = (ok, b')"
        using run False room pad by (simp add: pb_enqueue_eq c_def [symmetric] Let_def d split: bool.splits)
      show ?thesis
      proof (cases ok1)
        case True
        then have "length data \<le> contiguous_window (payload_ring d)" using s room pad by simp
        from put_packet_spec [OF _ _ this, of h ok b'] s run' True show ?thesis by (simp add: c)
      qed (use run' s c in auto)
    next
      case False
      then have "put_packet data h c = (ok, b')"
        using run \<open>\<not> (capacity (payload_ring b) < length data \<or> rb_is_full (metadata_ring b))\<close> room
        by (simp add: pb_enqueue_eq c_def [symmetric] Let_def)
      from put_packet_spec [OF c(1,4) _ this] False show ?thesis by (simp add: c)
    qed
  qed
qed

text \<open>A buffer without queued payload takes every datagram that fits it.\<close>

lemma pb_enqueue_accepts:
  assumes "pb_wf b" and "rb_length (payload_ring b) = 0" and "\<not> pb_is_full b" and "length data \<le> capacity (payload_ring b)"
  shows "fst (pb_enqueue data h b)"
proof -
  define c where "c = b\<lparr>payload_ring := rb_clear (payload_ring b)\<rparr>"
  have e: "rb_is_empty (payload_ring b)" using assms(2) by (simp add: rb_is_empty_def)
  note cl = pb_clear [OF assms(1) e, folded c_def]
  have win: "window (payload_ring c) = capacity (payload_ring b)"
    "contiguous_window (payload_ring c) = capacity (payload_ring b)"
    by (simp_all add: c_def rb_clear_def window_def contiguous_window_def get_idx_def)
  obtain ok b' where p: "put_packet data h c = (ok, b')" by fastforce
  have "ok" using put_packet_spec(4) [OF cl(1,4) _ p] win assms(3,4) by (simp add: c_def pb_is_full_def)
  then show ?thesis
    using assms(3,4) e win p by (simp add: pb_enqueue_eq c_def [symmetric] pb_is_full_def Let_def)
qed

section \<open>Dequeueing\<close>

lemma dequeue_many_spec:
  assumes "ring_wf b" and "n \<le> rb_length b" and "read_at b + n \<le> capacity b"
  defines "r \<equiv> dequeue_many n b"
  shows "fst r = take n (contents b)" and "ring_wf (snd r)" and "capacity (snd r) = capacity b"
    and "contents (snd r) = drop n (contents b)" and "read_at (snd r) = (read_at b + n) mod capacity b"
    and "rb_length (snd r) = rb_length b - n"
proof -
  obtain k xs b' where run: "dequeue_many_with (copy_out n) b = ((k, xs), b')" by (metis prod.collapse)
  have r: "r = (xs, b')" by (simp add: r_def dequeue_many_def run)
  note s = dequeue_many_with_copy [OF assms(1) run]
  have k: "k = n" using s(3) assms(2,3) by simp
  show "fst r = take n (contents b)" "ring_wf (snd r)" "capacity (snd r) = capacity b"
    "contents (snd r) = drop n (contents b)" using s(1,2,4,5) k by (simp_all add: r)
  show "read_at (snd r) = (read_at b + n) mod capacity b"
    using s(7) [of 0] get_idx_0 [OF s(1)] assms(2,3) k by (auto simp: r get_idx_def split: if_splits)
  show "rb_length (snd r) = rb_length b - n"
    using arg_cong [OF s(5), of length] k by (simp add: r)
qed

text \<open>Removing the first description and its payload.\<close>

lemma pb_wf_drop:
  assumes wf: "pb_wf b" and ms: "contents (metadata_ring b) = m # ms"
    and ring: "ring_wf ring" "capacity ring = capacity (metadata_ring b)" "contents ring = ms"
  defines "r \<equiv> dequeue_many (pm_size m) (payload_ring b)"
  shows "pb_wf \<lparr>metadata_ring = ring, payload_ring = snd r\<rparr>"
    and "pb_packets b = (case pm_header m of None \<Rightarrow> [] | Some h \<Rightarrow> [(h, fst r)]) @ pb_packets \<lparr>metadata_ring = ring, payload_ring = snd r\<rparr>"
    and "pb_size \<lparr>metadata_ring = ring, payload_ring = snd r\<rparr> = pb_size b"
proof -
  have "ring_wf (payload_ring b)" "pm_size m \<le> rb_length (payload_ring b)"
    "read_at (payload_ring b) + pm_size m \<le> capacity (payload_ring b)"
    using wf ms by (auto simp: pb_wf_def)
  note d = dequeue_many_spec [OF this]
  have tot: "pm_size m + pm_total ms = rb_length (payload_ring b)"
    "laid (capacity (payload_ring b)) ((read_at (payload_ring b) + pm_size m) mod capacity (payload_ring b)) ms"
    using wf ms by (simp_all add: pb_wf_def)
  show "pb_wf \<lparr>metadata_ring = ring, payload_ring = snd r\<rparr>"
    using ring d tot by (simp add: pb_wf_def r_def)
  show "pb_packets b = (case pm_header m of None \<Rightarrow> [] | Some h \<Rightarrow> [(h, fst r)]) @ pb_packets \<lparr>metadata_ring = ring, payload_ring = snd r\<rparr>"
    unfolding r_def by (simp add: pb_packets_def ms ring(3) d(1,4) split: option.splits)
  show "pb_size \<lparr>metadata_ring = ring, payload_ring = snd r\<rparr> = pb_size b"
    by (simp add: pb_size_def ring(2) d(3) r_def)
qed

lemma dequeue_padding_spec:
  assumes wf: "pb_wf b"
  defines "b' \<equiv> dequeue_padding b"
  shows "pb_wf b' \<and> pb_packets b' = pb_packets b \<and> pb_size b' = pb_size b \<and>
    (case contents (metadata_ring b') of [] \<Rightarrow> True | m # _ \<Rightarrow> \<not> is_padding m)"
proof (cases "contents (metadata_ring b)")
  case Nil
  then have "rb_is_empty (metadata_ring b)" using length_contents [of "metadata_ring b"] by (simp add: rb_is_empty_def)
  then have "b' = b" by (simp add: b'_def dequeue_padding_def dequeue_one_with_def)
  then show ?thesis using wf Nil by simp
next
  case (Cons m ms)
  have ring: "ring_wf (metadata_ring b)" using wf by (simp add: pb_wf_def)
  let ?f = "\<lambda>m :: 'a PacketMetadata. (m, if is_padding m then Inr (pm_size m) else Inl ())"
  show ?thesis
  proof (cases "is_padding m")
    case True
    have "?f m = (m, Inr (pm_size m))" using True by simp
    note d = dequeue_one_spec [where f = ?f, OF ring Cons this]
    obtain ring where one: "dequeue_one_with ?f (metadata_ring b) = (Some (Inr (pm_size m)), ring)"
      using d(1) by (metis (no_types) prod.collapse)
    note d = d [unfolded one snd_conv]
    have b': "b' = \<lparr>metadata_ring = ring, payload_ring = snd (dequeue_many (pm_size m) (payload_ring b))\<rparr>"
      by (simp add: b'_def dequeue_padding_def one)
    have hdr: "pm_header m = None" using True by (simp add: is_padding_def)
    have lay: "laid (capacity (payload_ring b)) (read_at (payload_ring b)) (m # ms)"
      using wf Cons by (simp add: pb_wf_def)
    then have "read_at (payload_ring b) + pm_size m = capacity (payload_ring b)" using True by simp
    then have "laid (capacity (payload_ring b)) 0 ms" using lay True by simp
    then have "case ms of [] \<Rightarrow> True | m # _ \<Rightarrow> \<not> is_padding m" by (auto split: list.splits)
    then show ?thesis
      using pb_wf_drop [OF wf Cons d(2,3,4)] d(4) hdr unfolding b' by simp
  next
    case False
    have "rb_length (metadata_ring b) \<noteq> 0" using Cons length_contents [of "metadata_ring b"] by auto
    moreover have "storage (metadata_ring b) ! read_at (metadata_ring b) = m"
      using contents_split [OF ring] Cons calculation by simp
    ultimately have "dequeue_one_with ?f (metadata_ring b) = (Some (Inl ()), metadata_ring b)"
      using False list_update_id [of "storage (metadata_ring b)" "read_at (metadata_ring b)"]
      by (simp add: dequeue_one_with_def rb_is_empty_def Let_def)
    then have "b' = b" by (simp add: b'_def dequeue_padding_def)
    then show ?thesis using wf Cons False by simp
  qed
qed

lemma pb_dequeue_spec:
  assumes wf: "pb_wf b" and run: "pb_dequeue b = (r, b')"
  shows "pb_wf b' \<and> pb_size b' = pb_size b \<and>
    (case pb_packets b of [] \<Rightarrow> r = Inl (Err ()) \<and> pb_packets b' = [] | x # xs \<Rightarrow> r = Inr x \<and> pb_packets b' = xs)"
proof -
  define c where "c = dequeue_padding b"
  note pad = dequeue_padding_spec [OF wf, folded c_def]
  then have ring: "ring_wf (metadata_ring c)" by (simp add: pb_wf_def)
  show ?thesis
  proof (cases "contents (metadata_ring c)")
    case Nil
    then have "rb_is_empty (metadata_ring c)" using length_contents [of "metadata_ring c"] by (simp add: rb_is_empty_def)
    then have "r = Inl (Err ()) \<and> b' = c"
      using run by (simp add: pb_dequeue_def c_def [symmetric] dequeue_one_with_def)
    moreover have "pb_packets c = []" by (simp add: pb_packets_def Nil)
    moreover have "pb_packets b = []" using pad calculation(2) by simp
    ultimately show ?thesis using pad by simp
  next
    case (Cons m ms)
    obtain h where h: "pm_header m = Some h" using pad Cons by (auto simp: is_padding_def)
    let ?f = "\<lambda>m. (m\<lparr>pm_header := None\<rparr>, Inr m :: unit + 'a PacketMetadata)"
    have "?f m = (m\<lparr>pm_header := None\<rparr>, Inr m)" by simp
    note d = dequeue_one_spec [where f = ?f, OF ring Cons this]
    obtain ring where one: "dequeue_one_with ?f (metadata_ring c) = (Some (Inr m), ring)"
      using d(1) by (metis (no_types) prod.collapse)
    note d = d [unfolded one snd_conv]
    let ?r = "dequeue_many (pm_size m) (payload_ring c)"
    have res: "r = Inr (h, fst ?r)" "b' = \<lparr>metadata_ring = ring, payload_ring = snd ?r\<rparr>"
      using run h by (auto simp: pb_dequeue_def c_def [symmetric] one case_prod_beta Let_def)
    have "pb_wf c" using pad by simp
    note dr = pb_wf_drop [OF this Cons d(2,3,4)]
    then show ?thesis using pad h unfolding res by simp
  qed
qed

lemma pb_new_spec: "pb_wf (PacketBuffer_new ms ps)" "pb_packets (PacketBuffer_new ms ps) = []"
  using RingBuffer_new_ok [of ms] RingBuffer_new_ok [of ps]
  by (simp_all add: PacketBuffer_new_def pb_wf_def pb_packets_def) (simp add: RingBuffer_new_def)

section \<open>Properties\<close>

text \<open>A run of datagram writes and reads, with what each of them answered and the buffer after it.\<close>

datatype 'h packet_op = PutPacket 'h bytes | TakePacket

datatype 'h packet_answer = Put bool | Took "(unit fault, 'h \<times> bytes) result"

fun packet_run :: "'h packet_op list \<Rightarrow> 'h PacketBuffer \<Rightarrow> 'h packet_answer list \<times> 'h PacketBuffer" where
  "packet_run [] b = ([], b)"
| "packet_run (PutPacket h data # ops) b =
     (let (ok, b) = pb_enqueue data h b; (answers, b) = packet_run ops b in (Put ok # answers, b))"
| "packet_run (TakePacket # ops) b =
     (let (r, b) = pb_dequeue b; (answers, b) = packet_run ops b in (Took r # answers, b))"

text \<open>The queue these answers describe: an accepted write appends its datagram and a refused one appends
  nothing; a read of the empty queue must answer \<open>Empty\<close>, and every other read must answer the oldest
  datagram, which it removes. \<open>None\<close> is a wrong answer.\<close>

fun queue_run :: "'h packet_op list \<Rightarrow> 'h packet_answer list \<Rightarrow> ('h \<times> bytes) list \<Rightarrow> ('h \<times> bytes) list option" where
  "queue_run [] [] q = Some q"
| "queue_run (PutPacket h data # ops) (Put ok # answers) q = queue_run ops answers (if ok then q @ [(h, data)] else q)"
| "queue_run (TakePacket # ops) (Took r # answers) [] = (if r = Inl (Err ()) then queue_run ops answers [] else None)"
| "queue_run (TakePacket # ops) (Took r # answers) (x # q) = (if r = Inr x then queue_run ops answers q else None)"
| "queue_run _ _ q = None"

lemma packet_run_spec:
  "pb_wf b \<Longrightarrow> packet_run ops b = (answers, b') \<Longrightarrow>
     pb_wf b' \<and> pb_size b' = pb_size b \<and> queue_run ops answers (pb_packets b) = Some (pb_packets b')"
proof (induction ops b arbitrary: answers rule: packet_run.induct)
  case (2 h data ops b)
  obtain ok b1 where e: "pb_enqueue data h b = (ok, b1)" by fastforce
  obtain rest where r: "packet_run ops b1 = (rest, b')" and answers: "answers = Put ok # rest"
    using 2(3) by (auto simp: e split: prod.splits)
  show ?case
    using pb_enqueue_spec [OF 2(2) e] 2(1) [OF e [symmetric] refl _ r] answers by (auto split: if_splits)
next
  case (3 ops b)
  obtain x b1 where d: "pb_dequeue b = (x, b1)" by fastforce
  obtain rest where r: "packet_run ops b1 = (rest, b')" and answers: "answers = Took x # rest"
    using 3(3) by (auto simp: d split: prod.splits)
  show ?case
    using pb_dequeue_spec [OF 3(2) d] 3(1) [OF d [symmetric] refl _ r] answers by (cases "pb_packets b") auto
qed simp



end
