(* ===== verification/Native_Socket.thy ===== *)
theory Native_Socket
  imports Endpoint Packet_Buffer
begin

text \<open>
  The engine's sockets as the stack uses them (\<open>native/vendor/smoltcp/src/socket/tcp.rs\<close>,
  \<open>socket/udp.rs\<close>, \<open>socket/waker.rs\<close> and \<open>iface/socket_set.rs\<close>).

  A TCP socket is the part of the source's structure the stack reads or sets: the connection state,
  both stream buffers, endpoints, options and the two registered wakers. Sequence numbers, timers,
  reassembly and congestion control belong to packet processing, which is a parameter of the stack.
  A waker is the readiness key it wakes. An operation that wakes returns the keys it woke.
\<close>

section \<open>TCP sockets\<close>

datatype State =
    S_Closed | S_Listen | S_SynSent | S_SynReceived | S_Established | S_FinWait1 | S_FinWait2
  | S_CloseWait | S_Closing | S_LastAck | S_TimeWait

record TcpSocket =
  state :: State
  rx_buffer :: "byte RingBuffer"
  tx_buffer :: "byte RingBuffer"
  rx_fin_received :: bool
  timeout :: "duration option"
  keep_alive :: "KeepAlive option"
  timeout_abort :: bool
  sk_listen_endpoint :: IpListenEndpoint
  tuple :: "(IpEndpoint \<times> IpEndpoint) option"
  nagle :: bool
  rx_waker :: "ReadyKey option"
  tx_waker :: "ReadyKey option"

definition no_listen_endpoint :: IpListenEndpoint where
  "no_listen_endpoint = \<lparr>le_addr = None, le_port = 0\<rparr>"

definition TcpSocket_new :: "bytes \<Rightarrow> bytes \<Rightarrow> TcpSocket" where
  "TcpSocket_new rx tx =
     \<lparr>state = S_Closed, rx_buffer = RingBuffer_new rx, tx_buffer = RingBuffer_new tx,
      rx_fin_received = False, timeout = None, keep_alive = None, timeout_abort = False,
      sk_listen_endpoint = no_listen_endpoint, tuple = None, nagle = True,
      rx_waker = None, tx_waker = None\<rparr>"

definition tcp_socket :: "nat \<Rightarrow> nat \<Rightarrow> (SocketError, TcpSocket) result" where
  "tcp_socket rcvbuf sndbuf =
     (if \<not> valid_buffer_bytes rcvbuf \<or> \<not> valid_buffer_bytes sndbuf then Inl SE_InvalidOptions
      else Inr (TcpSocket_new (replicate rcvbuf 0) (replicate sndbuf 0)))"

definition register_recv_waker :: "ReadyKey \<Rightarrow> TcpSocket \<Rightarrow> TcpSocket" where
  "register_recv_waker w sk = sk\<lparr>rx_waker := Some w\<rparr>"

definition register_send_waker :: "ReadyKey \<Rightarrow> TcpSocket \<Rightarrow> TcpSocket" where
  "register_send_waker w sk = sk\<lparr>tx_waker := Some w\<rparr>"

definition wake_both :: "TcpSocket \<Rightarrow> TcpSocket \<times> ReadyKey list" where
  "wake_both sk = (sk\<lparr>rx_waker := None, tx_waker := None\<rparr>,
     (case rx_waker sk of None \<Rightarrow> [] | Some k \<Rightarrow> [k]) @ (case tx_waker sk of None \<Rightarrow> [] | Some k \<Rightarrow> [k]))"

definition set_state :: "State \<Rightarrow> TcpSocket \<Rightarrow> TcpSocket \<times> ReadyKey list" where
  "set_state st sk = wake_both (sk\<lparr>state := st\<rparr>)"

definition set_timeout :: "duration option \<Rightarrow> TcpSocket \<Rightarrow> TcpSocket" where
  "set_timeout d sk = sk\<lparr>timeout := d\<rparr>"

definition set_nagle_enabled :: "bool \<Rightarrow> TcpSocket \<Rightarrow> TcpSocket" where
  "set_nagle_enabled b sk = sk\<lparr>nagle := b\<rparr>"

definition set_keep_alive_config :: "KeepAlive option \<Rightarrow> TcpSocket \<Rightarrow> TcpSocket" where
  "set_keep_alive_config k sk = sk\<lparr>keep_alive := k\<rparr>"

definition local_endpoint :: "TcpSocket \<Rightarrow> IpEndpoint option" where
  "local_endpoint sk = map_option fst (tuple sk)"

definition sk_remote_endpoint :: "TcpSocket \<Rightarrow> IpEndpoint option" where
  "sk_remote_endpoint sk = map_option snd (tuple sk)"

definition tcp_reset :: "TcpSocket \<Rightarrow> TcpSocket \<times> ReadyKey list" where
  "tcp_reset sk = wake_both
     (sk\<lparr>state := S_Closed, tx_buffer := rb_clear (tx_buffer sk), rx_buffer := rb_clear (rx_buffer sk),
         rx_fin_received := False, sk_listen_endpoint := no_listen_endpoint, tuple := None,
         timeout_abort := False\<rparr>)"

definition is_open :: "TcpSocket \<Rightarrow> bool" where
  "is_open sk \<longleftrightarrow> state sk \<noteq> S_Closed \<and> state sk \<noteq> S_TimeWait"

datatype ListenError = ListenInvalidState | ListenUnaddressable

definition sk_listen ::
    "IpListenEndpoint \<Rightarrow> TcpSocket \<Rightarrow> (ListenError, unit) result \<times> TcpSocket \<times> ReadyKey list" where
  "sk_listen endpoint sk =
     (if le_port endpoint = 0 then (Inl ListenUnaddressable, sk, [])
      else if is_open sk then
        (if state sk = S_Listen \<and> sk_listen_endpoint sk = endpoint then (Inr (), sk, [])
         else (Inl ListenInvalidState, sk, []))
      else
        let (sk, ws) = tcp_reset sk;
            (sk, ws') = set_state S_Listen (sk\<lparr>sk_listen_endpoint := endpoint, tuple := None\<rparr>)
        in (Inr (), sk, ws @ ws'))"

datatype ConnectError = ConnectInvalidState | ConnectUnaddressable

definition sk_connect ::
    "(IpAddress \<Rightarrow> IpAddress option) \<Rightarrow> IpEndpoint \<Rightarrow> IpListenEndpoint \<Rightarrow> TcpSocket
      \<Rightarrow> (ConnectError, unit) result \<times> TcpSocket \<times> ReadyKey list" where
  "sk_connect get_source_address rem loc sk =
     (if is_open sk then (Inl ConnectInvalidState, sk, [])
      else if ip_port rem = 0 \<or> is_unspecified (ip_addr rem) then (Inl ConnectUnaddressable, sk, [])
      else if le_port loc = 0 then (Inl ConnectUnaddressable, sk, [])
      else
        case (case le_addr loc of
                Some addr \<Rightarrow> if is_unspecified addr then None else Some addr
              | None \<Rightarrow> get_source_address (ip_addr rem)) of
          None \<Rightarrow> (Inl ConnectUnaddressable, sk, [])
        | Some addr \<Rightarrow>
            if \<not> same_family addr (ip_addr rem) then (Inl ConnectUnaddressable, sk, [])
            else
              let (sk, ws) = tcp_reset sk;
                  (sk, ws') = set_state S_SynSent
                    (sk\<lparr>tuple := Some (\<lparr>ip_addr = addr, ip_port = le_port loc\<rparr>, rem)\<rparr>)
              in (Inr (), sk, ws @ ws'))"

definition sk_close :: "TcpSocket \<Rightarrow> TcpSocket \<times> ReadyKey list" where
  "sk_close sk =
     (case state sk of
        S_Listen \<Rightarrow> set_state S_Closed sk
      | S_SynSent \<Rightarrow> set_state S_Closed sk
      | S_SynReceived \<Rightarrow> set_state S_FinWait1 sk
      | S_Established \<Rightarrow> set_state S_FinWait1 sk
      | S_CloseWait \<Rightarrow> set_state S_LastAck sk
      | _ \<Rightarrow> (sk, []))"

definition sk_abort :: "TcpSocket \<Rightarrow> TcpSocket \<times> ReadyKey list" where
  "sk_abort sk = set_state S_Closed sk"

definition may_send :: "TcpSocket \<Rightarrow> bool" where
  "may_send sk \<longleftrightarrow> state sk = S_Established \<or> state sk = S_CloseWait"

definition can_recv :: "TcpSocket \<Rightarrow> bool" where
  "can_recv sk \<longleftrightarrow> \<not> rb_is_empty (rx_buffer sk)"

definition may_recv :: "TcpSocket \<Rightarrow> bool" where
  "may_recv sk \<longleftrightarrow> state sk \<in> {S_Established, S_FinWait1, S_FinWait2} \<or> can_recv sk"

definition can_send :: "TcpSocket \<Rightarrow> bool" where
  "can_send sk \<longleftrightarrow> may_send sk \<and> \<not> rb_is_full (tx_buffer sk)"

definition send_capacity :: "TcpSocket \<Rightarrow> nat" where
  "send_capacity sk = capacity (tx_buffer sk)"

definition send_queue :: "TcpSocket \<Rightarrow> nat" where
  "send_queue sk = rb_length (tx_buffer sk)"

definition recv_queue :: "TcpSocket \<Rightarrow> nat" where
  "recv_queue sk = rb_length (rx_buffer sk)"

text \<open>\<open>send_slice\<close> fails with \<open>None\<close>, standing for \<open>Err(InvalidState)\<close>; the stack maps every error of
  \<open>send_slice\<close> and \<open>recv_slice\<close> to \<open>Closed\<close>.\<close>

definition send_slice :: "bytes \<Rightarrow> TcpSocket \<Rightarrow> nat option \<times> TcpSocket" where
  "send_slice data sk =
     (if \<not> may_send sk then (None, sk)
      else let (sz, tx) = enqueue_slice data (tx_buffer sk) in (Some sz, sk\<lparr>tx_buffer := tx\<rparr>))"

definition recv_slice :: "nat \<Rightarrow> TcpSocket \<Rightarrow> bytes option \<times> TcpSocket" where
  "recv_slice n sk =
     (if \<not> may_recv sk then (None, sk)
      else let (xs, rx) = dequeue_slice n (rx_buffer sk) in (Some xs, sk\<lparr>rx_buffer := rx\<rparr>))"

section \<open>UDP sockets\<close>

record UdpMetadata =
  um_endpoint :: IpEndpoint
  um_local_address :: "IpAddress option"

record UdpSocket =
  u_endpoint :: IpListenEndpoint
  u_rx_buffer :: "UdpMetadata PacketBuffer"
  u_tx_buffer :: "UdpMetadata PacketBuffer"
  u_rx_waker :: "ReadyKey option"
  u_tx_waker :: "ReadyKey option"

definition UdpSocket_new :: "UdpMetadata PacketBuffer \<Rightarrow> UdpMetadata PacketBuffer \<Rightarrow> UdpSocket" where
  "UdpSocket_new rx tx = \<lparr>u_endpoint = no_listen_endpoint, u_rx_buffer = rx, u_tx_buffer = tx,
     u_rx_waker = None, u_tx_waker = None\<rparr>"

definition udp_socket :: UdpSocket where
  "udp_socket =
     (let b = PacketBuffer_new (replicate PACKET_CAPACITY (padding_meta 0)) (replicate PAYLOAD_BYTES 0)
      in UdpSocket_new b b)"

definition u_register_recv_waker :: "ReadyKey \<Rightarrow> UdpSocket \<Rightarrow> UdpSocket" where
  "u_register_recv_waker w sk = sk\<lparr>u_rx_waker := Some w\<rparr>"

definition u_register_send_waker :: "ReadyKey \<Rightarrow> UdpSocket \<Rightarrow> UdpSocket" where
  "u_register_send_waker w sk = sk\<lparr>u_tx_waker := Some w\<rparr>"

datatype UdpBindError = BindInvalidState | BindUnaddressable

definition u_bind :: "IpListenEndpoint \<Rightarrow> UdpSocket \<Rightarrow> (UdpBindError, unit) result \<times> UdpSocket \<times> ReadyKey list" where
  "u_bind endpoint sk =
     (if le_port endpoint = 0 then (Inl BindUnaddressable, sk, [])
      else if le_port (u_endpoint sk) \<noteq> 0 then (Inl BindInvalidState, sk, [])
      else (Inr (), sk\<lparr>u_endpoint := endpoint, u_rx_waker := None, u_tx_waker := None\<rparr>,
            (case u_rx_waker sk of None \<Rightarrow> [] | Some k \<Rightarrow> [k]) @ (case u_tx_waker sk of None \<Rightarrow> [] | Some k \<Rightarrow> [k])))"

definition u_can_recv :: "UdpSocket \<Rightarrow> bool" where
  "u_can_recv sk \<longleftrightarrow> \<not> pb_is_empty (u_rx_buffer sk)"

datatype UdpSendError = SendUnaddressable | SendBufferFull

definition u_send_slice :: "bytes \<Rightarrow> UdpMetadata \<Rightarrow> UdpSocket \<Rightarrow> (UdpSendError, unit) result \<times> UdpSocket" where
  "u_send_slice data m sk =
     (if le_port (u_endpoint sk) = 0 \<or> is_unspecified (ip_addr (um_endpoint m)) \<or> ip_port (um_endpoint m) = 0
      then (Inl SendUnaddressable, sk)
      else case pb_enqueue data m (u_tx_buffer sk) of
             (False, b) \<Rightarrow> (Inl SendBufferFull, sk\<lparr>u_tx_buffer := b\<rparr>)
           | (True, b) \<Rightarrow> (Inr (), sk\<lparr>u_tx_buffer := b\<rparr>))"

text \<open>\<open>Err ()\<close> is \<open>Err(Exhausted)\<close>.\<close>

definition u_recv :: "UdpSocket \<Rightarrow> (unit fault, UdpMetadata \<times> bytes) result \<times> UdpSocket" where
  "u_recv sk = (case pb_dequeue (u_rx_buffer sk) of (r, b) \<Rightarrow> (r, sk\<lparr>u_rx_buffer := b\<rparr>))"

section \<open>The socket set\<close>

text \<open>A slot per handle; a removed socket leaves its slot free, and \<open>add\<close> takes the first free slot.\<close>

datatype NativeSocket = NTcp TcpSocket | NUdp UdpSocket

type_synonym SocketSet = "NativeSocket option list"

fun add_at :: "nat \<Rightarrow> NativeSocket \<Rightarrow> SocketSet \<Rightarrow> SocketHandle \<times> SocketSet" where
  "add_at i sk [] = (i, [Some sk])"
| "add_at i sk (None # ss) = (i, Some sk # ss)"
| "add_at i sk (Some x # ss) = (case add_at (Suc i) sk ss of (h, ss) \<Rightarrow> (h, Some x # ss))"

definition ss_add :: "NativeSocket \<Rightarrow> SocketSet \<Rightarrow> SocketHandle \<times> SocketSet" where
  "ss_add sk ss = add_at 0 sk ss"

definition ss_get :: "SocketSet \<Rightarrow> SocketHandle \<Rightarrow> NativeSocket option" where
  "ss_get ss h = (if h < length ss then ss ! h else None)"

definition ss_get_tcp :: "SocketSet \<Rightarrow> SocketHandle \<Rightarrow> TcpSocket option" where
  "ss_get_tcp ss h = (case ss_get ss h of Some (NTcp sk) \<Rightarrow> Some sk | _ \<Rightarrow> None)"

definition ss_get_udp :: "SocketSet \<Rightarrow> SocketHandle \<Rightarrow> UdpSocket option" where
  "ss_get_udp ss h = (case ss_get ss h of Some (NUdp sk) \<Rightarrow> Some sk | _ \<Rightarrow> None)"

definition ss_put :: "SocketHandle \<Rightarrow> NativeSocket \<Rightarrow> SocketSet \<Rightarrow> SocketSet" where
  "ss_put h sk ss = ss[h := Some sk]"

definition ss_remove :: "SocketHandle \<Rightarrow> SocketSet \<Rightarrow> SocketSet" where
  "ss_remove h ss = ss[h := None]"

definition ss_count :: "SocketSet \<Rightarrow> nat" where
  "ss_count ss = length (filter (\<lambda>x. x \<noteq> None) ss)"

end
