(* ===== verification/Socket_Scan.thy ===== *)
theory Socket_Scan
  imports Socket_Table
begin

text \<open>
  The readiness sweep of the socket table (\<open>SocketTable::scan_ready\<close>), which recovers the wakes
  that overflowed the ready queue. It visits the entries in identifier order from a cursor and may
  stop at any entry, so what matters is that a later scan from the cursor it returns continues
  where it stopped. Here it is shown that nothing flagged is skipped.
\<close>

section \<open>The readiness sweep\<close>

text \<open>What one entry contributes: its flagged keys that lie after the cursor.\<close>

definition entry_keys :: "flag_store \<Rightarrow> ReadyKey option \<Rightarrow> SocketIdentity \<Rightarrow> ReadyKey list" where
  "entry_keys fl cur i = filter (\<lambda>k. fl k \<and> after_cursor cur k) [ReadyKey i Read, ReadyKey i Write]"

definition in_range :: "ReadyKey option \<Rightarrow> nat \<Rightarrow> bool" where
  "in_range cur sid \<longleftrightarrow> (case cur of None \<Rightarrow> True | Some c \<Rightarrow> si_id (identity c) \<le> sid)"

lemma scan_loop_Cons:
  fixes sid gen
  defines "i \<equiv> SocketIdentity sid gen"
  assumes "scan_loop clock fl cur el kl ((sid, gen, e) # rest) sc m = (sc', m')" and "in_range cur sid"
  shows "(entry_keys fl cur i = [] \<and> \<not> after_cursor cur (ReadyKey i Write) \<and> scan_loop clock fl cur el kl rest sc m = (sc', m')) \<or>
    (after_cursor cur (ReadyKey i Write) \<and> \<not> scan_complete sc' \<and> entries_scanned sc' \<le> Suc (entries_scanned sc) \<and>
      (scan_keys sc' = scan_keys sc \<and> scan_cursor sc' = scan_cursor sc \<or>
       ReadyKey i Read \<in> set (entry_keys fl cur i) \<and>
       scan_keys sc' = scan_keys sc @ [ReadyKey i Read] \<and> scan_cursor sc' = Some (ReadyKey i Read))) \<or>
    (\<exists>sc2 m2. after_cursor cur (ReadyKey i Write) \<and> scan_keys sc2 = scan_keys sc @ entry_keys fl cur i \<and> scan_cursor sc2 = Some (ReadyKey i Write) \<and>
      entries_scanned sc2 = Suc (entries_scanned sc) \<and>
      (ReadyKey i Read \<in> set (entry_keys fl cur i) \<longrightarrow> Suc (length (scan_keys sc)) \<noteq> kl) \<and>
      (sc' = sc2\<lparr>scan_complete := (rest = [])\<rparr> \<or>
       length (scan_keys sc2) \<noteq> kl \<and> entries_scanned sc2 \<noteq> el \<and> scan_loop clock fl cur el kl rest sc2 m2 = (sc', m')))"
proof -
  define aw where "aw = (case cur of None \<Rightarrow> False | Some key \<Rightarrow> si_id (identity key) = sid \<and> direction key = Write)"
  define ar where "ar = (case cur of None \<Rightarrow> False | Some key \<Rightarrow> si_id (identity key) = sid \<and> direction key = Read)"
  have wr: "after_cursor cur (ReadyKey i Write) = (\<not> aw)"
    and rd: "after_cursor cur (ReadyKey i Read) = (\<not> aw \<and> \<not> ar)"
    using assms(3)
    by (cases cur; cases "direction (the cur)";
        auto simp: aw_def ar_def after_cursor_def in_range_def i_def less_Direction_def)+
  obtain b1 m1 where m1: "checkpoint_at clock m = (b1, m1)" by (cases "checkpoint_at clock m") auto
  obtain b2 m2 where m2: "checkpoint_at clock m1 = (b2, m2)" by (cases "checkpoint_at clock m1") auto
  have ek: "entry_keys fl cur i = (if fl (ReadyKey i Read) \<and> \<not> aw \<and> \<not> ar then [ReadyKey i Read] else []) @
      (if fl (ReadyKey i Write) \<and> \<not> aw then [ReadyKey i Write] else [])"
    by (simp add: entry_keys_def wr rd)
  have def: "(sc', m') = (if aw then scan_loop clock fl cur el kl rest sc m
     else if \<not> b1 then (sc\<lparr>scan_complete := False\<rparr>, m1)
     else if fl (ReadyKey i Read) \<and> \<not> ar
     then let sc1 = sc\<lparr>entries_scanned := Suc (entries_scanned sc), scan_keys := scan_keys sc @ [ReadyKey i Read], scan_cursor := Some (ReadyKey i Read)\<rparr>;
              sc2 = sc1\<lparr>scan_keys := scan_keys sc @ entry_keys fl cur i, scan_cursor := Some (ReadyKey i Write)\<rparr>
       in if Suc (length (scan_keys sc)) = kl \<or> \<not> b2 then (sc1\<lparr>scan_complete := False\<rparr>, if Suc (length (scan_keys sc)) = kl then m1 else m2)
          else if length (scan_keys sc2) = kl \<or> entries_scanned sc2 = el then (sc2\<lparr>scan_complete := (rest = [])\<rparr>, m2)
          else scan_loop clock fl cur el kl rest sc2 m2
     else let sc2 = sc\<lparr>entries_scanned := Suc (entries_scanned sc), scan_keys := scan_keys sc @ entry_keys fl cur i, scan_cursor := Some (ReadyKey i Write)\<rparr>
       in if length (scan_keys sc2) = kl \<or> entries_scanned sc2 = el then (sc2\<lparr>scan_complete := (rest = [])\<rparr>, m1)
          else scan_loop clock fl cur el kl rest sc2 m1)"
    unfolding assms(2) [symmetric] scan_loop.simps Let_def ek aw_def [symmetric] ar_def [symmetric] i_def [symmetric]
    by (simp add: m1 m2 split: bool.splits)
  show ?thesis
  proof (cases "aw \<or> \<not> b1 \<or> fl (ReadyKey i Read) \<and> \<not> ar \<and> (Suc (length (scan_keys sc)) = kl \<or> \<not> b2)")
    case True
    then show ?thesis
      using def wr unfolding ek by (auto simp: Let_def split: if_splits)
  next
    case False
    let ?sc2 = "sc\<lparr>entries_scanned := Suc (entries_scanned sc), scan_keys := scan_keys sc @ entry_keys fl cur i,
                   scan_cursor := Some (ReadyKey i Write)\<rparr>"
    let ?m2 = "if fl (ReadyKey i Read) \<and> \<not> ar then m2 else m1"
    have "(sc', m') = (if length (scan_keys ?sc2) = kl \<or> entries_scanned ?sc2 = el then (?sc2\<lparr>scan_complete := (rest = [])\<rparr>, ?m2)
          else scan_loop clock fl cur el kl rest ?sc2 ?m2)"
      using False def by (cases "fl (ReadyKey i Read) \<and> \<not> ar") (simp add: Let_def, auto simp: Let_def)
    moreover have "ReadyKey i Read \<in> set (entry_keys fl cur i) \<Longrightarrow> Suc (length (scan_keys sc)) \<noteq> kl"
      using False by (auto simp: ek)
    ultimately show ?thesis
      using False wr by (intro disjI2 exI [of _ ?sc2] exI [of _ ?m2]) (simp split: if_splits)
  qed
qed


lemma entry_keys_iff: "k \<in> set (entry_keys fl cur i) \<longleftrightarrow> identity k = i \<and> fl k \<and> after_cursor cur k"
  by (cases k; cases "direction k") (auto simp: entry_keys_def)

lemma after_write: "bt_ok ((sid, x) # rest) \<Longrightarrow> (si_id (identity k), y) \<in> set rest \<Longrightarrow>
    after_cursor (Some (ReadyKey (SocketIdentity sid gen) Write)) k"
  by (force simp: after_cursor_def)

lemma scan_loop_complete:
  assumes "scan_loop clock fl cur el kl es sc m = (sc', m')" and "bt_ok es"
    and "\<forall>(sid, _) \<in> set es. in_range cur sid"
    and "\<And>k. after_cursor cur k \<Longrightarrow> si_id (identity k) \<in> fst ` set es \<Longrightarrow> after_cursor (scan_cursor sc) k"
    and "fl k" and "after_cursor cur k"
    and "k \<in> set (scan_keys sc) \<or> (\<exists>e. (si_id (identity k), generation (identity k), e) \<in> set es)"
  shows "k \<in> set (scan_keys sc') \<or> \<not> scan_complete sc' \<and> after_cursor (scan_cursor sc') k"
  using assms
proof (induction es arbitrary: sc m)
  case (Cons x rest)
  obtain sid gen e where x: "x = (sid, gen, e)" by (cases x) auto
  let ?i = "SocketIdentity sid gen"
  have ok: "bt_ok rest" and rng: "\<forall>(sid, _) \<in> set rest. in_range cur sid" and "in_range cur sid"
    using Cons.prems(2,3) by (auto simp: x)
  note step = scan_loop_Cons [OF Cons.prems(1) [unfolded x] \<open>in_range cur sid\<close>]
  have here: "k \<in> set (entry_keys fl cur ?i)" if "identity k = ?i"
    using that Cons.prems(5,6) by (simp add: entry_keys_iff)
  have away: "k \<in> set (scan_keys sc) \<or> identity k = ?i \<or>
      (\<exists>e. (si_id (identity k), generation (identity k), e) \<in> set rest)"
    using Cons.prems(7) by (cases "identity k") (auto simp: x)
  from step show ?case
  proof (elim disjE exE conjE)
    assume "entry_keys fl cur ?i = []" and run: "scan_loop clock fl cur el kl rest sc m = (sc', m')"
    then show ?case
      using away here Cons.prems(4,5,6) by (intro Cons.IH [OF run ok rng]) (auto simp: x)
  next
    assume "\<not> scan_complete sc'" and "scan_keys sc' = scan_keys sc" and "scan_cursor sc' = scan_cursor sc"
    then show ?case
      using Cons.prems(4) [of k] Cons.prems(6,7) by (force)
  next
    assume "\<not> scan_complete sc'" and "scan_keys sc' = scan_keys sc @ [ReadyKey ?i Read]"
      and "scan_cursor sc' = Some (ReadyKey ?i Read)"
    moreover have "after_cursor (Some (ReadyKey ?i Read)) k"
      if "identity k = ?i" and "k \<noteq> ReadyKey ?i Read"
      using that by (cases k; cases "direction k") (auto simp: after_cursor_def less_Direction_def)
    moreover have "after_cursor (Some (ReadyKey ?i Read)) k"
      if "(si_id (identity k), generation (identity k), e') \<in> set rest" for e'
      using after_write [of sid "(gen, e)" rest k _ gen] that Cons.prems(2)
      by (auto simp: x after_cursor_def less_Direction_def)
    ultimately show ?case
      using away by auto
  next
    fix sc2 m2
    assume "scan_keys sc2 = scan_keys sc @ entry_keys fl cur ?i" and "scan_cursor sc2 = Some (ReadyKey ?i Write)"
      and run: "scan_loop clock fl cur el kl rest sc2 m2 = (sc', m')"
    then show ?case
      using away here Cons.prems(2,5,6) after_write [of sid "(gen, e)" rest _ _ gen]
      by (intro Cons.IH [OF run ok rng]) (force simp: x)+
  next
    fix sc2 m2
    assume "scan_keys sc2 = scan_keys sc @ entry_keys fl cur ?i" and "scan_cursor sc2 = Some (ReadyKey ?i Write)"
      and "sc' = sc2\<lparr>scan_complete := rest = []\<rparr>"
    then show ?case
      using away here Cons.prems(2) after_write [of sid "(gen, e)" rest k _ gen] by (auto simp: x)
  qed
qed auto


lemma scan_loop_sound:
  assumes "scan_loop clock fl cur el kl es sc m = (sc', m')" and "bt_ok es"
    and "\<forall>(sid, _) \<in> set es. in_range cur sid"
    and "length (scan_keys sc) < kl" and "entries_scanned sc < el"
  shows "\<exists>ks. scan_keys sc' = scan_keys sc @ ks \<and> distinct ks \<and> length (scan_keys sc') \<le> kl \<and>
    entries_scanned sc' \<le> el \<and>
    (\<forall>k \<in> set ks. fl k \<and> after_cursor cur k \<and> (\<exists>e. (si_id (identity k), generation (identity k), e) \<in> set es))"
  using assms
proof (induction es arbitrary: sc m)
  case Nil
  then show ?case by (auto intro: exI [of _ "[]"])
next
  case (Cons x rest)
  obtain sid gen e where x: "x = (sid, gen, e)" by (cases x) auto
  let ?i = "SocketIdentity sid gen"
  have ok: "bt_ok rest" and rng: "\<forall>(sid, _) \<in> set rest. in_range cur sid" and "in_range cur sid"
    and fresh: "\<And>e'. (sid, e') \<notin> set rest"
    using Cons.prems(2,3) by (force simp: x)+
  note step = scan_loop_Cons [OF Cons.prems(1) [unfolded x] \<open>in_range cur sid\<close>]
  have ek: "length (entry_keys fl cur ?i) \<le> (if ReadyKey ?i Read \<in> set (entry_keys fl cur ?i) then 2 else 1)"
    "distinct (entry_keys fl cur ?i)"
    by (auto simp: entry_keys_def)
  have mem: "\<exists>e'. (si_id (identity k), generation (identity k), e') \<in> set (x # rest)"
    if "k \<in> set (entry_keys fl cur ?i)" for k
    using that by (auto simp: x entry_keys_iff)
  have le: "length (scan_keys sc2) \<le> kl"
    if "scan_keys sc2 = scan_keys sc @ entry_keys fl cur ?i"
      and "ReadyKey ?i Read \<in> set (entry_keys fl cur ?i) \<longrightarrow> Suc (length (scan_keys sc)) \<noteq> kl" for sc2 :: ReadyScan
    using ek(1) that Cons.prems(4) by (auto split: if_splits)
  from step show ?case
  proof (elim disjE exE conjE)
    assume run: "scan_loop clock fl cur el kl rest sc m = (sc', m')"
    then show ?case
      using Cons.IH [OF run ok rng Cons.prems(4,5)] by (meson list.set_intros(2))
  next
    assume "scan_keys sc' = scan_keys sc" and "entries_scanned sc' \<le> Suc (entries_scanned sc)"
    then show ?case
      using Cons.prems(4,5) by (auto intro: exI [of _ "[]"])
  next
    assume "scan_keys sc' = scan_keys sc @ [ReadyKey ?i Read]" and "entries_scanned sc' \<le> Suc (entries_scanned sc)"
      and "ReadyKey ?i Read \<in> set (entry_keys fl cur ?i)"
    then show ?case
      using Cons.prems(4,5) mem [of "ReadyKey ?i Read"]
      by (intro exI [of _ "[ReadyKey ?i Read]"]) (auto simp: entry_keys_iff)
  next
    fix sc2 :: ReadyScan and m2
    assume keys: "scan_keys sc2 = scan_keys sc @ entry_keys fl cur ?i"
      and "entries_scanned sc2 = Suc (entries_scanned sc)"
      and lim: "ReadyKey ?i Read \<in> set (entry_keys fl cur ?i) \<longrightarrow> Suc (length (scan_keys sc)) \<noteq> kl"
      and "sc' = sc2\<lparr>scan_complete := rest = []\<rparr>"
    then show ?case
      using Cons.prems(4,5) mem le [OF keys lim] ek(2)
      by (intro exI [of _ "entry_keys fl cur ?i"]) (auto simp: entry_keys_iff)
  next
    fix sc2 :: ReadyScan and m2
    assume keys: "scan_keys sc2 = scan_keys sc @ entry_keys fl cur ?i"
      and n: "entries_scanned sc2 = Suc (entries_scanned sc)"
      and lim: "ReadyKey ?i Read \<in> set (entry_keys fl cur ?i) \<longrightarrow> Suc (length (scan_keys sc)) \<noteq> kl"
      and run: "scan_loop clock fl cur el kl rest sc2 m2 = (sc', m')"
      and "length (scan_keys sc2) \<noteq> kl" and "entries_scanned sc2 \<noteq> el"
    then obtain ks where ks: "scan_keys sc' = scan_keys sc2 @ ks" "distinct ks" "length (scan_keys sc') \<le> kl"
      "entries_scanned sc' \<le> el"
      "\<forall>k \<in> set ks. fl k \<and> after_cursor cur k \<and> (\<exists>e. (si_id (identity k), generation (identity k), e) \<in> set rest)"
      using Cons.IH [OF run ok rng] le [OF keys lim] Cons.prems(5) by auto
    moreover have "set (entry_keys fl cur ?i) \<inter> set ks = {}"
      using ks(5) fresh by (auto simp: entry_keys_iff)
    moreover have "\<exists>e'. (si_id (identity k), generation (identity k), e') \<in> set (x # rest)" if "k \<in> set ks" for k
      using ks(5) that by (meson list.set_intros(2))
    ultimately show ?case
      using keys ek(2) mem by (intro exI [of _ "entry_keys fl cur ?i @ ks"]) (auto simp: entry_keys_iff)
  qed
qed

lemma scan_range_props:
  assumes "table_wf t"
  shows "bt_ok (scan_range cur t)" and "\<forall>(sid, _) \<in> set (scan_range cur t). in_range cur sid"
    and "(sid, ge) \<in> set (scan_range cur t) \<longleftrightarrow> in_range cur sid \<and> bt_get (entries t) sid = Some ge"
  using assms
  by (auto simp: scan_range_def table_wf_def in_range_def bt_get_iff bt_ok_def
      sorted_wrt_map sorted_wrt_filter split: option.splits)

lemma after_cursor_in_range: "after_cursor cur k \<Longrightarrow> in_range cur (si_id (identity k))"
  by (auto simp: after_cursor_def in_range_def split: option.splits)

text \<open>
  C7. The resumable sweep misses nothing and stays in its bounds. Every flagged key of a live
  socket that lies after the cursor is either returned by this scan, or the scan reports itself
  incomplete and the key lies after the cursor it hands back. The keys returned are distinct,
  flagged and live, at most \<open>key_limit\<close> many, from at most \<open>entry_limit\<close> entries.
\<close>

theorem scan_ready_misses_nothing:
  assumes "table_wf t" and "scan_ready clock cur entry_limit key_limit m t = (sc, m')"
  shows "(\<forall>k. live t (identity k) \<and> flags t k \<and> after_cursor cur k \<longrightarrow>
      k \<in> set (scan_keys sc) \<or> \<not> scan_complete sc \<and> after_cursor (scan_cursor sc) k) \<and>
    (\<forall>k \<in> set (scan_keys sc). live t (identity k) \<and> flags t k \<and> after_cursor cur k) \<and>
    distinct (scan_keys sc) \<and> length (scan_keys sc) \<le> key_limit \<and> entries_scanned sc \<le> entry_limit"
proof (cases "entry_limit = 0 \<or> key_limit = 0")
  case True
  then have "sc = \<lparr>scan_keys = [], scan_cursor = cur, scan_complete = False, entries_scanned = 0\<rparr>"
    using assms(2) by (auto simp: scan_ready_def Let_def)
  then show ?thesis by simp
next
  case False
  let ?sc = "\<lparr>scan_keys = [], scan_cursor = cur, scan_complete = False, entries_scanned = 0\<rparr>"
  have run: "scan_loop clock (flags t) cur entry_limit key_limit (scan_range cur t) ?sc m = (sc, m')"
    using assms(2) False by (simp add: scan_ready_def Let_def)
  note range = scan_range_props [OF assms(1)]
  have "k \<in> set (scan_keys sc) \<or> \<not> scan_complete sc \<and> after_cursor (scan_cursor sc) k"
    if "live t (identity k)" and "flags t k" and "after_cursor cur k" for k
    using that by (intro scan_loop_complete [OF run range(1,2)]) (auto simp: range(3) live_def after_cursor_in_range)
  moreover obtain ks where "scan_keys sc = ks" and "distinct ks" and "length ks \<le> key_limit"
    and "entries_scanned sc \<le> entry_limit"
    and "\<forall>k \<in> set ks. flags t k \<and> after_cursor cur k \<and>
      (\<exists>e. (si_id (identity k), generation (identity k), e) \<in> set (scan_range cur t))"
    using scan_loop_sound [OF run range(1,2)] False by auto
  ultimately show ?thesis
    by (auto simp: range(3) live_def)
qed

theorem scan_ready_misses_nothing_witness:
  "(let t = (fst sample_table)\<lparr>flags := (\<lambda>_. True)\<rparr>;
        sc = fst (scan_ready (\<lambda>_. 0) None 8 1 (start 0 None, 0) t)
    in scan_keys sc = [ReadyKey (SocketIdentity 5 9) Read] \<and>
       \<not> scan_complete sc \<and> after_cursor (scan_cursor sc) (ReadyKey (SocketIdentity 5 9) Write))"
proof -
  define t where "t = (fst sample_table)\<lparr>flags := (\<lambda>_. True)\<rparr>"
  define sc where "sc = fst (scan_ready (\<lambda>_. 0) None 8 1 (start 0 None, 0) t)"
  note eval = t_def sample_table_def table_insert_def next_identity_def SocketTable_new_def
    MAX_SOCKET_ID_def Let_def SocketEntry_new_def
  have "table_wf t"
    by (simp add: eval table_wf_def bt_ok_def entry_waiter_count_def)
  moreover have "scan_ready (\<lambda>_. 0) None 8 1 (start 0 None, 0) t =
      (sc, snd (scan_ready (\<lambda>_. 0) None 8 1 (start 0 None, 0) t))"
    by (simp add: sc_def)
  ultimately have misses: "live t (identity k) \<and> flags t k \<and> after_cursor None k \<Longrightarrow>
      k \<in> set (scan_keys sc) \<or> \<not> scan_complete sc \<and> after_cursor (scan_cursor sc) k" for k
    using scan_ready_misses_nothing [THEN conjunct1, THEN spec, of t "\<lambda>_. 0" None 8 1 "(start 0 None, 0)" sc _ k]
    by blast
  have keys: "scan_keys sc = [ReadyKey (SocketIdentity 5 9) Read]"
    by (simp add: sc_def eval scan_ready_def scan_range_def checkpoint_at_def checkpoint_def start_def
        WORK_BUDGET_def)
  moreover have "live t (SocketIdentity 5 9)" and "flags t = (\<lambda>_. True)"
    by (simp_all add: eval live_def bt_get_def)
  moreover have "after_cursor None (ReadyKey (SocketIdentity 5 9) Write)"
    by (simp add: after_cursor_def)
  ultimately have "scan_keys sc = [ReadyKey (SocketIdentity 5 9) Read] \<and> \<not> scan_complete sc \<and>
      after_cursor (scan_cursor sc) (ReadyKey (SocketIdentity 5 9) Write)"
    using misses [of "ReadyKey (SocketIdentity 5 9) Write"] by simp
  then show ?thesis
    unfolding Let_def sc_def t_def .
qed

end
