(* ===== verification/Stack_State.thy ===== *)
theory Stack_State
  imports Native_Socket Socket_Scan "HOL-Library.Product_Lexorder" "HOL-Library.List_Lexorder"
begin

text \<open>
  The state of a stack (\<open>NativeStack\<close> of \<open>native/smolnet_core/src/stack.rs\<close>), its construction, and
  the checks and lookups its operations share.

  The BEAM environment and the engine's packet processing are the parameter \<open>Env\<close>: a clock, the
  answers of \<open>consume_timeslice\<close> and of \<open>send\<close>, and the functions of the engine's interface
  (\<open>poll_ingress_single\<close>, \<open>poll_egress\<close>, \<open>poll_at\<close>, \<open>get_source_address\<close>). Each of them takes the
  number of the call first, so that every behaviour, whatever hidden state it depends on, is one of
  these functions. \<open>outbox\<close> records the messages sent to waiting processes.
\<close>

section \<open>Types\<close>

instantiation AddressFamily :: linorder
begin
definition less_eq_AddressFamily :: "AddressFamily \<Rightarrow> AddressFamily \<Rightarrow> bool" where
  "less_eq_AddressFamily a b \<longleftrightarrow> a = Inet \<or> b = Inet6"
definition less_AddressFamily :: "AddressFamily \<Rightarrow> AddressFamily \<Rightarrow> bool" where
  "less_AddressFamily a b \<longleftrightarrow> a = Inet \<and> b = Inet6"
instance
proof
  fix x y z :: AddressFamily
  show "x < y \<longleftrightarrow> x \<le> y \<and> \<not> y \<le> x" "x \<le> x" "x \<le> y \<Longrightarrow> y \<le> z \<Longrightarrow> x \<le> z"
    "x \<le> y \<Longrightarrow> y \<le> x \<Longrightarrow> x = y" "x \<le> y \<or> y \<le> x"
    by (cases x; cases y; cases z; simp add: less_eq_AddressFamily_def less_AddressFamily_def)+
qed
end

text \<open>The derived order of \<open>ConnectionKey\<close> and \<open>ListenerMemberKey\<close> is lexicographic in their fields.\<close>

type_synonym ConnectionKey = "AddressFamily \<times> bytes \<times> nat \<times> bytes \<times> nat"
type_synonym ListenerMemberKey = "nat \<times> SocketHandle"

fun address_key :: "IpAddress \<Rightarrow> bytes" where
  "address_key (Ipv4 os) = take 4 os @ replicate 12 0"
| "address_key (Ipv6 os) = os"

definition ConnectionKey_new :: "IpEndpoint \<Rightarrow> IpEndpoint \<Rightarrow> ConnectionKey" where
  "ConnectionKey_new loc rem =
     (family_of (ip_addr loc), address_key (ip_addr loc), ip_port loc, address_key (ip_addr rem), ip_port rem)"

text \<open>The assertion of \<open>ConnectionKey::new\<close> comes first.\<close>

definition connection_key :: "IpEndpoint \<Rightarrow> IpEndpoint \<Rightarrow> ('s, 'e, ConnectionKey) prog" where
  "connection_key loc rem =
     bnd (debug_assert (same_family (ip_addr loc) (ip_addr rem))) (\<lambda>_. ret (ConnectionKey_new loc rem))"

record Effects =
  eff_output :: "bytes list"
  eff_poll_at :: "int option"
  eff_more :: bool
  eff_maintenance_work :: nat

definition Effects_empty :: Effects where
  "Effects_empty = \<lparr>eff_output = [], eff_poll_at = None, eff_more = False, eff_maintenance_work = 0\<rparr>"

record 'a Envelope =
  env_result :: 'a
  env_output :: "bytes list"
  env_poll_at :: "int option"
  env_more :: bool

definition Envelope_empty :: "'a \<Rightarrow> 'a Envelope" where
  "Envelope_empty r = \<lparr>env_result = r, env_output = [], env_poll_at = None, env_more = False\<rparr>"

record PendingNotification =
  pn_identity :: SocketIdentity
  pn_direction :: Direction
  pn_waiter :: Waiter

datatype AbortReason = AbortClosed | LinkDown | StackDown

datatype Lifecycle = Running | ShuttingDown | Shutdown

record Counters =
  max_bytes_copied :: nat
  max_input_packets :: nat
  max_output_packets :: nat
  max_ready_events :: nat
  max_maintenance_work :: nat
  ingress_packets :: nat
  rejected_packets :: nat
  emitted_packets :: nat
  poll_calls :: nat
  notifications_delivered :: nat
  notifications_dropped :: nat
  readiness_dropped :: nat
  listener_promotions :: nat
  listener_refills :: nat
  listener_overflow_drops :: nat
  native_calls :: nat
  deadline_yields :: nat
  timeslice_exhaustions :: nat
  max_native_work_nanoseconds :: nat

definition Counters_default :: Counters where
  "Counters_default =
     \<lparr>max_bytes_copied = 0, max_input_packets = 0, max_output_packets = 0, max_ready_events = 0,
      max_maintenance_work = 0, ingress_packets = 0, rejected_packets = 0, emitted_packets = 0,
      poll_calls = 0, notifications_delivered = 0, notifications_dropped = 0, readiness_dropped = 0,
      listener_promotions = 0, listener_refills = 0, listener_overflow_drops = 0, native_calls = 0,
      deadline_yields = 0, timeslice_exhaustions = 0, max_native_work_nanoseconds = 0\<rparr>"

definition observe :: "Work \<Rightarrow> Counters \<Rightarrow> Counters" where
  "observe w c = c\<lparr>max_bytes_copied := max (max_bytes_copied c) (w_bytes_copied w),
     max_input_packets := max (max_input_packets c) (w_input_packets w),
     max_output_packets := max (max_output_packets c) (w_output_packets w),
     max_ready_events := max (max_ready_events c) (w_ready_events w),
     max_maintenance_work := max (max_maintenance_work c) (w_maintenance_work w)\<rparr>"

text \<open>A message to a waiting process.\<close>

datatype Message =
    SelectMessage pid SocketIdentity reference
  | AbortMessage pid SocketIdentity reference AbortReason

record NativeStack =
  stack_id :: nat
  ip_addrs :: "IpCidr list"
  iface_routes :: "Route list"
  engine_calls :: nat
  socket_set :: SocketSet
  dev :: BeamDevice
  socket_table :: SocketTable
  id_counters :: IdCounters
  tcp_records :: "(nat, TcpRecord) btree"
  tcp_listeners :: "(nat, ListenerRecord) btree"
  tcp_connections :: "(ConnectionKey, SocketIdentity) btree"
  udp_records :: "(nat, UdpRecord) btree"
  closing_tcp :: "nat bset"
  closing_deadlines :: "(instant \<times> nat) bset"
  closing_sweep_cursor :: "nat option"
  closing_cleanup_pending :: bool
  closing_cleanup_resweep :: bool
  maintenance_cleanup_turn :: bool
  scheduled_poll_at :: "instant option"
  next_ephemeral_port :: nat
  next_udp_ephemeral_port :: nat
  listener_scan_cursor :: "ListenerMemberKey option"
  listener_scan_pending :: bool
  listener_scan_resweep :: bool
  listener_maintenance_turn :: bool
  ready :: ReadyState
  ready_sweep :: bool
  ready_sweep_cursor :: "ReadyKey option"
  ready_sweep_resweep :: bool
  ready_sweep_pending :: "ReadyKey list"
  counters :: Counters
  st_lifecycle :: Lifecycle
  limits :: Limits
  mtu :: nat
  tcp_timers :: TcpTimers
  route_prefixes :: "IpCidr list"
  call_budget :: meter
  next_forced_budget_checkpoints :: "nat option"
  next_forced_slice_exhaustion :: "nat option"
  pending_notifications :: "PendingNotification list"
  shutdown_reason :: AbortReason
  outbox :: "Message list"

type_synonym 'a op = "(NativeStack, SocketError, 'a) prog"

record Env =
  e_clock :: clock
  e_consume :: "nat \<Rightarrow> nat \<Rightarrow> bool"
  e_send :: "nat \<Rightarrow> Message \<Rightarrow> bool"
  e_ingress :: "nat \<Rightarrow> instant \<Rightarrow> ReceiveOne \<Rightarrow> SocketSet \<Rightarrow> (ReceiveOne \<times> SocketSet \<times> ReadyKey list) option"
  e_egress :: "nat \<Rightarrow> instant \<Rightarrow> BeamDevice \<Rightarrow> SocketSet \<Rightarrow> (bool \<times> BeamDevice \<times> SocketSet \<times> ReadyKey list) option"
  e_poll_at :: "nat \<Rightarrow> instant \<Rightarrow> SocketSet \<Rightarrow> instant option option"
  e_source :: "IpCidr list \<Rightarrow> IpAddress \<Rightarrow> IpAddress option"
  e_alloc :: "nat \<Rightarrow> nat \<Rightarrow> bool"
  e_overflow_checks :: bool

definition instant_plus :: "Env \<Rightarrow> instant \<Rightarrow> duration \<Rightarrow> (NativeStack, 'e, instant) prog" where
  "instant_plus E t d = (case instant_add (e_overflow_checks E) t d of None \<Rightarrow> raise Panic | Some t' \<Rightarrow> ret t')"

definition MAX_SOCKET_BUFFER_BYTES :: nat where
  "MAX_SOCKET_BUFFER_BYTES = 64 * 2 * MAX_BUFFER_BYTES"

section \<open>Construction and the budget of a call\<close>

text \<open>\<open>ident\<close> is the next value of \<open>NEXT_STACK_ID\<close>; \<open>ids\<close> are the process-wide socket identity
  counters and \<open>idx\<close> the number of clock readings so far. An address that cannot be converted is a
  failed \<open>expect\<close>.\<close>

definition NativeStack_new ::
    "Env \<Rightarrow> nat \<Rightarrow> IdCounters \<Rightarrow> nat \<Rightarrow> Limits \<Rightarrow> StackConfig \<Rightarrow> (StackError fault, NativeStack) result" where
  "NativeStack_new E ident ids idx l c =
     (case config_validate c l of
        Inl e \<Rightarrow> Inl (Err e)
      | Inr _ \<Rightarrow>
          (if list_ex (\<lambda>a. address_to_cidr a = None) (cfg_addresses c) \<or>
              list_ex (\<lambda>r. to_route r = None) (cfg_routes c)
           then Inl Panic
           else
             let routes = List.map_filter to_route (cfg_routes c) in
             Inr \<lparr>stack_id = ident,
               ip_addrs = List.map_filter address_to_cidr (cfg_addresses c), iface_routes = routes,
               engine_calls = 0, socket_set = [],
               dev = BeamDevice_new (cfg_mtu c) (input_packets l) (cfg_egress_credit c),
               socket_table = SocketTable_new (sockets l) (sockets l * 2), id_counters = ids,
               tcp_records = [], tcp_listeners = [], tcp_connections = [], udp_records = [],
               closing_tcp = [], closing_deadlines = [], closing_sweep_cursor = None,
               closing_cleanup_pending = False, closing_cleanup_resweep = False,
               maintenance_cleanup_turn = False, scheduled_poll_at = None,
               next_ephemeral_port = EPHEMERAL_PORT_FIRST, next_udp_ephemeral_port = EPHEMERAL_PORT_FIRST,
               listener_scan_cursor = None, listener_scan_pending = False, listener_scan_resweep = False,
               listener_maintenance_turn = True,
               ready = ReadyQueue_new (max (ready_events l div 2) 1),
               ready_sweep = False, ready_sweep_cursor = None, ready_sweep_resweep = False,
               ready_sweep_pending = [], counters = Counters_default, st_lifecycle = Running,
               limits = l, mtu = cfg_mtu c, tcp_timers = cfg_tcp_timers c,
               route_prefixes = map cidr routes,
               call_budget = (start (e_clock E idx) None, Suc idx),
               next_forced_budget_checkpoints = None, next_forced_slice_exhaustion = None,
               pending_notifications = [], shutdown_reason = AbortClosed, outbox = []\<rparr>))"

definition begin_call :: "Env \<Rightarrow> NativeStack \<Rightarrow> NativeStack" where
  "begin_call E s =
     (let i = snd (call_budget s);
          b = start (e_clock E i) (next_forced_budget_checkpoints s);
          b = (case next_forced_slice_exhaustion s of
                 None \<Rightarrow> b | Some charges \<Rightarrow> force_slice_exhaustion_after charges b)
      in s\<lparr>call_budget := (b, Suc i), next_forced_budget_checkpoints := None,
           next_forced_slice_exhaustion := None\<rparr>)"

definition observe_call :: "Env \<Rightarrow> NativeStack \<Rightarrow> NativeStack" where
  "observe_call E s =
     (let (b, i) = call_budget s; c = counters s;
          c = c\<lparr>native_calls := native_calls c + 1,
                max_native_work_nanoseconds :=
                  max (max_native_work_nanoseconds c) (elapsed_nanoseconds (e_clock E i) b)\<rparr>;
          c = (if yielded b then c\<lparr>deadline_yields := deadline_yields c + 1\<rparr> else c);
          c = (if slice_exhausted b then c\<lparr>timeslice_exhaustions := timeslice_exhaustions c + 1\<rparr> else c)
      in s\<lparr>counters := c, call_budget := (b, Suc i)\<rparr>)"

definition charge_now :: "Env \<Rightarrow> NativeStack \<Rightarrow> NativeStack" where
  "charge_now E s =
     (let (b, i) = call_budget s
      in s\<lparr>call_budget := (snd (charge (e_clock E i) (e_consume E i) b), Suc i)\<rparr>)"

text \<open>\<open>charge_chunk\<close> returns the count of uncharged work units.\<close>

definition charge_chunk :: "Env \<Rightarrow> nat \<Rightarrow> bool \<Rightarrow> (NativeStack, 'e, nat) prog" where
  "charge_chunk E pending force =
     (if \<not> force \<and> pending < CHARGE_CHUNK then ret pending
      else bnd (modify (charge_now E)) (\<lambda>_. ret 0))"

definition within_budget :: "Env \<Rightarrow> (NativeStack, 'e, bool) prog" where
  "within_budget E = act (\<lambda>s.
     case checkpoint_at (e_clock E) (call_budget s) of (ok, m) \<Rightarrow> (ok, s\<lparr>call_budget := m\<rparr>))"

section \<open>Native sockets and wakers\<close>

definition wake :: "ReadyKey list \<Rightarrow> (NativeStack, 'e, unit) prog" where
  "wake ks = modify (\<lambda>s.
     case fold mark_ready ks (ready s, flags (socket_table s)) of
       (q, f) \<Rightarrow> s\<lparr>ready := q, socket_table := (socket_table s)\<lparr>flags := f\<rparr>\<rparr>)"

text \<open>Using a handle that is not live, or of a socket of another kind, panics.\<close>

definition get_tcp :: "SocketHandle \<Rightarrow> (NativeStack, 'e, TcpSocket) prog" where
  "get_tcp h = bnd (gets (\<lambda>s. ss_get_tcp (socket_set s) h)) unwrap"

definition get_udp :: "SocketHandle \<Rightarrow> (NativeStack, 'e, UdpSocket) prog" where
  "get_udp h = bnd (gets (\<lambda>s. ss_get_udp (socket_set s) h)) unwrap"

definition put_socket :: "SocketHandle \<Rightarrow> NativeSocket \<Rightarrow> (NativeStack, 'e, unit) prog" where
  "put_socket h sk = modify (\<lambda>s. s\<lparr>socket_set := ss_put h sk (socket_set s)\<rparr>)"

definition on_tcp ::
    "SocketHandle \<Rightarrow> (TcpSocket \<Rightarrow> 'r \<times> TcpSocket \<times> ReadyKey list) \<Rightarrow> (NativeStack, 'e, 'r) prog" where
  "on_tcp h f = bnd (get_tcp h) (\<lambda>sk.
     case f sk of (r, sk, ws) \<Rightarrow> bnd (put_socket h (NTcp sk)) (\<lambda>_. bnd (wake ws) (\<lambda>_. ret r)))"

definition upd_tcp :: "SocketHandle \<Rightarrow> (TcpSocket \<Rightarrow> TcpSocket) \<Rightarrow> (NativeStack, 'e, unit) prog" where
  "upd_tcp h f = on_tcp h (\<lambda>sk. ((), f sk, []))"

definition wake_tcp ::
    "SocketHandle \<Rightarrow> (TcpSocket \<Rightarrow> TcpSocket \<times> ReadyKey list) \<Rightarrow> (NativeStack, 'e, unit) prog" where
  "wake_tcp h f = on_tcp h (\<lambda>sk. ((), f sk))"

definition on_udp ::
    "SocketHandle \<Rightarrow> (UdpSocket \<Rightarrow> 'r \<times> UdpSocket \<times> ReadyKey list) \<Rightarrow> (NativeStack, 'e, 'r) prog" where
  "on_udp h f = bnd (get_udp h) (\<lambda>sk.
     case f sk of (r, sk, ws) \<Rightarrow> bnd (put_socket h (NUdp sk)) (\<lambda>_. bnd (wake ws) (\<lambda>_. ret r)))"

definition add_socket :: "NativeSocket \<Rightarrow> (NativeStack, 'e, SocketHandle) prog" where
  "add_socket sk = act (\<lambda>s. case ss_add sk (socket_set s) of (h, ss) \<Rightarrow> (h, s\<lparr>socket_set := ss\<rparr>))"

definition remove_socket :: "SocketHandle \<Rightarrow> (NativeStack, 'e, unit) prog" where
  "remove_socket h = bnd (gets (\<lambda>s. ss_get (socket_set s) h)) (\<lambda>v.
     case v of None \<Rightarrow> raise Panic
             | Some _ \<Rightarrow> modify (\<lambda>s. s\<lparr>socket_set := ss_remove h (socket_set s)\<rparr>))"

section \<open>Checks and lookups\<close>

definition ensure_running :: "NativeStack \<Rightarrow> (SocketError, unit) result" where
  "ensure_running s = (case st_lifecycle s of Running \<Rightarrow> Inr () | _ \<Rightarrow> Inl SE_Closed)"

definition ensure_logical_socket_capacity :: "NativeStack \<Rightarrow> (SocketError, unit) result" where
  "ensure_logical_socket_capacity s =
     (case checked_add (table_len (socket_table s)) (length (closing_tcp s)) of
        None \<Rightarrow> Inl SE_SystemLimit
      | Some n \<Rightarrow> if sockets (limits s) \<le> n then Inl SE_SystemLimit else Inr ())"

definition socket_buffer_bytes :: "NativeStack \<Rightarrow> nat" where
  "socket_buffer_bytes s =
     (\<Sum>(_, r) \<leftarrow> tcp_records s. tr_rcvbuf r + tr_sndbuf r) +
     (\<Sum>(_, l) \<leftarrow> tcp_listeners s. length (pool l) * (lr_rcvbuf l + lr_sndbuf l)) +
     (\<Sum>(_, r) \<leftarrow> udp_records s. length (ur_handles r) * BUFFER_BYTES)"

definition ensure_socket_buffer_capacity :: "nat \<Rightarrow> NativeStack \<Rightarrow> (SocketError, unit) result" where
  "ensure_socket_buffer_capacity added s =
     (case checked_add (socket_buffer_bytes s) added of
        Some tot \<Rightarrow> if tot \<le> MAX_SOCKET_BUFFER_BYTES then Inr () else Inl SE_SystemLimit
      | None \<Rightarrow> Inl SE_SystemLimit)"

definition ensure_native_socket_capacity :: "nat \<Rightarrow> nat \<Rightarrow> NativeStack \<Rightarrow> (SocketError, unit) result" where
  "ensure_native_socket_capacity added removed s =
     (case Option.bind (checked_sub (ss_count (socket_set s)) removed) (\<lambda>n. checked_add n added) of
        None \<Rightarrow> Inl SE_SystemLimit
      | Some n \<Rightarrow> if sockets (limits s) < n then Inl SE_SystemLimit else Inr ())"

definition is_listener :: "SocketIdentity \<Rightarrow> NativeStack \<Rightarrow> bool" where
  "is_listener i s =
     (case bt_get (tcp_listeners s) (si_id i) of None \<Rightarrow> False | Some l \<Rightarrow> lr_identity l = i)"

definition tcp_record :: "SocketIdentity \<Rightarrow> NativeStack \<Rightarrow> (SocketError, TcpRecord) result" where
  "tcp_record i s =
     (if is_listener i s then Inl SE_InvalidState
      else case bt_get (tcp_records s) (si_id i) of
             None \<Rightarrow> Inl SE_InvalidSocket
           | Some r \<Rightarrow> if tr_identity r = i then Inr r else Inl SE_InvalidSocket)"

definition udp_record :: "SocketIdentity \<Rightarrow> NativeStack \<Rightarrow> (SocketError, UdpRecord) result" where
  "udp_record i s =
     (case bt_get (udp_records s) (si_id i) of
        None \<Rightarrow> Inl SE_InvalidSocket
      | Some r \<Rightarrow> if ur_identity r = i then Inr r else Inl SE_InvalidSocket)"

text \<open>\<open>tcp_record_mut\<close> and \<open>udp_record_mut\<close> with the assignments made through them.\<close>

definition tcp_record_mut :: "SocketIdentity \<Rightarrow> (TcpRecord \<Rightarrow> TcpRecord) \<Rightarrow> unit op" where
  "tcp_record_mut i f = bnd (ask (tcp_record i)) (\<lambda>r.
     modify (\<lambda>s. s\<lparr>tcp_records := bt_insert (si_id i) (f r) (tcp_records s)\<rparr>))"

definition udp_record_mut :: "SocketIdentity \<Rightarrow> (UdpRecord \<Rightarrow> UdpRecord) \<Rightarrow> unit op" where
  "udp_record_mut i f = bnd (ask (udp_record i)) (\<lambda>r.
     modify (\<lambda>s. s\<lparr>udp_records := bt_insert (si_id i) (f r) (udp_records s)\<rparr>))"

definition remove_connection :: "TcpRecord \<Rightarrow> (NativeStack, 'e, unit) prog" where
  "remove_connection r =
     (case (local r, remote r) of
        (Some loc, Some rem) \<Rightarrow>
          bnd (connection_key loc rem) (\<lambda>key.
          modify (\<lambda>s. s\<lparr>tcp_connections := bt_remove key (tcp_connections s)\<rparr>))
      | _ \<Rightarrow> ret ())"

definition remove_tcp_record :: "TcpRecord \<Rightarrow> (NativeStack, 'e, unit) prog" where
  "remove_tcp_record r =
     bnd (remove_connection r) (\<lambda>_.
     modify (\<lambda>s. s\<lparr>tcp_records := bt_remove (si_id (tr_identity r)) (tcp_records s)\<rparr>))"

definition request_listener_scan :: "NativeStack \<Rightarrow> NativeStack" where
  "request_listener_scan s =
     (if tcp_listeners s = [] then s
      else if listener_scan_pending s then s\<lparr>listener_scan_resweep := True\<rparr>
      else s\<lparr>listener_scan_pending := True, listener_scan_cursor := None\<rparr>)"

definition request_closing_cleanup :: "NativeStack \<Rightarrow> NativeStack" where
  "request_closing_cleanup s =
     (if closing_tcp s = [] then s
      else if closing_cleanup_pending s then s\<lparr>closing_cleanup_resweep := True\<rparr>
      else s\<lparr>closing_cleanup_pending := True, closing_sweep_cursor := None\<rparr>)"

definition remove_tcp_socket :: "TcpRecord \<Rightarrow> (NativeStack, 'e, unit) prog" where
  "remove_tcp_socket r =
     bnd (remove_socket (tr_handle r)) (\<lambda>_.
     bnd (modify (\<lambda>s.
       let sid = si_id (tr_identity r);
           s = s\<lparr>closing_tcp := bs_remove sid (closing_tcp s)\<rparr>
       in case close_deadline r of
            None \<Rightarrow> s
          | Some dl \<Rightarrow> s\<lparr>closing_deadlines := bs_remove (dl, sid) (closing_deadlines s)\<rparr>)) (\<lambda>_.
     bnd (remove_tcp_record r) (\<lambda>_.
     modify request_listener_scan)))"

definition ensure_connected :: "TcpRecord \<Rightarrow> unit op" where
  "ensure_connected r =
     (case phase r of
        Connected \<Rightarrow> bnd (get_tcp (tr_handle r)) (\<lambda>sk.
          if timeout_abort sk then raise (Err (socket_error TimedOut)) else ret ())
      | Failed failure \<Rightarrow> raise (Err (socket_error failure))
      | _ \<Rightarrow> raise (Err SE_NotConnected))"

definition next_close_deadline :: "NativeStack \<Rightarrow> instant option" where
  "next_close_deadline s = (case closing_deadlines s of [] \<Rightarrow> None | (dl, _) # _ \<Rightarrow> Some dl)"

definition has_ip_address :: "IpAddress \<Rightarrow> NativeStack \<Rightarrow> bool" where
  "has_ip_address a s = list_ex (\<lambda>c. cidr_address c = a) (ip_addrs s)"

definition to_bits :: "bytes \<Rightarrow> nat" where
  "to_bits os = foldl (\<lambda>acc b. acc * 256 + unat b) 0 os"

text \<open>Masking with the netmask compares the leading \<open>prefix_length\<close> bits.\<close>

fun contains_addr :: "IpCidr \<Rightarrow> IpAddress \<Rightarrow> bool" where
  "contains_addr (IpCidr (Ipv4 a) n) (Ipv4 b) = (to_bits a div 2 ^ (32 - n) = to_bits b div 2 ^ (32 - n))"
| "contains_addr (IpCidr (Ipv6 a) n) (Ipv6 b) = (to_bits a div 2 ^ (128 - n) = to_bits b div 2 ^ (128 - n))"
| "contains_addr _ _ = False"

definition reachable :: "IpAddress \<Rightarrow> NativeStack \<Rightarrow> bool" where
  "reachable a s \<longleftrightarrow> list_ex (\<lambda>c. contains_addr c a) (ip_addrs s) \<or> list_ex (\<lambda>c. contains_addr c a) (route_prefixes s)"

definition concrete_listener_endpoint :: "ValidatedEndpoint \<Rightarrow> NativeStack \<Rightarrow> (SocketError, IpListenEndpoint) result" where
  "concrete_listener_endpoint ep s =
     (if \<not> is_unspecified (ve_address ep) then Inr (listen_endpoint_of ep)
      else case find (\<lambda>a. family_matches (family_of (ve_address ep)) a \<and> \<not> is_unspecified a)
                     (map cidr_address (ip_addrs s)) of
             None \<Rightarrow> Inl SE_AddressNotAvailable
           | Some a \<Rightarrow> Inr \<lparr>le_addr = Some a, le_port = ve_port ep\<rparr>)"

definition port_in_use :: "nat \<Rightarrow> AddressFamily \<Rightarrow> SocketIdentity option \<Rightarrow> NativeStack \<Rightarrow> bool" where
  "port_in_use port family excluding s \<longleftrightarrow>
     list_ex (\<lambda>(_, r). Some (tr_identity r) \<noteq> excluding \<and> tr_family r = family \<and> \<not> accepted r \<and>
        (case local r of None \<Rightarrow> False | Some loc \<Rightarrow> ip_port loc = port)) (tcp_records s) \<or>
     list_ex (\<lambda>(_, l). Some (lr_identity l) \<noteq> excluding \<and> family_matches family (ip_addr (lr_local l)) \<and>
        ip_port (lr_local l) = port) (tcp_listeners s)"

definition used_ports :: "AddressFamily \<Rightarrow> NativeStack \<Rightarrow> nat list" where
  "used_ports family s =
     List.map_filter (\<lambda>(_, r). if tr_family r = family then map_option ip_port (local r) else None) (tcp_records s) @
     List.map_filter (\<lambda>(_, l). if family_matches family (ip_addr (lr_local l)) then Some (ip_port (lr_local l)) else None)
       (tcp_listeners s)"

definition next_port :: "nat \<Rightarrow> nat" where
  "next_port port = (if port = EPHEMERAL_PORT_LAST then EPHEMERAL_PORT_FIRST else port + 1)"

definition allocate_ephemeral_port :: "AddressFamily \<Rightarrow> nat op" where
  "allocate_ephemeral_port family =
     bnd (ask (\<lambda>s. allocate_ephemeral (set (used_ports family s)) (next_ephemeral_port s)
                     EPHEMERAL_PORT_FIRST EPHEMERAL_PORT_LAST)) (\<lambda>port.
     bnd (modify (\<lambda>s. s\<lparr>next_ephemeral_port := next_port port\<rparr>)) (\<lambda>_. ret port))"

definition udp_port_in_use :: "nat \<Rightarrow> AddressFamily \<Rightarrow> SocketIdentity option \<Rightarrow> NativeStack \<Rightarrow> bool" where
  "udp_port_in_use port family excluding s \<longleftrightarrow>
     list_ex (\<lambda>(_, r). Some (ur_identity r) \<noteq> excluding \<and> ur_family r = family \<and>
        (case ur_local r of None \<Rightarrow> False | Some loc \<Rightarrow> ve_port loc = port)) (udp_records s)"

definition udp_used_ports :: "AddressFamily \<Rightarrow> NativeStack \<Rightarrow> nat list" where
  "udp_used_ports family s =
     List.map_filter (\<lambda>(_, r). if ur_family r = family then map_option ve_port (ur_local r) else None) (udp_records s)"

definition allocate_udp_ephemeral_port :: "AddressFamily \<Rightarrow> nat op" where
  "allocate_udp_ephemeral_port family =
     bnd (ask (\<lambda>s. allocate_ephemeral (set (udp_used_ports family s)) (next_udp_ephemeral_port s)
                     EPHEMERAL_PORT_FIRST EPHEMERAL_PORT_LAST)) (\<lambda>port.
     bnd (modify (\<lambda>s. s\<lparr>next_udp_ephemeral_port := next_port port\<rparr>)) (\<lambda>_. ret port))"

definition engine_poll_at :: "Env \<Rightarrow> instant \<Rightarrow> (NativeStack, 'e, instant option) prog" where
  "engine_poll_at E now =
     bnd (gets (\<lambda>s. e_poll_at E (engine_calls s) now (socket_set s))) (\<lambda>run.
     case run of
       None \<Rightarrow> raise Panic
     | Some t \<Rightarrow> bnd (modify (\<lambda>s. s\<lparr>engine_calls := Suc (engine_calls s)\<rparr>)) (\<lambda>_. ret t))"

definition current_effects :: "Env \<Rightarrow> instant \<Rightarrow> (NativeStack, 'e, Effects) prog" where
  "current_effects E now =
     bnd (engine_poll_at E now) (\<lambda>t.
     ret \<lparr>eff_output = [], eff_poll_at = map_option total_millis t, eff_more = False, eff_maintenance_work = 0\<rparr>)"

end
