(* ===== verification/Ownership.thy ===== *)
theory Ownership
  imports Stack_State "HOL-Library.Multiset"
begin

text \<open>
  Who owns the engine's sockets. The stack refers to native sockets by handle: one from each TCP
  record, a pool of them from each listener, one or more from each UDP record. A stale handle makes
  the engine panic and a forgotten one leaks its buffers.

  \<open>own x y s\<close> says that the sockets in the set are exactly the ones the records refer to, each of them
  referred to once and with the buffer sizes its owner has on record, together with the TCP sockets
  \<open>x\<close> and the UDP sockets \<open>y\<close> that the running operation holds in local variables; and that their
  number and the memory of their buffers are within the limits. The lemmas are one rule per change an
  operation makes to the sockets or the records.
\<close>

section \<open>The socket set\<close>

lemma add_at_spec:
  "add_at i sk ss = (h, ss') \<Longrightarrow> i \<le> h \<and> ss_get ss (h - i) = None \<and> ss_get ss' = (ss_get ss)(h - i \<mapsto> sk)"
proof (induction i sk ss arbitrary: h ss' rule: add_at.induct)
  case (1 i sk)
  then show ?case by (auto simp: ss_get_def)
next
  case (2 i sk ss)
  then show ?case by (auto simp: ss_get_def nth_Cons split: nat.splits)
next
  case (3 i sk x ss)
  obtain ss1 where r: "add_at (Suc i) sk ss = (h, ss1)" and ss': "ss' = Some x # ss1"
    using 3(2) by (auto split: prod.splits)
  from 3(1) [OF r] have IH: "Suc i \<le> h" "ss_get ss (h - Suc i) = None" "ss_get ss1 = (ss_get ss)(h - Suc i \<mapsto> sk)"
    by auto
  have cons: "ss_get (y # ys) k = (case k of 0 \<Rightarrow> y | Suc k \<Rightarrow> ss_get ys k)" for y ys k
    by (auto simp: ss_get_def split: nat.splits)
  have "h - i = Suc (h - Suc i)" using IH(1) by simp
  then show ?case using IH by (auto simp: ss' cons fun_eq_iff split: nat.splits)
qed

lemma ss_add_get:
  assumes "ss_add sk ss = (h, ss')"
  shows "ss_get ss h = None" and "ss_get ss' = (ss_get ss)(h \<mapsto> sk)"
  using add_at_spec [of 0 sk ss h ss'] assms by (simp_all add: ss_add_def)

lemma ss_get_put: "ss_get ss h \<noteq> None \<Longrightarrow> ss_get (ss_put h sk ss) = (ss_get ss)(h \<mapsto> sk)"
  by (auto simp: ss_get_def ss_put_def fun_eq_iff)

lemma ss_get_remove: "ss_get (ss_remove h ss) = (ss_get ss)(h := None)"
  by (auto simp: ss_get_def ss_remove_def fun_eq_iff nth_list_update)

lemma finite_dom_ss_get [simp]: "finite (dom (ss_get ss))"
  by (rule finite_subset [of _ "{..<length ss}"]) (auto simp: ss_get_def split: if_splits)

lemma ss_count_card: "ss_count ss = card (dom (ss_get ss))"
proof -
  have "dom (ss_get ss) = {i. i < length ss \<and> ss ! i \<noteq> None}"
    by (auto simp: ss_get_def split: if_splits)
  then show ?thesis by (simp add: ss_count_def length_filter_conv_card)
qed

lemma ss_get_tcp_iff: "ss_get_tcp ss h = Some sk \<longleftrightarrow> ss_get ss h = Some (NTcp sk)"
  by (auto simp: ss_get_tcp_def split: option.splits NativeSocket.splits)

lemma ss_get_udp_iff: "ss_get_udp ss h = Some sk \<longleftrightarrow> ss_get ss h = Some (NUdp sk)"
  by (auto simp: ss_get_udp_def split: option.splits NativeSocket.splits)

section \<open>Live sockets\<close>

text \<open>A TCP socket counts with its handle and its buffer sizes.\<close>

type_synonym held = "SocketHandle \<times> nat \<times> nat"

definition tcp_info :: "TcpSocket \<Rightarrow> nat \<times> nat" where
  "tcp_info sk = (capacity (rx_buffer sk), capacity (tx_buffer sk))"

definition live_tcp_set :: "SocketSet \<Rightarrow> held set" where
  "live_tcp_set ss = {(h, i). \<exists>sk. ss_get ss h = Some (NTcp sk) \<and> tcp_info sk = i}"

definition live_udp_set :: "SocketSet \<Rightarrow> SocketHandle set" where
  "live_udp_set ss = {h. \<exists>sk. ss_get ss h = Some (NUdp sk)}"

definition live_tcp :: "SocketSet \<Rightarrow> held multiset" where
  "live_tcp ss = mset_set (live_tcp_set ss)"

definition live_udp :: "SocketSet \<Rightarrow> SocketHandle multiset" where
  "live_udp ss = mset_set (live_udp_set ss)"

definition held_bytes :: "held multiset \<Rightarrow> nat" where
  "held_bytes x = (\<Sum>(h, a, b) \<in># x. a + b)"

definition native_bytes :: "SocketSet \<Rightarrow> nat" where
  "native_bytes ss = held_bytes (live_tcp ss) + size (live_udp ss) * BUFFER_BYTES"

lemma held_bytes_simps [simp]:
  "held_bytes {#} = 0" "held_bytes (add_mset (h, a, b) x) = a + b + held_bytes x"
  "held_bytes (x + y) = held_bytes x + held_bytes y"
  by (simp_all add: held_bytes_def)

lemma finite_live [simp]: "finite (live_tcp_set ss)" "finite (live_udp_set ss)"
proof -
  have "live_tcp_set ss \<subseteq> (\<lambda>h. (h, case ss_get ss h of Some (NTcp sk) \<Rightarrow> tcp_info sk | _ \<Rightarrow> undefined)) ` dom (ss_get ss)"
    by (force simp: live_tcp_set_def)
  then show "finite (live_tcp_set ss)" by (rule finite_subset) simp
  show "finite (live_udp_set ss)"
    by (rule finite_subset [OF _ finite_dom_ss_get [of ss]]) (auto simp: live_udp_set_def)
qed

lemma live_tcp_put:
  assumes "ss_get_tcp ss h = Some old" and "tcp_info sk = tcp_info old"
  shows "live_tcp (ss_put h (NTcp sk) ss) = live_tcp ss" and "live_udp (ss_put h (NTcp sk) ss) = live_udp ss"
  using assms
  by (auto simp: live_tcp_def live_udp_def live_tcp_set_def live_udp_set_def ss_get_put ss_get_tcp_iff
      intro!: arg_cong [of _ _ mset_set] split: if_splits)

lemma live_udp_put:
  assumes "ss_get_udp ss h = Some old"
  shows "live_tcp (ss_put h (NUdp sk) ss) = live_tcp ss" and "live_udp (ss_put h (NUdp sk) ss) = live_udp ss"
  using assms
  by (auto simp: live_tcp_def live_udp_def live_tcp_set_def live_udp_set_def ss_get_put ss_get_udp_iff
      intro!: arg_cong [of _ _ mset_set] split: if_splits)

lemma live_add_tcp:
  assumes "ss_add (NTcp sk) ss = (h, ss')"
  shows "live_tcp ss' = add_mset (h, tcp_info sk) (live_tcp ss)" and "live_udp ss' = live_udp ss"
proof -
  note add = ss_add_get [OF assms]
  have "live_tcp_set ss' = insert (h, tcp_info sk) (live_tcp_set ss)" "live_udp_set ss' = live_udp_set ss"
    using add by (auto simp: live_tcp_set_def live_udp_set_def split: if_splits)
  moreover have "(h, tcp_info sk) \<notin> live_tcp_set ss" using add(1) by (auto simp: live_tcp_set_def)
  ultimately show "live_tcp ss' = add_mset (h, tcp_info sk) (live_tcp ss)" "live_udp ss' = live_udp ss"
    by (simp_all add: live_tcp_def live_udp_def)
qed

lemma live_add_udp:
  assumes "ss_add (NUdp sk) ss = (h, ss')"
  shows "live_udp ss' = add_mset h (live_udp ss)" and "live_tcp ss' = live_tcp ss"
proof -
  note add = ss_add_get [OF assms]
  have "live_udp_set ss' = insert h (live_udp_set ss)" "live_tcp_set ss' = live_tcp_set ss"
    using add by (auto simp: live_tcp_set_def live_udp_set_def split: if_splits)
  moreover have "h \<notin> live_udp_set ss" using add(1) by (auto simp: live_udp_set_def)
  ultimately show "live_udp ss' = add_mset h (live_udp ss)" "live_tcp ss' = live_tcp ss"
    by (simp_all add: live_tcp_def live_udp_def)
qed

lemma live_tcp_get:
  assumes "(h, i) \<in># live_tcp ss"
  shows "\<exists>sk. ss_get_tcp ss h = Some sk \<and> tcp_info sk = i"
proof -
  have "(h, i) \<in> live_tcp_set ss" using assms by (simp add: live_tcp_def)
  then show ?thesis by (auto simp: live_tcp_set_def ss_get_tcp_iff)
qed

lemma live_udp_get: "h \<in># live_udp ss \<Longrightarrow> \<exists>sk. ss_get_udp ss h = Some sk"
proof -
  assume "h \<in># live_udp ss"
  then have "h \<in> live_udp_set ss" by (simp add: live_udp_def)
  then show ?thesis by (auto simp: live_udp_set_def ss_get_udp_iff)
qed

lemma live_remove_tcp:
  assumes "live_tcp ss = add_mset (h, i) x"
  shows "live_tcp (ss_remove h ss) = x" and "live_udp (ss_remove h ss) = live_udp ss" and "ss_get ss h \<noteq> None"
proof -
  obtain sk where sk: "ss_get ss h = Some (NTcp sk)" "tcp_info sk = i"
    using live_tcp_get [of h i ss] assms by (auto simp: ss_get_tcp_iff)
  then show "ss_get ss h \<noteq> None" by simp
  have "live_tcp_set (ss_remove h ss) = live_tcp_set ss - {(h, i)}" "live_udp_set (ss_remove h ss) = live_udp_set ss"
    using sk by (auto simp: live_tcp_set_def live_udp_set_def ss_get_remove split: if_splits)
  moreover have "(h, i) \<in> live_tcp_set ss" using sk by (auto simp: live_tcp_set_def)
  ultimately show "live_tcp (ss_remove h ss) = x" "live_udp (ss_remove h ss) = live_udp ss"
    using assms by (simp_all add: live_tcp_def live_udp_def mset_set_Diff)
qed

lemma live_remove_udp:
  assumes "live_udp ss = add_mset h x"
  shows "live_udp (ss_remove h ss) = x" and "live_tcp (ss_remove h ss) = live_tcp ss" and "ss_get ss h \<noteq> None"
proof -
  obtain sk where sk: "ss_get ss h = Some (NUdp sk)"
    using live_udp_get [of h ss] assms by (auto simp: ss_get_udp_iff)
  then show "ss_get ss h \<noteq> None" by simp
  have "live_udp_set (ss_remove h ss) = live_udp_set ss - {h}" "live_tcp_set (ss_remove h ss) = live_tcp_set ss"
    using sk by (auto simp: live_tcp_set_def live_udp_set_def ss_get_remove split: if_splits)
  moreover have "h \<in> live_udp_set ss" using sk by (auto simp: live_udp_set_def)
  ultimately show "live_udp (ss_remove h ss) = x" "live_tcp (ss_remove h ss) = live_tcp ss"
    using assms by (simp_all add: live_tcp_def live_udp_def mset_set_Diff)
qed

lemma live_tcp_unique: "live_tcp ss = add_mset (h, i) x \<Longrightarrow> (h, j) \<notin># x"
proof
  assume eq: "live_tcp ss = add_mset (h, i) x" and "(h, j) \<in># x"
  then have "(h, j) \<in># live_tcp ss" by simp
  then have "j = i" using live_tcp_get [of h j ss] live_tcp_get [of h i ss] eq by auto
  then have "2 \<le> count (live_tcp ss) (h, i)" using eq \<open>(h, j) \<in># x\<close> by (simp add: Suc_le_eq)
  then show False by (simp add: live_tcp_def count_mset_set' split: if_splits)
qed

lemma live_udp_unique: "live_udp ss = add_mset h x \<Longrightarrow> h \<notin># x"
proof
  assume "live_udp ss = add_mset h x" and "h \<in># x"
  then have "2 \<le> count (live_udp ss) h" by (simp add: Suc_le_eq)
  then show False by (simp add: live_udp_def count_mset_set' split: if_splits)
qed

lemma dom_live: "dom (ss_get ss) = fst ` live_tcp_set ss \<union> live_udp_set ss"
proof (rule set_eqI)
  fix h
  show "h \<in> dom (ss_get ss) \<longleftrightarrow> h \<in> fst ` live_tcp_set ss \<union> live_udp_set ss"
  proof (cases "ss_get ss h")
    case (Some sk)
    then show ?thesis by (cases sk) (force simp: live_tcp_set_def live_udp_set_def)+
  qed (auto simp: live_tcp_set_def live_udp_set_def)
qed

lemma live_disjoint: "fst ` live_tcp_set ss \<inter> live_udp_set ss = {}"
  by (auto simp: live_tcp_set_def live_udp_set_def)

lemma live_tcp_inj: "inj_on fst (live_tcp_set ss)"
  by (auto simp: inj_on_def live_tcp_set_def)

lemma ss_count_live: "ss_count ss = size (live_tcp ss) + size (live_udp ss)"
  by (simp add: ss_count_card dom_live card_Un_disjoint live_disjoint card_image live_tcp_inj live_tcp_def live_udp_def)

section \<open>Owned sockets\<close>

definition record_held :: "TcpRecord \<Rightarrow> held" where
  "record_held r = (tr_handle r, tr_rcvbuf r, tr_sndbuf r)"

definition listener_held :: "ListenerRecord \<Rightarrow> held multiset" where
  "listener_held l = image_mset (\<lambda>h. (h, lr_rcvbuf l, lr_sndbuf l)) (mset (pool l))"

definition owned_tcp :: "(nat, TcpRecord) btree \<Rightarrow> (nat, ListenerRecord) btree \<Rightarrow> held multiset" where
  "owned_tcp rs ls = (\<Sum>(_, r) \<leftarrow> rs. {#record_held r#}) + (\<Sum>(_, l) \<leftarrow> ls. listener_held l)"

definition owned_udp :: "(nat, UdpRecord) btree \<Rightarrow> SocketHandle multiset" where
  "owned_udp us = (\<Sum>(_, u) \<leftarrow> us. mset (ur_handles u))"

text \<open>Per record: the map key is the identifier, sizes are valid, and a socket that has not started
  to connect or listen is closed in the engine, where nothing can happen to it.\<close>

definition fresh :: "TcpSocket \<Rightarrow> bool" where
  "fresh sk \<longleftrightarrow> state sk = S_Closed \<and> tuple sk = None"

definition fresh_at :: "SocketSet \<Rightarrow> SocketHandle \<Rightarrow> bool" where
  "fresh_at ss h \<longleftrightarrow> (\<exists>sk. ss_get_tcp ss h = Some sk \<and> fresh sk)"

definition early :: "TcpRecord \<Rightarrow> bool" where
  "early r \<longleftrightarrow> phase r = PhaseOpen \<or> phase r = Bound"

definition sizes_ok :: "nat \<Rightarrow> nat \<Rightarrow> bool" where
  "sizes_ok rcvbuf sndbuf \<longleftrightarrow> valid_buffer_bytes rcvbuf \<and> valid_buffer_bytes sndbuf"

definition record_ok :: "SocketSet \<Rightarrow> nat \<Rightarrow> TcpRecord \<Rightarrow> bool" where
  "record_ok ss k r \<longleftrightarrow> si_id (tr_identity r) = k \<and> sizes_ok (tr_rcvbuf r) (tr_sndbuf r) \<and>
     (early r \<longrightarrow> fresh_at ss (tr_handle r)) \<and>
     (phase r = Bound \<longrightarrow> (case local r of None \<Rightarrow> True | Some loc \<Rightarrow> ip_port loc \<noteq> 0)) \<and>
     (early r \<longrightarrow> remote r = None) \<and>
     (\<forall>loc rem. local r = Some loc \<longrightarrow> remote r = Some rem \<longrightarrow> same_family (ip_addr loc) (ip_addr rem))"

definition listener_ok :: "nat \<Rightarrow> ListenerRecord \<Rightarrow> bool" where
  "listener_ok k l \<longleftrightarrow> si_id (lr_identity l) = k \<and> sizes_ok (lr_rcvbuf l) (lr_sndbuf l) \<and>
     bs_ok (pool l) \<and> le_port (listen_endpoint l) \<noteq> 0 \<and> ip_port (lr_local l) \<noteq> 0 \<and> length (pool l) = pool_target l \<and>
     pool_target l \<le> LISTENER_POOL_MAX \<and> length (accept_queue l) \<le> backlog l"

definition udp_ok :: "nat \<Rightarrow> UdpRecord \<Rightarrow> bool" where
  "udp_ok k u \<longleftrightarrow> si_id (ur_identity u) = k \<and> ur_handles u \<noteq> [] \<and> (ur_local u = None \<longrightarrow> length (ur_handles u) = 1)"

fun native_wf :: "NativeSocket \<Rightarrow> bool" where
  "native_wf (NTcp sk) = (ring_wf (rx_buffer sk) \<and> ring_wf (tx_buffer sk))"
| "native_wf (NUdp sk) = (pb_wf (u_rx_buffer sk) \<and> pb_wf (u_tx_buffer sk) \<and>
     pb_size (u_rx_buffer sk) = (PACKET_CAPACITY, PAYLOAD_BYTES) \<and>
     pb_size (u_tx_buffer sk) = (PACKET_CAPACITY, PAYLOAD_BYTES))"

declare native_wf.simps [simp del]

text \<open>The two ends of a connection are of the same address family.\<close>

fun paired :: "NativeSocket \<Rightarrow> bool" where
  "paired (NTcp sk) = (case tuple sk of None \<Rightarrow> True | Some (loc, rem) \<Rightarrow> same_family (ip_addr loc) (ip_addr rem))"
| "paired (NUdp sk) = True"

definition sockets_wf :: "SocketSet \<Rightarrow> bool" where
  "sockets_wf ss \<longleftrightarrow> (\<forall>h sk. ss_get ss h = Some sk \<longrightarrow> native_wf sk \<and> paired sk)"

definition own_at ::
    "held multiset \<Rightarrow> SocketHandle multiset \<Rightarrow> Limits \<Rightarrow> SocketSet \<Rightarrow> (nat, TcpRecord) btree
      \<Rightarrow> (nat, ListenerRecord) btree \<Rightarrow> (nat, UdpRecord) btree \<Rightarrow> bool" where
  "own_at x y l ss rs ls us \<longleftrightarrow> bt_ok rs \<and> bt_ok ls \<and> bt_ok us \<and> sockets_wf ss \<and>
     live_tcp ss = owned_tcp rs ls + x \<and> live_udp ss = owned_udp us + y \<and>
     ss_count ss \<le> sockets l \<and> sockets l \<le> usize_max \<and> native_bytes ss \<le> MAX_SOCKET_BUFFER_BYTES \<and>
     (\<forall>k r. bt_get rs k = Some r \<longrightarrow> record_ok ss k r) \<and>
     (\<forall>k l. bt_get ls k = Some l \<longrightarrow> listener_ok k l) \<and>
     (\<forall>k u. bt_get us k = Some u \<longrightarrow> udp_ok k u)"

lemma listener_held_size [simp]: "size (listener_held l) = length (pool l)"
  by (simp add: listener_held_def)

lemma held_bytes_listener [simp]: "held_bytes (listener_held l) = length (pool l) * (lr_rcvbuf l + lr_sndbuf l)"
proof -
  have "held_bytes (image_mset (\<lambda>h. (h, a, b)) (mset hs)) = length hs * (a + b)" for hs a b
    by (induction hs) (simp_all add: held_bytes_def)
  then show ?thesis by (simp add: listener_held_def)
qed

lemma held_bytes_record [simp]: "held_bytes (add_mset (record_held r) x) = tr_rcvbuf r + tr_sndbuf r + held_bytes x"
  by (simp add: record_held_def)

text \<open>The accounting of \<open>socket_buffer_bytes\<close> counts the owned sockets.\<close>

lemma socket_buffer_bytes_owned:
  "socket_buffer_bytes s =
     held_bytes (owned_tcp (tcp_records s) (tcp_listeners s)) + size (owned_udp (udp_records s)) * BUFFER_BYTES"
proof -
  have "held_bytes (\<Sum>(_, r) \<leftarrow> rs. {#record_held r#}) = (\<Sum>(_, r) \<leftarrow> rs. tr_rcvbuf r + tr_sndbuf r)"
    for rs :: "(nat, TcpRecord) btree"
    by (induction rs) (auto simp: record_held_def)
  moreover have "held_bytes (\<Sum>(_, l) \<leftarrow> ls. listener_held l) = (\<Sum>(_, l) \<leftarrow> ls. length (pool l) * (lr_rcvbuf l + lr_sndbuf l))"
    for ls :: "(nat, ListenerRecord) btree"
    by (induction ls) auto
  moreover have "size (\<Sum>(_, u) \<leftarrow> us. mset (ur_handles u)) * n = (\<Sum>(_, u) \<leftarrow> us. length (ur_handles u) * n)"
    for us :: "(nat, UdpRecord) btree" and n
    by (induction us) (auto simp: algebra_simps)
  ultimately show ?thesis
    by (simp add: socket_buffer_bytes_def owned_tcp_def owned_udp_def)
qed

section \<open>Rules for records\<close>

lemma owned_tcp_insert_record:
  "bt_ok rs \<Longrightarrow> bt_get rs k = None \<Longrightarrow> owned_tcp (bt_insert k r rs) ls = add_mset (record_held r) (owned_tcp rs ls)"
  by (simp add: owned_tcp_def btm.sum_insert_new)

lemma owned_tcp_remove_record:
  "bt_ok rs \<Longrightarrow> bt_get rs k = Some r \<Longrightarrow> owned_tcp rs ls = add_mset (record_held r) (owned_tcp (bt_remove k rs) ls)"
  using btm.sum_remove [of rs k r "\<lambda>(_, r). {#record_held r#}"] by (simp add: owned_tcp_def)

lemma owned_tcp_update_record:
  assumes "bt_ok rs" and "bt_get rs k = Some r" and "record_held r' = record_held r"
  shows "owned_tcp (bt_insert k r' rs) ls = owned_tcp rs ls"
  using btm.sum_insert_old [OF assms(1,2), of "\<lambda>(_, r). {#record_held r#}" r'] assms(3) by (simp add: owned_tcp_def)

lemma owned_tcp_insert_listener:
  "bt_ok ls \<Longrightarrow> bt_get ls k = None \<Longrightarrow> owned_tcp rs (bt_insert k l ls) = owned_tcp rs ls + listener_held l"
  by (simp add: owned_tcp_def btm.sum_insert_new ac_simps)

lemma owned_tcp_remove_listener:
  "bt_ok ls \<Longrightarrow> bt_get ls k = Some l \<Longrightarrow> owned_tcp rs ls = owned_tcp rs (bt_remove k ls) + listener_held l"
  using btm.sum_remove [of ls k l "\<lambda>(_, l). listener_held l"] by (simp add: owned_tcp_def ac_simps)

lemma owned_tcp_update_listener:
  assumes "bt_ok ls" and "bt_get ls k = Some l" and "listener_held l' = listener_held l"
  shows "owned_tcp rs (bt_insert k l' ls) = owned_tcp rs ls"
  using btm.sum_insert_old [OF assms(1,2), of "\<lambda>(_, l). listener_held l" l'] assms(3) by (simp add: owned_tcp_def)

lemma owned_udp_insert:
  "bt_ok us \<Longrightarrow> bt_get us k = None \<Longrightarrow> owned_udp (bt_insert k u us) = owned_udp us + mset (ur_handles u)"
  by (simp add: owned_udp_def btm.sum_insert_new ac_simps)

lemma owned_udp_remove:
  "bt_ok us \<Longrightarrow> bt_get us k = Some u \<Longrightarrow> owned_udp us = owned_udp (bt_remove k us) + mset (ur_handles u)"
  using btm.sum_remove [of us k u "\<lambda>(_, u). mset (ur_handles u)"] by (simp add: owned_udp_def ac_simps)

lemma own_insert_record:
  assumes "own_at (add_mset (record_held r) x) y l ss rs ls us" and "bt_get rs k = None" and "record_ok ss k r"
  shows "own_at x y l ss (bt_insert k r rs) ls us"
  using assms by (auto simp: own_at_def owned_tcp_insert_record)

lemma own_remove_record:
  assumes "own_at x y l ss rs ls us" and "bt_get rs k = Some r"
  shows "own_at (add_mset (record_held r) x) y l ss (bt_remove k rs) ls us"
  using assms owned_tcp_remove_record [of rs k r ls] by (auto simp: own_at_def split: if_splits)

lemma own_update_record:
  assumes "own_at x y l ss rs ls us" and "bt_get rs k = Some r" and "record_held r' = record_held r" and "record_ok ss k r'"
  shows "own_at x y l ss (bt_insert k r' rs) ls us"
  using assms by (auto simp: own_at_def owned_tcp_update_record)

lemma own_insert_listener:
  assumes "own_at (x + listener_held l') y l ss rs ls us" and "bt_get ls k = None" and "listener_ok k l'"
  shows "own_at x y l ss rs (bt_insert k l' ls) us"
  using assms by (auto simp: own_at_def owned_tcp_insert_listener ac_simps)

lemma own_remove_listener:
  assumes "own_at x y l ss rs ls us" and "bt_get ls k = Some l'"
  shows "own_at (x + listener_held l') y l ss rs (bt_remove k ls) us" and "listener_ok k l'"
  using assms owned_tcp_remove_listener [of ls k l' rs] by (auto simp: own_at_def ac_simps split: if_splits)

lemma own_update_listener:
  assumes "own_at x y l ss rs ls us" and "bt_get ls k = Some l1" and "listener_held l2 = listener_held l1" and "listener_ok k l2"
  shows "own_at x y l ss rs (bt_insert k l2 ls) us"
  using assms by (auto simp: own_at_def owned_tcp_update_listener)

lemma own_insert_udp:
  assumes "own_at x (y + mset (ur_handles u)) l ss rs ls us" and "bt_get us k = None" and "udp_ok k u"
  shows "own_at x y l ss rs ls (bt_insert k u us)"
  using assms by (auto simp: own_at_def owned_udp_insert ac_simps)

lemma own_remove_udp:
  assumes "own_at x y l ss rs ls us" and "bt_get us k = Some u"
  shows "own_at x (y + mset (ur_handles u)) l ss rs ls (bt_remove k us)"
  using assms owned_udp_remove [of us k u] by (auto simp: own_at_def ac_simps split: if_splits)

lemma own_update_udp:
  assumes "own_at x y l ss rs ls us" and "bt_get us k = Some u"
    and "mset (ur_handles u') = mset (ur_handles u) + y'" and "udp_ok k u'" and "y = y' + z"
  shows "own_at x z l ss rs ls (bt_insert k u' us)"
proof -
  have "owned_udp (bt_insert k u' us) = owned_udp us + y'"
    using btm.sum_insert_old [of us k u "\<lambda>(_, u). mset (ur_handles u)" u'] assms(1-3)
    by (simp add: own_at_def owned_udp_def)
  then show ?thesis using assms(1,4,5) by (auto simp: own_at_def ac_simps)
qed

section \<open>Rules for sockets\<close>

lemma own_held:
  assumes "own_at (add_mset (h, i) x) y l ss rs ls us"
  shows "\<exists>sk. ss_get_tcp ss h = Some sk \<and> tcp_info sk = i \<and> native_wf (NTcp sk)"
  using assms live_tcp_get [of h i ss] by (auto simp: own_at_def sockets_wf_def ss_get_tcp_iff)

lemma own_held_udp:
  assumes "own_at x y l ss rs ls us" and "h \<in># y"
  shows "\<exists>sk. ss_get_udp ss h = Some sk \<and> native_wf (NUdp sk)"
  using assms live_udp_get [of h ss] by (auto simp: own_at_def sockets_wf_def ss_get_udp_iff)

lemma own_record:
  assumes "own_at x y l ss rs ls us" and "bt_get rs k = Some r"
  shows "\<exists>sk. ss_get_tcp ss (tr_handle r) = Some sk \<and> tcp_info sk = (tr_rcvbuf r, tr_sndbuf r) \<and> native_wf (NTcp sk)"
    and "record_ok ss k r"
  using own_held [OF own_remove_record [OF assms, unfolded record_held_def]] assms by (auto simp: own_at_def)

lemma own_udp:
  assumes "own_at x y l ss rs ls us" and "bt_get us k = Some u"
  shows "udp_ok k u" and "h \<in> set (ur_handles u) \<Longrightarrow> \<exists>sk. ss_get_udp ss h = Some sk \<and> native_wf (NUdp sk)"
  using own_held_udp [OF own_remove_udp [OF assms], of h] assms by (auto simp: own_at_def)

text \<open>No other record refers to a socket in hand, or to the socket of a record.\<close>

lemma own_distinct:
  assumes "own_at (add_mset (h, i) x) y l ss rs ls us" and "bt_get rs k = Some r"
  shows "tr_handle r \<noteq> h"
proof
  assume eq: "tr_handle r = h"
  have "live_tcp ss = add_mset (h, i) (owned_tcp rs ls + x)" using assms(1) by (simp add: own_at_def)
  from live_tcp_unique [OF this] have "record_held r \<notin># owned_tcp rs ls" by (simp add: record_held_def eq)
  then show False using owned_tcp_remove_record [of rs k r ls] assms by (auto simp: own_at_def)
qed

lemma own_distinct_records:
  assumes "own_at x y l ss rs ls us" and "bt_get rs k = Some r" and "bt_get rs k' = Some r'" and "k \<noteq> k'"
  shows "tr_handle r' \<noteq> tr_handle r"
proof -
  have "bt_get (bt_remove k rs) k' = Some r'" using assms by (simp add: own_at_def)
  from own_distinct [OF own_remove_record [OF assms(1,2), unfolded record_held_def] this] show ?thesis .
qed

lemma record_ok_frame:
  "record_ok ss k r \<Longrightarrow> (early r \<Longrightarrow> fresh_at ss (tr_handle r) \<Longrightarrow> fresh_at ss' (tr_handle r)) \<Longrightarrow> record_ok ss' k r"
  by (auto simp: record_ok_def)

lemma fresh_at_put: "ss_get_tcp ss h = Some old \<Longrightarrow> fresh_at (ss_put h (NTcp sk) ss) h' = (if h' = h then fresh sk else fresh_at ss h')"
  by (auto simp: fresh_at_def ss_get_put ss_get_tcp_iff)

lemma fresh_at_put_udp: "ss_get_udp ss h = Some old \<Longrightarrow> fresh_at (ss_put h (NUdp sk) ss) h' = fresh_at ss h'"
  by (auto simp: fresh_at_def ss_get_put ss_get_tcp_iff ss_get_udp_iff)

lemma sockets_wf_put: "sockets_wf ss \<Longrightarrow> ss_get ss h \<noteq> None \<Longrightarrow> native_wf sk \<Longrightarrow> paired sk \<Longrightarrow> sockets_wf (ss_put h sk ss)"
  by (auto simp: sockets_wf_def ss_get_put split: if_splits)

text \<open>Changing a TCP socket in place.\<close>

lemma own_put:
  assumes "own_at x y l ss rs ls us" and "ss_get_tcp ss h = Some old" and "tcp_info sk = tcp_info old" and "native_wf (NTcp sk)"
    and "paired (NTcp sk)" and "\<And>k r. bt_get rs k = Some r \<Longrightarrow> tr_handle r = h \<Longrightarrow> early r \<Longrightarrow> fresh old \<Longrightarrow> fresh sk"
  shows "own_at x y l (ss_put h (NTcp sk) ss) rs ls us"
proof -
  note live = live_tcp_put [OF assms(2,3)]
  have "record_ok (ss_put h (NTcp sk) ss) k r" if "bt_get rs k = Some r" for k r
    using own_record(2) [OF assms(1) that]
  proof (rule record_ok_frame)
    assume "early r" "fresh_at ss (tr_handle r)"
    then show "fresh_at (ss_put h (NTcp sk) ss) (tr_handle r)"
      using assms(2,6) that by (auto simp: fresh_at_put [OF assms(2)] fresh_at_def [of ss])
  qed
  then show ?thesis
    using assms(1,2,4,5) sockets_wf_put [of ss h "NTcp sk"]
    by (auto simp: own_at_def live ss_count_live native_bytes_def ss_get_tcp_iff)
qed

lemma own_put_udp:
  assumes "own_at x y l ss rs ls us" and "ss_get_udp ss h = Some old" and "native_wf (NUdp sk)"
  shows "own_at x y l (ss_put h (NUdp sk) ss) rs ls us"
proof -
  note live = live_udp_put [OF assms(2), of sk]
  show ?thesis
    using assms sockets_wf_put [of ss h "NUdp sk"]
    by (auto simp: own_at_def live ss_count_live native_bytes_def ss_get_udp_iff record_ok_def fresh_at_put_udp [OF assms(2)])
qed

text \<open>Adding and removing sockets.\<close>

lemma fresh_at_add: "ss_add sk ss = (h, ss') \<Longrightarrow> fresh_at ss h' \<Longrightarrow> fresh_at ss' h'"
  using ss_add_get [of sk ss h ss'] by (auto simp: fresh_at_def ss_get_tcp_iff)

lemma own_add_tcp:
  assumes "own_at x y l ss rs ls us" and "ss_add (NTcp sk) ss = (h, ss')" and "native_wf (NTcp sk)"
    and "ss_count ss < sockets l" and "native_bytes ss + fst (tcp_info sk) + snd (tcp_info sk) \<le> MAX_SOCKET_BUFFER_BYTES"
    and "tuple sk = None"
  shows "own_at (add_mset (h, tcp_info sk) x) y l ss' rs ls us"
proof -
  note live = live_add_tcp [OF assms(2)]
  have "sockets_wf ss'"
    using assms(1,3,6) ss_add_get [OF assms(2)] by (auto simp: own_at_def sockets_wf_def split: if_splits)
  moreover have "native_bytes ss' = native_bytes ss + fst (tcp_info sk) + snd (tcp_info sk)"
    by (cases "tcp_info sk") (simp add: native_bytes_def live)
  ultimately show ?thesis
    using assms fresh_at_add [OF assms(2)] by (auto simp: own_at_def live ss_count_live record_ok_def)
qed

lemma own_add_udp:
  assumes "own_at x y l ss rs ls us" and "ss_add (NUdp sk) ss = (h, ss')" and "native_wf (NUdp sk)"
    and "ss_count ss < sockets l" and "native_bytes ss + BUFFER_BYTES \<le> MAX_SOCKET_BUFFER_BYTES"
  shows "own_at x (add_mset h y) l ss' rs ls us"
proof -
  note live = live_add_udp [OF assms(2)]
  have "sockets_wf ss'"
    using assms(1,3) ss_add_get [OF assms(2)] by (auto simp: own_at_def sockets_wf_def split: if_splits)
  then show ?thesis
    using assms fresh_at_add [OF assms(2)] by (auto simp: own_at_def live ss_count_live record_ok_def native_bytes_def)
qed

lemma fresh_at_remove: "fresh_at (ss_remove h ss) h' \<longleftrightarrow> h' \<noteq> h \<and> fresh_at ss h'"
  by (auto simp: fresh_at_def ss_get_remove ss_get_tcp_iff)

lemma sockets_wf_remove: "sockets_wf ss \<Longrightarrow> sockets_wf (ss_remove h ss)"
  by (auto simp: sockets_wf_def ss_get_remove split: if_splits)

lemma own_remove_tcp:
  assumes "own_at (add_mset (h, i) x) y l ss rs ls us"
  shows "own_at x y l (ss_remove h ss) rs ls us" and "ss_get ss h \<noteq> None"
proof -
  have "live_tcp ss = add_mset (h, i) (owned_tcp rs ls + x)" using assms by (simp add: own_at_def)
  note live = live_remove_tcp [OF this]
  show "ss_get ss h \<noteq> None" by (rule live)
  have "record_ok (ss_remove h ss) k r" if "bt_get rs k = Some r" for k r
    using own_record(2) [OF assms that] own_distinct [OF assms that]
    by (auto simp: record_ok_def fresh_at_remove)
  then show "own_at x y l (ss_remove h ss) rs ls us"
    using assms live(1,2) sockets_wf_remove [of ss h]
    by (cases i) (auto simp: own_at_def ss_count_live native_bytes_def)
qed

lemma own_remove_udp_socket:
  assumes "own_at x (add_mset h y) l ss rs ls us"
  shows "own_at x y l (ss_remove h ss) rs ls us" and "ss_get ss h \<noteq> None"
proof -
  have "live_udp ss = add_mset h (owned_udp us + y)" using assms by (simp add: own_at_def)
  note live = live_remove_udp [OF this]
  show "ss_get ss h \<noteq> None" by (rule live)
  obtain sk where sk: "ss_get ss h = Some (NUdp sk)"
    using own_held_udp [OF assms, of h] by (auto simp: ss_get_udp_iff)
  have "record_ok (ss_remove h ss) k r" if "bt_get rs k = Some r" for k r
    using own_record [OF assms that] sk by (auto simp: record_ok_def fresh_at_remove ss_get_tcp_iff)
  then show "own_at x y l (ss_remove h ss) rs ls us"
    using assms live(1,2) sockets_wf_remove [of ss h] by (auto simp: own_at_def ss_count_live native_bytes_def)
qed

end
