(* ===== verification/Stack_Ready.thy ===== *)
theory Stack_Ready
  imports Stack_State
begin

text \<open>
  The end of every call (\<open>finish_call\<close> of \<open>stack.rs\<close>): pending aborts are sent, queued and swept
  readiness keys are delivered to their waiters, within the call's event limit and time budget, and
  the envelope says whether work remains.
\<close>

section \<open>Definitions\<close>

definition observe_notification :: "bool \<Rightarrow> NativeStack \<Rightarrow> NativeStack" where
  "observe_notification delivered s =
     (let c = counters s in
      if delivered then s\<lparr>counters := c\<lparr>notifications_delivered := notifications_delivered c + 1\<rparr>\<rparr>
      else s\<lparr>counters := c\<lparr>notifications_dropped := notifications_dropped c + 1\<rparr>\<rparr>)"

definition send_message :: "Env \<Rightarrow> Message \<Rightarrow> NativeStack \<Rightarrow> NativeStack" where
  "send_message E msg s =
     observe_notification (e_send E (length (outbox s)) msg) (s\<lparr>outbox := outbox s @ [msg]\<rparr>)"

definition drop_readiness :: "NativeStack \<Rightarrow> NativeStack" where
  "drop_readiness s = s\<lparr>counters := (counters s)\<lparr>readiness_dropped := readiness_dropped (counters s) + 1\<rparr>\<rparr>"

definition deliver_ready :: "Env \<Rightarrow> ReadyKey \<Rightarrow> NativeStack \<Rightarrow> NativeStack" where
  "deliver_ready E key s =
     (case take_ready_waiter key (socket_table s) of
        (Notify w, t) \<Rightarrow>
          (let s = send_message E (SelectMessage (w_pid w) (identity key) (w_reference w)) (s\<lparr>socket_table := t\<rparr>)
           in s\<lparr>socket_table := remember_sent (identity key) (direction key) w (socket_table s)\<rparr>)
      | (_, t) \<Rightarrow> drop_readiness (s\<lparr>socket_table := t\<rparr>))"

definition deliver_or_discard_ready :: "Env \<Rightarrow> ReadyKey \<Rightarrow> NativeStack \<Rightarrow> NativeStack" where
  "deliver_or_discard_ready E key s =
     (if st_lifecycle s = Running then deliver_ready E key s else drop_readiness s)"

definition send_abort :: "Env \<Rightarrow> PendingNotification \<Rightarrow> NativeStack \<Rightarrow> NativeStack" where
  "send_abort E n s =
     (let reason = (case st_lifecycle s of Running \<Rightarrow> AbortClosed | _ \<Rightarrow> shutdown_reason s)
      in send_message E (AbortMessage (w_pid (pn_waiter n)) (pn_identity n) (w_reference (pn_waiter n)) reason) s)"

text \<open>The loops return the readiness work done and the uncharged work units. \<open>n\<close> is what the event
  limit leaves.\<close>

fun abort_loop :: "Env \<Rightarrow> nat \<Rightarrow> nat \<Rightarrow> nat \<Rightarrow> (NativeStack, 'e, nat \<times> nat) prog" where
  "abort_loop E 0 work uncharged = ret (work, uncharged)"
| "abort_loop E (Suc n) work uncharged =
     bnd (gets pending_notifications) (\<lambda>ns.
     case ns of
       [] \<Rightarrow> ret (work, uncharged)
     | x # xs \<Rightarrow>
         bnd (within_budget E) (\<lambda>ok.
         if \<not> ok then ret (work, uncharged)
         else
           bnd (modify (\<lambda>s. s\<lparr>pending_notifications := xs\<rparr>)) (\<lambda>_.
           bnd (modify (send_abort E x)) (\<lambda>_.
           bnd (charge_chunk E (uncharged + 1) False) (\<lambda>uncharged.
           abort_loop E n (work + 1) uncharged)))))"

fun queued_loop :: "Env \<Rightarrow> ReadyKey list \<Rightarrow> nat \<Rightarrow> nat \<Rightarrow> (NativeStack, 'e, nat \<times> nat) prog" where
  "queued_loop E [] work uncharged = ret (work, uncharged)"
| "queued_loop E (key # keys) work uncharged =
     bnd (within_budget E) (\<lambda>ok.
     if ok then
       bnd (modify (deliver_or_discard_ready E key)) (\<lambda>_.
       bnd (charge_chunk E (uncharged + 1) False) (\<lambda>uncharged.
       queued_loop E keys (work + 1) uncharged))
     else
       bnd (modify (\<lambda>s. s\<lparr>ready_sweep_pending := ready_sweep_pending s @ [key]\<rparr>)) (\<lambda>_.
       queued_loop E keys work uncharged))"

fun pending_loop :: "Env \<Rightarrow> nat \<Rightarrow> nat \<Rightarrow> nat \<Rightarrow> (NativeStack, 'e, nat \<times> nat) prog" where
  "pending_loop E 0 work uncharged = ret (work, uncharged)"
| "pending_loop E (Suc n) work uncharged =
     bnd (gets ready_sweep_pending) (\<lambda>ks.
     case ks of
       [] \<Rightarrow> ret (work, uncharged)
     | key # ks \<Rightarrow>
         bnd (within_budget E) (\<lambda>ok.
         if \<not> ok then ret (work, uncharged)
         else
           bnd (modify (\<lambda>s. s\<lparr>ready_sweep_pending := ks\<rparr>)) (\<lambda>_.
           bnd (modify (deliver_or_discard_ready E key)) (\<lambda>_.
           bnd (charge_chunk E (uncharged + 1) False) (\<lambda>uncharged.
           pending_loop E n (work + 1) uncharged)))))"

fun scan_keys_loop :: "Env \<Rightarrow> ReadyKey list \<Rightarrow> nat \<Rightarrow> (NativeStack, 'e, nat) prog" where
  "scan_keys_loop E [] uncharged = ret uncharged"
| "scan_keys_loop E (key # keys) uncharged =
     bnd (within_budget E) (\<lambda>ok.
     if ok then
       bnd (modify (deliver_or_discard_ready E key)) (\<lambda>_.
       bnd (charge_chunk E (uncharged + 1) False) (\<lambda>uncharged.
       scan_keys_loop E keys uncharged))
     else
       bnd (modify (\<lambda>s. s\<lparr>ready_sweep_pending := ready_sweep_pending s @ [key]\<rparr>)) (\<lambda>_.
       scan_keys_loop E keys uncharged))"

definition start_sweep :: "NativeStack \<Rightarrow> NativeStack" where
  "start_sweep s =
     (let (overflowed, q) = take_overflow (ready s); s = s\<lparr>ready := q\<rparr>
      in if overflowed \<and> st_lifecycle s = Running
         then (if ready_sweep s then s\<lparr>ready_sweep_resweep := True\<rparr>
               else s\<lparr>ready_sweep := True, ready_sweep_cursor := None\<rparr>)
         else s)"

definition drain_ready :: "Env \<Rightarrow> nat \<Rightarrow> (NativeStack, 'e, ReadyKey list) prog" where
  "drain_ready E limit = act (\<lambda>s.
     case drain_while (e_clock E) limit (call_budget s) (ready s) of
       (keys, q, m) \<Rightarrow> (keys, s\<lparr>ready := q, call_budget := m\<rparr>))"

definition run_scan :: "Env \<Rightarrow> nat \<Rightarrow> (NativeStack, 'e, ReadyScan) prog" where
  "run_scan E remaining = act (\<lambda>s.
     case scan_ready (e_clock E) (ready_sweep_cursor s) remaining remaining (call_budget s) (socket_table s) of
       (scan, m) \<Rightarrow> (scan, s\<lparr>call_budget := m\<rparr>))"

definition after_scan :: "ReadyScan \<Rightarrow> NativeStack \<Rightarrow> NativeStack" where
  "after_scan scan s =
     (if scan_complete scan \<and> ready_sweep_resweep s
      then s\<lparr>ready_sweep_resweep := False, ready_sweep_cursor := None\<rparr>
      else s\<lparr>ready_sweep := \<not> scan_complete scan,
             ready_sweep_cursor := (if \<not> scan_complete scan then scan_cursor scan else None)\<rparr>)"

definition sweep_step :: "Env \<Rightarrow> nat \<Rightarrow> nat \<Rightarrow> (NativeStack, 'e, nat \<times> nat) prog" where
  "sweep_step E work uncharged =
     bnd (gets (\<lambda>s. s)) (\<lambda>s.
     if ready_sweep s \<and> ready_sweep_pending s = [] \<and> work < ready_events (limits s) then
       bnd (run_scan E (ready_events (limits s) - work)) (\<lambda>scan.
       bnd (scan_keys_loop E (scan_keys scan) uncharged) (\<lambda>uncharged.
       bnd (modify (after_scan scan)) (\<lambda>_.
       ret (work + max (entries_scanned scan) (length (scan_keys scan)), uncharged))))
     else ret (work, uncharged))"

definition readiness_remains :: "NativeStack \<Rightarrow> bool" where
  "readiness_remains s \<longleftrightarrow> pending_notifications s \<noteq> [] \<or> has_pending (ready s) \<or>
     ready_sweep_pending s \<noteq> [] \<or> ready_sweep s"

definition finish_call ::
    "Env \<Rightarrow> 'a \<Rightarrow> Effects \<Rightarrow> PendingNotification list \<Rightarrow> (NativeStack, 'e, 'a Envelope) prog" where
  "finish_call E res effects aborts =
     bnd (modify (\<lambda>s. s\<lparr>pending_notifications := pending_notifications s @ aborts\<rparr>)) (\<lambda>_.
     bnd (gets (\<lambda>s. ready_events (limits s))) (\<lambda>limit.
     bnd (abort_loop E limit 0 0) (\<lambda>(work, uncharged).
     bnd (modify start_sweep) (\<lambda>_.
     bnd (drain_ready E (limit - work)) (\<lambda>queued.
     bnd (queued_loop E queued work uncharged) (\<lambda>(work, uncharged).
     bnd (pending_loop E (limit - work) work uncharged) (\<lambda>(work, uncharged).
     bnd (sweep_step E work uncharged) (\<lambda>(work, uncharged).
     bnd (gets (\<lambda>s. eff_more effects \<or> readiness_remains s)) (\<lambda>more.
     bnd (modify (\<lambda>s. s\<lparr>counters := observe (Work_default\<lparr>w_ready_events := work,
            w_maintenance_work := eff_maintenance_work effects\<rparr>) (counters s)\<rparr>)) (\<lambda>_.
     bnd (charge_chunk E uncharged True) (\<lambda>_.
     bnd (modify (\<lambda>s. case eff_poll_at effects of
            Some millis \<Rightarrow> if \<not> more then s\<lparr>scheduled_poll_at := Some (Instant_from_millis millis)\<rparr> else s
          | None \<Rightarrow> s)) (\<lambda>_.
     ret \<lparr>env_result = res, env_output = eff_output effects, env_poll_at = eff_poll_at effects,
           env_more = more\<rparr>))))))))))))"

end
