(* ===== verification/Stack_Invariant.thy ===== *)
theory Stack_Invariant
  imports Ownership Stack_Ready
begin

text \<open>
  The invariant of a stack, and what every operation does last.

  \<open>held_inv x y K s\<close> joins four parts: the ownership of native sockets, with \<open>x\<close> and \<open>y\<close> in hand; the
  identifiers, all of them issued, and the logical sockets, open or closing, within the limit; the
  device queues; and the records \<open>K\<close> an operation still relies on after driving the engine.
  It depends only on the \<open>view\<close> of the state, which \<open>finish_call\<close> does not change.
\<close>

section \<open>Table signatures\<close>

definition ids :: "SocketTable \<Rightarrow> nat set" where
  "ids t = dom (bt_get (entries t))"

definition table_sig :: "SocketTable \<Rightarrow> bool \<times> nat set \<times> nat \<times> nat" where
  "table_sig t = (table_wf t, ids t, max_entries t, max_waiters t)"

lemma ids_live: "k \<in> ids t \<longleftrightarrow> (\<exists>g. live t (SocketIdentity k g))"
  by (auto simp: ids_def live_def)

lemma table_sig_eqI:
  assumes "table_wf t" and "table_wf t'" and "\<And>i. live t' i = live t i"
    and "max_entries t' = max_entries t" and "max_waiters t' = max_waiters t"
  shows "table_sig t' = table_sig t"
  using assms by (auto simp: table_sig_def ids_live)

lemma table_sig_flags [simp]: "table_sig (t\<lparr>flags := f\<rparr>) = table_sig t"
  by (simp add: table_sig_def ids_def)

lemma sig_take_ready: "table_wf t \<Longrightarrow> take_ready_waiter key t = (r, t') \<Longrightarrow> table_sig t' = table_sig t"
  by (rule table_sig_eqI [OF _ table_wf_take_ready live_take_ready])
    (auto simp: take_ready_waiter_def Let_def split: option.splits if_splits)

lemma sig_remember: "table_wf t \<Longrightarrow> table_sig (remember_sent i d w t) = table_sig t"
  by (rule table_sig_eqI [OF _ table_wf_remember_sent live_remember])
    (auto simp: remember_sent_def split: option.splits)

lemma sig_take_waiter: "table_wf t \<Longrightarrow> take_waiter i k d t = (r, t') \<Longrightarrow> table_sig t' = table_sig t"
  by (rule table_sig_eqI [OF _ table_wf_take_waiter live_take_waiter])
    (auto simp: take_waiter_def elim!: check_cases split: option.splits)

lemma sig_install: "table_wf t \<Longrightarrow> install_waiter w t = (r, t') \<Longrightarrow> table_sig t' = table_sig t"
  by (rule table_sig_eqI [OF _ table_wf_install live_install])
    (auto simp: install_waiter_def Let_def elim!: check_cases split: option.splits if_splits)

lemma sig_cancel: "table_wf t \<Longrightarrow> cancel i op rf t = (r, t') \<Longrightarrow> table_sig t' = table_sig t"
  by (rule table_sig_eqI [OF _ table_wf_cancel live_cancel])
    (auto simp: cancel_def Let_def split: option.splits if_splits)

section \<open>The invariant\<close>

definition record_sig :: "TcpRecord \<Rightarrow> SocketIdentity \<times> held" where
  "record_sig r = (tr_identity r, record_held r)"

type_synonym kept = "(nat \<times> SocketIdentity \<times> held) set"

definition keys :: "(nat, TcpRecord) btree \<Rightarrow> (nat, ListenerRecord) btree \<Rightarrow> (nat, UdpRecord) btree \<Rightarrow> nat set" where
  "keys rs ls us = dom (bt_get rs) \<union> dom (bt_get ls) \<union> dom (bt_get us)"

definition ids_at :: "Limits \<Rightarrow> bool \<times> nat set \<times> nat \<times> nat \<Rightarrow> IdCounters \<Rightarrow> nat set \<Rightarrow> nat bset \<Rightarrow> bool" where
  "ids_at l sig c D cl \<longleftrightarrow>
     (case sig of (ok, I, me, mw) \<Rightarrow>
        ok \<and> me = sockets l \<and> mw = sockets l * 2 \<and> finite I \<and> set cl \<inter> I = {} \<and>
        card I + length cl \<le> sockets l \<and> bs_ok cl \<and> (\<forall>k \<in> I \<union> set cl \<union> D. k < next_socket_id c))"

definition keep_at :: "kept \<Rightarrow> (nat, TcpRecord) btree \<Rightarrow> nat bset \<Rightarrow> bool" where
  "keep_at K rs cl \<longleftrightarrow>
     (\<forall>(k, v) \<in> K. k \<notin> set cl \<and> (\<exists>r. bt_get rs k = Some r \<and> record_sig r = v))"

type_synonym view =
  "Limits \<times> SocketSet \<times> (nat, TcpRecord) btree \<times> (nat, ListenerRecord) btree \<times> (nat, UdpRecord) btree \<times>
   nat bset \<times> IdCounters \<times> BeamDevice \<times> bool \<times> nat set \<times> nat \<times> nat"

definition view :: "NativeStack \<Rightarrow> view" where
  "view s = (limits s, socket_set s, tcp_records s, tcp_listeners s, udp_records s,
     closing_tcp s, id_counters s, dev s, table_sig (socket_table s))"

lemma view_frame [simp]:
  "view (s\<lparr>stack_id := a0\<rparr>) = view s" "view (s\<lparr>ip_addrs := a1\<rparr>) = view s"
  "view (s\<lparr>iface_routes := a2\<rparr>) = view s" "view (s\<lparr>engine_calls := a3\<rparr>) = view s"
  "view (s\<lparr>tcp_connections := a4\<rparr>) = view s" "view (s\<lparr>closing_deadlines := a5\<rparr>) = view s"
  "view (s\<lparr>closing_sweep_cursor := a6\<rparr>) = view s" "view (s\<lparr>closing_cleanup_pending := a7\<rparr>) = view s"
  "view (s\<lparr>closing_cleanup_resweep := a8\<rparr>) = view s" "view (s\<lparr>maintenance_cleanup_turn := a9\<rparr>) = view s"
  "view (s\<lparr>scheduled_poll_at := a10\<rparr>) = view s" "view (s\<lparr>next_ephemeral_port := a11\<rparr>) = view s"
  "view (s\<lparr>next_udp_ephemeral_port := a12\<rparr>) = view s" "view (s\<lparr>listener_scan_cursor := a13\<rparr>) = view s"
  "view (s\<lparr>listener_scan_pending := a14\<rparr>) = view s" "view (s\<lparr>listener_scan_resweep := a15\<rparr>) = view s"
  "view (s\<lparr>listener_maintenance_turn := a16\<rparr>) = view s" "view (s\<lparr>ready := a17\<rparr>) = view s"
  "view (s\<lparr>ready_sweep := a18\<rparr>) = view s" "view (s\<lparr>ready_sweep_cursor := a19\<rparr>) = view s"
  "view (s\<lparr>ready_sweep_resweep := a20\<rparr>) = view s" "view (s\<lparr>ready_sweep_pending := a21\<rparr>) = view s"
  "view (s\<lparr>counters := a22\<rparr>) = view s" "view (s\<lparr>st_lifecycle := a23\<rparr>) = view s"
  "view (s\<lparr>call_budget := a24\<rparr>) = view s" "view (s\<lparr>pending_notifications := a25\<rparr>) = view s"
  "view (s\<lparr>shutdown_reason := a26\<rparr>) = view s" "view (s\<lparr>outbox := a27\<rparr>) = view s"
  "view (s\<lparr>next_forced_budget_checkpoints := a28\<rparr>) = view s" "view (s\<lparr>next_forced_slice_exhaustion := a29\<rparr>) = view s"
  by (simp_all add: view_def)

definition held_inv :: "held multiset \<Rightarrow> SocketHandle multiset \<Rightarrow> kept \<Rightarrow> NativeStack \<Rightarrow> bool" where
  "held_inv x y K s \<longleftrightarrow>
     own_at x y (limits s) (socket_set s) (tcp_records s) (tcp_listeners s) (udp_records s) \<and>
     ids_at (limits s) (table_sig (socket_table s)) (id_counters s)
       (keys (tcp_records s) (tcp_listeners s) (udp_records s)) (closing_tcp s) \<and>
     keep_at K (tcp_records s) (closing_tcp s) \<and> device_wf (dev s)"

definition stack_inv :: "NativeStack \<Rightarrow> bool" where
  "stack_inv = held_inv {#} {#} {}"

lemma invD:
  assumes "held_inv x y K s"
  shows "own_at x y (limits s) (socket_set s) (tcp_records s) (tcp_listeners s) (udp_records s)"
    and "ids_at (limits s) (table_sig (socket_table s)) (id_counters s)
      (keys (tcp_records s) (tcp_listeners s) (udp_records s)) (closing_tcp s)"
    and "keep_at K (tcp_records s) (closing_tcp s)" and "device_wf (dev s)"
    and "bt_ok (tcp_records s)" and "bt_ok (tcp_listeners s)" and "bt_ok (udp_records s)"
  using assms by (simp_all add: held_inv_def own_at_def)

lemma ids_at_keys: "ids_at l sig c D cl \<Longrightarrow> D' \<subseteq> insert k D \<Longrightarrow> k < next_socket_id c \<Longrightarrow> ids_at l sig c D' cl"
  by (auto simp: ids_at_def)

lemma ids_at_fewer: "ids_at l sig c D cl \<Longrightarrow> D' \<subseteq> D \<Longrightarrow> ids_at l sig c D' cl"
  by (auto simp: ids_at_def)

lemma keep_at_insert:
  "keep_at K rs cl \<Longrightarrow> bt_ok rs \<Longrightarrow> (\<forall>r. bt_get rs k = Some r \<longrightarrow> record_sig r' = record_sig r) \<Longrightarrow> keep_at K (bt_insert k r' rs) cl"
  by (fastforce simp: keep_at_def)

lemma keep_at_remove: "keep_at K rs cl \<Longrightarrow> bt_ok rs \<Longrightarrow> k \<notin> fst ` K \<Longrightarrow> keep_at K (bt_remove k rs) cl"
  by (force simp: keep_at_def)

lemma keys_insert:
  "bt_ok rs \<Longrightarrow> keys (bt_insert k r rs) ls us \<subseteq> insert k (keys rs ls us)"
  "bt_ok ls \<Longrightarrow> keys rs (bt_insert k l ls) us \<subseteq> insert k (keys rs ls us)"
  "bt_ok us \<Longrightarrow> keys rs ls (bt_insert k u us) \<subseteq> insert k (keys rs ls us)"
  by (auto simp: keys_def split: if_splits)

lemma keys_remove:
  "bt_ok rs \<Longrightarrow> keys (bt_remove k rs) ls us \<subseteq> keys rs ls us"
  "bt_ok ls \<Longrightarrow> keys rs (bt_remove k ls) us \<subseteq> keys rs ls us"
  "bt_ok us \<Longrightarrow> keys rs ls (bt_remove k us) \<subseteq> keys rs ls us"
  by (auto simp: keys_def split: if_splits)

lemma inv_view: "view s' = view s \<Longrightarrow> held_inv x y K s \<Longrightarrow> held_inv x y K s'"
  by (simp add: held_inv_def view_def)

lemma inv_frame [simp]:
  "held_inv x y K (s\<lparr>stack_id := a0\<rparr>) = held_inv x y K s" "held_inv x y K (s\<lparr>ip_addrs := a1\<rparr>) = held_inv x y K s"
  "held_inv x y K (s\<lparr>iface_routes := a2\<rparr>) = held_inv x y K s" "held_inv x y K (s\<lparr>engine_calls := a3\<rparr>) = held_inv x y K s"
  "held_inv x y K (s\<lparr>tcp_connections := a4\<rparr>) = held_inv x y K s" "held_inv x y K (s\<lparr>closing_deadlines := a5\<rparr>) = held_inv x y K s"
  "held_inv x y K (s\<lparr>closing_sweep_cursor := a6\<rparr>) = held_inv x y K s" "held_inv x y K (s\<lparr>closing_cleanup_pending := a7\<rparr>) = held_inv x y K s"
  "held_inv x y K (s\<lparr>closing_cleanup_resweep := a8\<rparr>) = held_inv x y K s" "held_inv x y K (s\<lparr>maintenance_cleanup_turn := a9\<rparr>) = held_inv x y K s"
  "held_inv x y K (s\<lparr>scheduled_poll_at := a10\<rparr>) = held_inv x y K s" "held_inv x y K (s\<lparr>next_ephemeral_port := a11\<rparr>) = held_inv x y K s"
  "held_inv x y K (s\<lparr>next_udp_ephemeral_port := a12\<rparr>) = held_inv x y K s" "held_inv x y K (s\<lparr>listener_scan_cursor := a13\<rparr>) = held_inv x y K s"
  "held_inv x y K (s\<lparr>listener_scan_pending := a14\<rparr>) = held_inv x y K s" "held_inv x y K (s\<lparr>listener_scan_resweep := a15\<rparr>) = held_inv x y K s"
  "held_inv x y K (s\<lparr>listener_maintenance_turn := a16\<rparr>) = held_inv x y K s" "held_inv x y K (s\<lparr>ready := a17\<rparr>) = held_inv x y K s"
  "held_inv x y K (s\<lparr>ready_sweep := a18\<rparr>) = held_inv x y K s" "held_inv x y K (s\<lparr>ready_sweep_cursor := a19\<rparr>) = held_inv x y K s"
  "held_inv x y K (s\<lparr>ready_sweep_resweep := a20\<rparr>) = held_inv x y K s" "held_inv x y K (s\<lparr>ready_sweep_pending := a21\<rparr>) = held_inv x y K s"
  "held_inv x y K (s\<lparr>counters := a22\<rparr>) = held_inv x y K s" "held_inv x y K (s\<lparr>st_lifecycle := a23\<rparr>) = held_inv x y K s"
  "held_inv x y K (s\<lparr>call_budget := a24\<rparr>) = held_inv x y K s" "held_inv x y K (s\<lparr>pending_notifications := a25\<rparr>) = held_inv x y K s"
  "held_inv x y K (s\<lparr>shutdown_reason := a26\<rparr>) = held_inv x y K s" "held_inv x y K (s\<lparr>outbox := a27\<rparr>) = held_inv x y K s"
  "held_inv x y K (s\<lparr>next_forced_budget_checkpoints := a28\<rparr>) = held_inv x y K s" "held_inv x y K (s\<lparr>next_forced_slice_exhaustion := a29\<rparr>) = held_inv x y K s"
  by (simp_all add: held_inv_def)

lemma inv_wf: "held_inv x y K s \<Longrightarrow> table_wf (socket_table s)"
  by (auto simp: held_inv_def ids_at_def table_sig_def)

lemma inv_stack: "held_inv {#} {#} K s \<Longrightarrow> stack_inv s"
  by (auto simp: stack_inv_def held_inv_def keep_at_def)

section \<open>Evaluation of the primitives\<close>

definition woken :: "ReadyKey list \<Rightarrow> NativeStack \<Rightarrow> NativeStack" where
  "woken ks s =
     (case fold mark_ready ks (ready s, flags (socket_table s)) of
        (q, f) \<Rightarrow> s\<lparr>ready := q, socket_table := (socket_table s)\<lparr>flags := f\<rparr>\<rparr>)"

lemma view_woken [simp]: "view (woken ks s) = view s"
  by (simp add: woken_def view_def split: prod.splits)

lemma woken_frame [simp]:
  "socket_set (woken ks s) = socket_set s" "tcp_records (woken ks s) = tcp_records s"
  "tcp_listeners (woken ks s) = tcp_listeners s" "udp_records (woken ks s) = udp_records s"
  "closing_tcp (woken ks s) = closing_tcp s" "limits (woken ks s) = limits s" "dev (woken ks s) = dev s"
  "id_counters (woken ks s) = id_counters s" "table_sig (socket_table (woken ks s)) = table_sig (socket_table s)"
  "woken [] s = s"
  by (simp_all add: woken_def split: prod.splits)

lemma woken_push [simp]:
  "(woken ks s)\<lparr>socket_set := b0\<rparr> = woken ks (s\<lparr>socket_set := b0\<rparr>)" "(woken ks s)\<lparr>tcp_records := b1\<rparr> = woken ks (s\<lparr>tcp_records := b1\<rparr>)"
  "(woken ks s)\<lparr>tcp_listeners := b2\<rparr> = woken ks (s\<lparr>tcp_listeners := b2\<rparr>)" "(woken ks s)\<lparr>udp_records := b3\<rparr> = woken ks (s\<lparr>udp_records := b3\<rparr>)"
  "(woken ks s)\<lparr>tcp_connections := b4\<rparr> = woken ks (s\<lparr>tcp_connections := b4\<rparr>)" "(woken ks s)\<lparr>closing_tcp := b5\<rparr> = woken ks (s\<lparr>closing_tcp := b5\<rparr>)"
  "(woken ks s)\<lparr>closing_deadlines := b6\<rparr> = woken ks (s\<lparr>closing_deadlines := b6\<rparr>)" "(woken ks s)\<lparr>closing_sweep_cursor := b7\<rparr> = woken ks (s\<lparr>closing_sweep_cursor := b7\<rparr>)"
  "(woken ks s)\<lparr>maintenance_cleanup_turn := b8\<rparr> = woken ks (s\<lparr>maintenance_cleanup_turn := b8\<rparr>)" "(woken ks s)\<lparr>dev := b9\<rparr> = woken ks (s\<lparr>dev := b9\<rparr>)"
  "(woken ks s)\<lparr>engine_calls := b10\<rparr> = woken ks (s\<lparr>engine_calls := b10\<rparr>)"
  by (simp_all add: woken_def split: prod.splits)

lemma inv_woken [simp]: "held_inv x y K (woken ks s) = held_inv x y K s"
  by (simp add: held_inv_def)

lemma wp_wake [wp_simps]: "wp (wake ks) Q E s = Q () (woken ks s)"
  by (simp add: wake_def woken_def wp_simps)

lemma wp_get_tcp [wp_simps]:
  "wp (get_tcp h) Q E s = (case ss_get_tcp (socket_set s) h of None \<Rightarrow> E Panic s | Some sk \<Rightarrow> Q sk s)"
  by (simp add: get_tcp_def wp_simps)

lemma wp_get_udp [wp_simps]:
  "wp (get_udp h) Q E s = (case ss_get_udp (socket_set s) h of None \<Rightarrow> E Panic s | Some sk \<Rightarrow> Q sk s)"
  by (simp add: get_udp_def wp_simps)

lemma wp_on_tcp [wp_simps]:
  "wp (on_tcp h f) Q E s =
     (case ss_get_tcp (socket_set s) h of None \<Rightarrow> E Panic s
      | Some sk \<Rightarrow> (case f sk of (r, sk', ws) \<Rightarrow>
          Q r (woken ws (s\<lparr>socket_set := ss_put h (NTcp sk') (socket_set s)\<rparr>))))"
  by (simp add: on_tcp_def put_socket_def wp_simps split: option.splits prod.splits)

lemma wp_on_udp [wp_simps]:
  "wp (on_udp h f) Q E s =
     (case ss_get_udp (socket_set s) h of None \<Rightarrow> E Panic s
      | Some sk \<Rightarrow> (case f sk of (r, sk', ws) \<Rightarrow>
          Q r (woken ws (s\<lparr>socket_set := ss_put h (NUdp sk') (socket_set s)\<rparr>))))"
  by (simp add: on_udp_def put_socket_def wp_simps split: option.splits prod.splits)

lemma wp_upd_tcp [wp_simps]:
  "wp (upd_tcp h f) Q E s =
     (case ss_get_tcp (socket_set s) h of None \<Rightarrow> E Panic s
      | Some sk \<Rightarrow> Q () (s\<lparr>socket_set := ss_put h (NTcp (f sk)) (socket_set s)\<rparr>))"
  by (simp add: upd_tcp_def wp_simps split: option.splits)

lemma wp_wake_tcp [wp_simps]:
  "wp (wake_tcp h f) Q E s =
     (case ss_get_tcp (socket_set s) h of None \<Rightarrow> E Panic s
      | Some sk \<Rightarrow> Q () (woken (snd (f sk)) (s\<lparr>socket_set := ss_put h (NTcp (fst (f sk))) (socket_set s)\<rparr>)))"
  by (simp add: wake_tcp_def wp_simps split: option.splits prod.splits)

lemma wp_add_socket [wp_simps]:
  "wp (add_socket sk) Q E s = (case ss_add sk (socket_set s) of (h, ss) \<Rightarrow> Q h (s\<lparr>socket_set := ss\<rparr>))"
  by (simp add: add_socket_def wp_simps split: prod.splits)

lemma wp_remove_socket [wp_simps]:
  "wp (remove_socket h) Q E s =
     (if ss_get (socket_set s) h = None then E Panic s else Q () (s\<lparr>socket_set := ss_remove h (socket_set s)\<rparr>))"
  by (simp add: remove_socket_def wp_simps split: option.splits)

section \<open>The end of a call\<close>

definition quiet :: "view \<Rightarrow> NativeStack \<Rightarrow> bool" where
  "quiet v s \<longleftrightarrow> view s = v \<and> table_wf (socket_table s)"

lemma quiet_I: "table_wf (socket_table s) \<Longrightarrow> quiet (view s) s"
  by (simp add: quiet_def)

lemma quiet_step: "view s' = view s \<Longrightarrow> quiet v s' = quiet v s"
  by (auto simp: quiet_def view_def table_sig_def)

lemma quiet_frame [simp]:
  "quiet v (s\<lparr>stack_id := a0\<rparr>) = quiet v s" "quiet v (s\<lparr>ip_addrs := a1\<rparr>) = quiet v s"
  "quiet v (s\<lparr>iface_routes := a2\<rparr>) = quiet v s" "quiet v (s\<lparr>engine_calls := a3\<rparr>) = quiet v s"
  "quiet v (s\<lparr>tcp_connections := a4\<rparr>) = quiet v s" "quiet v (s\<lparr>closing_deadlines := a5\<rparr>) = quiet v s"
  "quiet v (s\<lparr>closing_sweep_cursor := a6\<rparr>) = quiet v s" "quiet v (s\<lparr>closing_cleanup_pending := a7\<rparr>) = quiet v s"
  "quiet v (s\<lparr>closing_cleanup_resweep := a8\<rparr>) = quiet v s" "quiet v (s\<lparr>maintenance_cleanup_turn := a9\<rparr>) = quiet v s"
  "quiet v (s\<lparr>scheduled_poll_at := a10\<rparr>) = quiet v s" "quiet v (s\<lparr>next_ephemeral_port := a11\<rparr>) = quiet v s"
  "quiet v (s\<lparr>next_udp_ephemeral_port := a12\<rparr>) = quiet v s" "quiet v (s\<lparr>listener_scan_cursor := a13\<rparr>) = quiet v s"
  "quiet v (s\<lparr>listener_scan_pending := a14\<rparr>) = quiet v s" "quiet v (s\<lparr>listener_scan_resweep := a15\<rparr>) = quiet v s"
  "quiet v (s\<lparr>listener_maintenance_turn := a16\<rparr>) = quiet v s" "quiet v (s\<lparr>ready := a17\<rparr>) = quiet v s"
  "quiet v (s\<lparr>ready_sweep := a18\<rparr>) = quiet v s" "quiet v (s\<lparr>ready_sweep_cursor := a19\<rparr>) = quiet v s"
  "quiet v (s\<lparr>ready_sweep_resweep := a20\<rparr>) = quiet v s" "quiet v (s\<lparr>ready_sweep_pending := a21\<rparr>) = quiet v s"
  "quiet v (s\<lparr>counters := a22\<rparr>) = quiet v s" "quiet v (s\<lparr>st_lifecycle := a23\<rparr>) = quiet v s"
  "quiet v (s\<lparr>call_budget := a24\<rparr>) = quiet v s" "quiet v (s\<lparr>pending_notifications := a25\<rparr>) = quiet v s"
  "quiet v (s\<lparr>shutdown_reason := a26\<rparr>) = quiet v s" "quiet v (s\<lparr>outbox := a27\<rparr>) = quiet v s"
  "quiet v (s\<lparr>next_forced_budget_checkpoints := a28\<rparr>) = quiet v s" "quiet v (s\<lparr>next_forced_slice_exhaustion := a29\<rparr>) = quiet v s"
  by (rule quiet_step, simp)+

lemma runs_within_budget [runs_intros]:
  "(\<And>s m. I s \<Longrightarrow> I (s\<lparr>call_budget := m\<rparr>)) \<Longrightarrow> runs I (within_budget E)"
  by (simp add: within_budget_def runs_def wp_simps split: prod.splits)

lemma runs_charge_chunk [runs_intros]:
  "(\<And>s m. I s \<Longrightarrow> I (s\<lparr>call_budget := m\<rparr>)) \<Longrightarrow> runs I (charge_chunk E n f)"
  by (simp add: charge_chunk_def charge_now_def runs_def wp_simps split: prod.splits)

lemma view_send_message [simp]: "view (send_message E msg s) = view s"
  by (simp add: send_message_def observe_notification_def view_def Let_def)

lemma view_deliver [simp]: "table_wf (socket_table s) \<Longrightarrow> view (deliver_or_discard_ready E key s) = view s"
proof -
  assume wf: "table_wf (socket_table s)"
  obtain r t where t: "take_ready_waiter key (socket_table s) = (r, t)" by fastforce
  note sig = sig_take_ready [OF wf t] and wf' = table_wf_take_ready [OF wf t]
  have table: "socket_table (send_message E msg s) = socket_table s" for msg s
    by (simp add: send_message_def observe_notification_def Let_def)
  have v: "view (s'\<lparr>socket_table := u\<rparr>) = view s'" if "table_sig u = table_sig (socket_table s')" for s' u
    using that by (simp add: view_def)
  show ?thesis
  proof (cases "st_lifecycle s = Running")
    case running: True
    show ?thesis
    proof (cases r)
      case (Notify w)
      let ?s1 = "send_message E (SelectMessage (w_pid w) (identity key) (w_reference w)) (s\<lparr>socket_table := t\<rparr>)"
      have "view (?s1\<lparr>socket_table := remember_sent (identity key) (direction key) w (socket_table ?s1)\<rparr>) = view s"
        using v [OF sig] wf' by (subst v) (simp_all add: table sig_remember)
      then show ?thesis
        using running by (simp add: deliver_or_discard_ready_def deliver_ready_def t Notify Let_def)
    qed (use running v [OF sig] in \<open>simp_all add: deliver_or_discard_ready_def deliver_ready_def t drop_readiness_def view_def\<close>)
  qed (simp add: deliver_or_discard_ready_def drop_readiness_def view_def)
qed

lemma quiet_deliver [simp]: "quiet v s \<Longrightarrow> quiet v (deliver_or_discard_ready E key s)"
  by (subst quiet_step [OF view_deliver]) (simp_all add: quiet_def)

lemma quiet_send [simp]: "quiet v (send_message E msg s) = quiet v s"
  by (rule quiet_step) simp

lemma quiet_abort [runs_intros]: "runs (quiet v) (abort_loop E n w u)"
  by (induction n arbitrary: w u)
    (auto intro!: runs_intros simp: send_abort_def Let_def)

lemma quiet_queued [runs_intros]: "runs (quiet v) (queued_loop E ks w u)"
  by (induction ks arbitrary: w u)
    (auto intro!: runs_intros)

lemma quiet_pending [runs_intros]: "runs (quiet v) (pending_loop E n w u)"
  by (induction n arbitrary: w u)
    (auto intro!: runs_intros)

lemma quiet_scan_keys [runs_intros]: "runs (quiet v) (scan_keys_loop E ks u)"
  by (induction ks arbitrary: u)
    (auto intro!: runs_intros)

lemma quiet_sweep [runs_intros]: "runs (quiet v) (sweep_step E w u)"
  unfolding sweep_step_def run_scan_def
  by (auto intro!: runs_intros simp: after_scan_def split: prod.splits)

lemma quiet_finish [runs_intros]: "runs (quiet v) (finish_call E res eff aborts)"
  unfolding finish_call_def drain_ready_def
  by (auto intro!: runs_intros simp: start_sweep_def Let_def split: prod.splits option.splits)

lemma runs_quiet: "(\<And>v. runs (quiet v) m) \<Longrightarrow> runs (held_inv x y K) m"
proof (rule runsI)
  fix s assume run: "\<And>v. runs (quiet v) m" and i: "held_inv x y K s"
  from run [of "view s"] quiet_I [OF inv_wf [OF i]]
  show "wp m (\<lambda>_. held_inv x y K) (\<lambda>_ _. False) s"
    by (rule runs_wp) (auto simp: quiet_def intro: inv_view [OF _ i])
qed

lemma runs_finish [runs_intros]: "runs (held_inv x y K) (finish_call E res eff aborts)"
  by (intro runs_quiet quiet_finish)

lemma keeps_finish [keeps_intros]: "keeps (held_inv x y K) (finish_call E res eff aborts)"
  by (intro runs_keeps runs_finish)

section \<open>Rules for sockets and records\<close>

text \<open>What an operation on one TCP socket keeps.\<close>

definition same_socket :: "TcpSocket \<Rightarrow> TcpSocket \<Rightarrow> bool" where
  "same_socket sk sk' \<longleftrightarrow> (native_wf (NTcp sk) \<and> paired (NTcp sk) \<longrightarrow>
     tcp_info sk' = tcp_info sk \<and> native_wf (NTcp sk') \<and> paired (NTcp sk'))"

named_theorems socket_simps

lemma same_socket_trans: "same_socket a b \<Longrightarrow> same_socket b c \<Longrightarrow> same_socket a c"
  by (simp add: same_socket_def)

lemma same_socket_fields [socket_simps]:
  "same_socket sk sk"
  "same_socket sk (set_timeout d sk)" "same_socket sk (set_nagle_enabled n sk)" "same_socket sk (set_keep_alive_config k sk)"
  "same_socket sk (register_recv_waker w sk)" "same_socket sk (register_send_waker w sk)"
  by (simp_all add: same_socket_def tcp_info_def native_wf.simps set_timeout_def set_nagle_enabled_def
      set_keep_alive_config_def register_recv_waker_def register_send_waker_def)

lemma fresh_fields [socket_simps]:
  "fresh (set_timeout d sk) = fresh sk" "fresh (set_nagle_enabled n sk) = fresh sk"
  "fresh (set_keep_alive_config k sk) = fresh sk"
  "fresh (register_recv_waker w sk) = fresh sk" "fresh (register_send_waker w sk) = fresh sk"
  by (simp_all add: fresh_def set_timeout_def set_nagle_enabled_def
      set_keep_alive_config_def register_recv_waker_def register_send_waker_def)

lemma same_socket_wakes [socket_simps]:
  "same_socket sk (fst (wake_both sk))" "same_socket sk (fst (set_state st sk))" "same_socket sk (fst (tcp_reset sk))"
  "same_socket sk (fst (sk_close sk))" "same_socket sk (fst (sk_abort sk))"
  by (simp_all add: same_socket_def tcp_info_def native_wf.simps wake_both_def set_state_def tcp_reset_def
      sk_close_def sk_abort_def split: State.splits)

lemma fresh_abort [socket_simps]: "fresh sk \<Longrightarrow> fresh (fst (sk_abort sk))"
  by (simp add: fresh_def sk_abort_def set_state_def wake_both_def)

lemma fresh_close [socket_simps]: "fresh sk \<Longrightarrow> fresh (fst (sk_close sk))"
  by (simp add: fresh_def sk_close_def)

lemma same_socket_listen [socket_simps]: "same_socket sk (fst (snd (sk_listen ep sk)))"
proof -
  have "same_socket sk (fst (set_state S_Listen ((fst (tcp_reset sk))\<lparr>sk_listen_endpoint := ep, tuple := None\<rparr>)))"
    by (simp add: same_socket_def tcp_info_def native_wf.simps wake_both_def set_state_def tcp_reset_def)
  then show ?thesis by (simp add: sk_listen_def Let_def case_prod_beta socket_simps)
qed

lemma same_socket_connect [socket_simps]: "same_socket sk (fst (snd (sk_connect src rem loc sk)))"
proof -
  have "same_socket sk (fst (set_state S_SynSent ((fst (tcp_reset sk))\<lparr>tuple := Some (l, rem)\<rparr>)))"
    if "same_family (ip_addr l) (ip_addr rem)" for l
    using that by (simp add: same_socket_def tcp_info_def native_wf.simps wake_both_def set_state_def tcp_reset_def)
  then show ?thesis by (simp add: sk_connect_def Let_def case_prod_beta socket_simps split: option.splits)
qed

lemma same_socket_send [socket_simps]: "same_socket sk (snd (send_slice data sk))"
proof (cases "may_send sk")
  case True
  obtain n tx where e: "enqueue_slice data (tx_buffer sk) = (n, tx)" by fastforce
  show ?thesis
    using enqueue_slice_spec(1,2) [OF _ e] True by (simp add: same_socket_def send_slice_def tcp_info_def native_wf.simps e)
qed (simp add: send_slice_def socket_simps)

lemma same_socket_recv [socket_simps]: "same_socket sk (snd (recv_slice n sk))"
proof (cases "may_recv sk")
  case True
  obtain xs rx where e: "dequeue_slice n (rx_buffer sk) = (xs, rx)" by fastforce
  show ?thesis
    using dequeue_slice_spec(1,2) [OF _ e] True by (simp add: same_socket_def recv_slice_def tcp_info_def native_wf.simps e)
qed (simp add: recv_slice_def socket_simps)

lemma inv_put:
  assumes "held_inv x y K s" and "ss_get_tcp (socket_set s) h = Some old" and "same_socket old sk"
    and "\<And>k r. bt_get (tcp_records s) k = Some r \<Longrightarrow> tr_handle r = h \<Longrightarrow> early r \<Longrightarrow> fresh old \<Longrightarrow> fresh sk"
  shows "held_inv x y K (s\<lparr>socket_set := ss_put h (NTcp sk) (socket_set s)\<rparr>)"
proof -
  have "native_wf (NTcp old) \<and> paired (NTcp old)" using assms(1,2) by (simp add: held_inv_def own_at_def sockets_wf_def ss_get_tcp_iff del: paired.simps)
  then show ?thesis
    using assms own_put [of x y "limits s" "socket_set s" "tcp_records s" "tcp_listeners s" "udp_records s" h old sk]
    by (simp add: held_inv_def same_socket_def del: paired.simps)
qed

lemma inv_put_held:
  assumes "held_inv x y K s" and "(h, i) \<in># x" and "ss_get_tcp (socket_set s) h = Some old" and "same_socket old sk"
  shows "held_inv x y K (s\<lparr>socket_set := ss_put h (NTcp sk) (socket_set s)\<rparr>)"
proof (rule inv_put [OF assms(1,3,4)])
  fix k r assume r: "bt_get (tcp_records s) k = Some r" "tr_handle r = h"
  obtain z where "x = add_mset (h, i) z" using assms(2) by (metis mset_add)
  then show "fresh sk" using own_distinct [OF _ r(1)] invD(1) [OF assms(1)] r(2) by blast
qed

lemma inv_put_udp:
  assumes "held_inv x y K s" and "ss_get_udp (socket_set s) h = Some old" and "native_wf (NUdp sk)"
  shows "held_inv x y K (s\<lparr>socket_set := ss_put h (NUdp sk) (socket_set s)\<rparr>)"
  using own_put_udp [OF invD(1) [OF assms(1)] assms(2,3)] assms(1) by (simp add: held_inv_def)

lemma inv_add_tcp:
  assumes "held_inv x y K s" and "ss_add (NTcp sk) (socket_set s) = (h, ss)" and "native_wf (NTcp sk)"
    and "ss_count (socket_set s) < sockets (limits s)"
    and "native_bytes (socket_set s) + fst (tcp_info sk) + snd (tcp_info sk) \<le> MAX_SOCKET_BUFFER_BYTES"
    and "tuple sk = None"
  shows "held_inv (add_mset (h, tcp_info sk) x) y K (s\<lparr>socket_set := ss\<rparr>)"
  using own_add_tcp [OF invD(1) [OF assms(1)] assms(2-6)] assms(1) by (simp add: held_inv_def)

lemma inv_add_udp:
  assumes "held_inv x y K s" and "ss_add (NUdp sk) (socket_set s) = (h, ss)" and "native_wf (NUdp sk)"
    and "ss_count (socket_set s) < sockets (limits s)"
    and "native_bytes (socket_set s) + BUFFER_BYTES \<le> MAX_SOCKET_BUFFER_BYTES"
  shows "held_inv x (add_mset h y) K (s\<lparr>socket_set := ss\<rparr>)"
  using own_add_udp [OF invD(1) [OF assms(1)] assms(2-5)] assms(1) by (simp add: held_inv_def)

lemma inv_remove_tcp:
  assumes "held_inv (add_mset (h, i) x) y K s"
  shows "held_inv x y K (s\<lparr>socket_set := ss_remove h (socket_set s)\<rparr>)" and "ss_get (socket_set s) h \<noteq> None"
  using own_remove_tcp [OF invD(1) [OF assms]] assms by (simp_all add: held_inv_def)

lemma inv_remove_udp_socket:
  assumes "held_inv x (add_mset h y) K s"
  shows "held_inv x y K (s\<lparr>socket_set := ss_remove h (socket_set s)\<rparr>)" and "ss_get (socket_set s) h \<noteq> None"
  using own_remove_udp_socket [OF invD(1) [OF assms]] assms by (simp_all add: held_inv_def)

lemma inv_held:
  assumes "held_inv x y K s" and "(h, i) \<in># x"
  shows "\<exists>sk. ss_get_tcp (socket_set s) h = Some sk \<and> tcp_info sk = i \<and> native_wf (NTcp sk)"
proof -
  obtain z where "x = add_mset (h, i) z" using assms(2) by (metis mset_add)
  then show ?thesis using own_held invD(1) [OF assms(1)] by blast
qed

lemma inv_record:
  assumes "held_inv x y K s" and "bt_get (tcp_records s) k = Some r"
  shows "\<exists>sk. ss_get_tcp (socket_set s) (tr_handle r) = Some sk \<and> tcp_info sk = (tr_rcvbuf r, tr_sndbuf r) \<and> native_wf (NTcp sk)"
    and "record_ok (socket_set s) k r" and "k < next_socket_id (id_counters s)"
proof -
  note own_record [OF invD(1) [OF assms(1)] assms(2)]
  then show "\<exists>sk. ss_get_tcp (socket_set s) (tr_handle r) = Some sk \<and> tcp_info sk = (tr_rcvbuf r, tr_sndbuf r) \<and> native_wf (NTcp sk)"
    "record_ok (socket_set s) k r" by simp_all
  show "k < next_socket_id (id_counters s)" using invD(2) [OF assms(1)] assms(2) by (auto simp: ids_at_def keys_def)
qed

lemma inv_udp:
  assumes "held_inv x y K s" and "bt_get (udp_records s) k = Some u"
  shows "udp_ok k u" and "k < next_socket_id (id_counters s)"
    and "h \<in> set (ur_handles u) \<Longrightarrow> \<exists>sk. ss_get_udp (socket_set s) h = Some sk \<and> native_wf (NUdp sk)"
proof -
  show "udp_ok k u" by (rule own_udp(1) [OF invD(1) [OF assms(1)] assms(2)])
  show "h \<in> set (ur_handles u) \<Longrightarrow> \<exists>sk. ss_get_udp (socket_set s) h = Some sk \<and> native_wf (NUdp sk)"
    by (rule own_udp(2) [OF invD(1) [OF assms(1)] assms(2)])
  show "k < next_socket_id (id_counters s)" using invD(2) [OF assms(1)] assms(2) by (auto simp: ids_at_def keys_def)
qed

lemma inv_insert_record:
  assumes "held_inv (add_mset (record_held r) x) y K s" and "bt_get (tcp_records s) k = None"
    and "record_ok (socket_set s) k r" and "k < next_socket_id (id_counters s)"
  shows "held_inv x y K (s\<lparr>tcp_records := bt_insert k r (tcp_records s)\<rparr>)"
  using own_insert_record [OF invD(1) [OF assms(1)] assms(2,3)] ids_at_keys [OF invD(2) [OF assms(1)] _ assms(4)]
    keep_at_insert [OF invD(3) [OF assms(1)], of k r] keys_insert(1) assms by (simp add: held_inv_def own_at_def)

lemma inv_update_record:
  assumes "held_inv x y K s" and "bt_get (tcp_records s) k = Some r" and "record_sig r' = record_sig r"
    and "record_ok (socket_set s) k r'"
  shows "held_inv x y K (s\<lparr>tcp_records := bt_insert k r' (tcp_records s)\<rparr>)"
proof -
  have "record_held r' = record_held r" using assms(3) by (simp add: record_sig_def)
  from own_update_record [OF invD(1) [OF assms(1)] assms(2) this assms(4)] show ?thesis
    using ids_at_keys [OF invD(2) [OF assms(1)] _ inv_record(3) [OF assms(1,2)]]
      keep_at_insert [OF invD(3) [OF assms(1)], of k r'] keys_insert(1) assms by (simp add: held_inv_def own_at_def)
qed

lemma inv_remove_record:
  assumes "held_inv x y K s" and "bt_get (tcp_records s) k = Some r" and "k \<notin> fst ` K"
  shows "held_inv (add_mset (record_held r) x) y K (s\<lparr>tcp_records := bt_remove k (tcp_records s)\<rparr>)"
  using own_remove_record [OF invD(1) [OF assms(1)] assms(2)] ids_at_fewer [OF invD(2) [OF assms(1)] keys_remove(1)]
    keep_at_remove [OF invD(3) [OF assms(1)] _ assms(3)] invD(4,5) [OF assms(1)] by (simp add: held_inv_def)

lemma inv_remove_listener:
  assumes "held_inv x y K s" and "bt_get (tcp_listeners s) k = Some l"
  shows "held_inv (x + listener_held l) y K (s\<lparr>tcp_listeners := bt_remove k (tcp_listeners s)\<rparr>)"
    and "listener_ok k l" and "k < next_socket_id (id_counters s)"
proof -
  note own = own_remove_listener [OF invD(1) [OF assms(1)] assms(2)]
  show "held_inv (x + listener_held l) y K (s\<lparr>tcp_listeners := bt_remove k (tcp_listeners s)\<rparr>)"
    using own(1) ids_at_fewer [OF invD(2) [OF assms(1)] keys_remove(2)] invD(3,4,6) [OF assms(1)] by (simp add: held_inv_def)
  show "listener_ok k l" by (rule own(2))
  show "k < next_socket_id (id_counters s)" using invD(2) [OF assms(1)] assms(2) by (auto simp: ids_at_def keys_def)
qed

lemma inv_listener_socket:
  assumes "held_inv x y K s" and "bt_get (tcp_listeners s) k = Some l" and "h \<in> set (pool l)"
  shows "\<exists>sk. ss_get_tcp (socket_set s) h = Some sk \<and> tcp_info sk = (lr_rcvbuf l, lr_sndbuf l) \<and> native_wf (NTcp sk)"
  using inv_held [OF inv_remove_listener(1) [OF assms(1,2)], of h] assms(3) by (simp add: listener_held_def)

lemma inv_insert_listener:
  assumes "held_inv (x + listener_held l) y K s" and "bt_get (tcp_listeners s) k = None" and "listener_ok k l"
    and "k < next_socket_id (id_counters s)"
  shows "held_inv x y K (s\<lparr>tcp_listeners := bt_insert k l (tcp_listeners s)\<rparr>)"
  using own_insert_listener [OF invD(1) [OF assms(1)] assms(2,3)] ids_at_keys [OF invD(2) [OF assms(1)] _ assms(4)]
    invD(3,4,6) [OF assms(1)] keys_insert(2) by (simp add: held_inv_def)

lemma inv_update_listener:
  assumes "held_inv x y K s" and "bt_get (tcp_listeners s) k = Some l" and "listener_held l' = listener_held l" and "listener_ok k l'"
  shows "held_inv x y K (s\<lparr>tcp_listeners := bt_insert k l' (tcp_listeners s)\<rparr>)"
  using own_update_listener [OF invD(1) [OF assms(1)] assms(2-4)]
    ids_at_keys [OF invD(2) [OF assms(1)] _ inv_remove_listener(3) [OF assms(1,2)]]
    invD(3,4,6) [OF assms(1)] keys_insert(2) by (simp add: held_inv_def)

lemma inv_insert_udp:
  assumes "held_inv x (y + mset (ur_handles u)) K s" and "bt_get (udp_records s) k = None" and "udp_ok k u"
    and "k < next_socket_id (id_counters s)"
  shows "held_inv x y K (s\<lparr>udp_records := bt_insert k u (udp_records s)\<rparr>)"
  using own_insert_udp [OF invD(1) [OF assms(1)] assms(2,3)] ids_at_keys [OF invD(2) [OF assms(1)] _ assms(4)]
    invD(3,4,7) [OF assms(1)] keys_insert(3) by (simp add: held_inv_def)

lemma inv_update_udp:
  assumes "held_inv x (y' + y) K s" and "bt_get (udp_records s) k = Some u"
    and "mset (ur_handles u') = mset (ur_handles u) + y'" and "udp_ok k u'"
  shows "held_inv x y K (s\<lparr>udp_records := bt_insert k u' (udp_records s)\<rparr>)"
  using own_update_udp [OF invD(1) [OF assms(1)] assms(2-4) refl]
    ids_at_keys [OF invD(2) [OF assms(1)] _ inv_udp(2) [OF assms(1,2)]]
    invD(3,4,7) [OF assms(1)] keys_insert(3) by (simp add: held_inv_def)

lemma inv_remove_udp:
  assumes "held_inv x y K s" and "bt_get (udp_records s) k = Some u"
  shows "held_inv x (y + mset (ur_handles u)) K (s\<lparr>udp_records := bt_remove k (udp_records s)\<rparr>)"
  using own_remove_udp [OF invD(1) [OF assms(1)] assms(2)] ids_at_fewer [OF invD(2) [OF assms(1)] keys_remove(3)]
    invD(3,4,7) [OF assms(1)] by (simp add: held_inv_def)

section \<open>Rules for the table and the closing set\<close>

lemma inv_closing_remove:
  assumes "held_inv x y K s"
  shows "held_inv x y K (s\<lparr>closing_tcp := bs_remove k (closing_tcp s)\<rparr>)"
proof -
  have "length (bs_remove k (closing_tcp s)) \<le> length (closing_tcp s)" by (simp add: bs_remove_def)
  then have "ids_at (limits s) (table_sig (socket_table s)) (id_counters s)
      (keys (tcp_records s) (tcp_listeners s) (udp_records s)) (bs_remove k (closing_tcp s))"
    using invD(2) [OF assms] by (auto simp: ids_at_def)
  moreover have "keep_at K (tcp_records s) (bs_remove k (closing_tcp s))"
    using invD(3) [OF assms] by (auto simp: keep_at_def)
  ultimately show ?thesis using assms by (simp add: held_inv_def)
qed

lemma ids_finite [simp]: "bt_ok (entries t) \<Longrightarrow> finite (ids t)"
  by (simp add: ids_def btm.finite_dom)

lemma ids_card: "table_wf t \<Longrightarrow> card (ids t) = table_len t"
  by (simp add: ids_def table_len_def table_wf_def btm.count_card)

lemma inv_table_insert:
  assumes held_inv: "held_inv x y K s" and room: "table_len (socket_table s) + length (closing_tcp s) < sockets (limits s)"
    and run: "table_insert kd h (socket_table s, id_counters s) = (r, t, c)"
  shows "held_inv x y K (s\<lparr>socket_table := t, id_counters := c\<rparr>)" and "r = Inl e \<Longrightarrow> e = SE_SystemLimit"
    and "r = Inr i \<Longrightarrow> si_id i = next_socket_id (id_counters s) \<and> si_id i < next_socket_id c"
    and "next_socket_id (id_counters s) \<le> next_socket_id c"
proof -
  let ?t = "socket_table s" and ?n = "next_socket_id (id_counters s)"
  note cases = table_insert_cases [OF run]
  have wf: "table_wf ?t" using held_inv by (rule inv_wf)
  note at = invD(2) [OF held_inv, unfolded ids_at_def table_sig_def, simplified]
  have "\<forall>i. live ?t i \<longrightarrow> issued (id_counters s) i"
    using at by (auto simp: ids_def live_def issued_def)
  note wf' = table_wf_insert [OF wf run this]
  show mono: "?n \<le> next_socket_id c" using cases by auto
  have same: "max_entries t = max_entries ?t" "max_waiters t = max_waiters ?t"
    using run by (auto simp: table_insert_def next_identity_def Let_def split: if_splits)
  have new: "?n \<notin> ids ?t" "?n \<notin> set (closing_tcp s)" using at by auto
  have ok: "bt_ok (entries ?t)" using wf by (simp add: table_wf_def)
  have ids: "ids t = ids ?t \<or> ids t = insert ?n (ids ?t) \<and> ?n < next_socket_id c"
    using cases ok by (auto simp: ids_def)
  have "card (ids t) + length (closing_tcp s) \<le> sockets (limits s)"
    using ids room ids_card [OF wf] new(1) ok by auto
  moreover have "\<forall>k \<in> ids t \<union> set (closing_tcp s) \<union> keys (tcp_records s) (tcp_listeners s) (udp_records s). k < next_socket_id c"
    using at ids mono by (auto intro: less_le_trans)
  moreover have "finite (ids t)" "set (closing_tcp s) \<inter> ids t = {}" using at ids new by auto
  ultimately have "ids_at (limits s) (table_sig t) c (keys (tcp_records s) (tcp_listeners s) (udp_records s)) (closing_tcp s)"
    using at wf' same by (simp add: ids_at_def table_sig_def)
  then show "held_inv x y K (s\<lparr>socket_table := t, id_counters := c\<rparr>)" using held_inv by (simp add: held_inv_def)
  show "r = Inl e \<Longrightarrow> e = SE_SystemLimit" using cases by auto
  show "r = Inr i \<Longrightarrow> si_id i = ?n \<and> si_id i < next_socket_id c" using cases by auto
qed

lemma inv_fresh_id:
  assumes "held_inv x y K s"
  shows "bt_get (tcp_records s) (next_socket_id (id_counters s)) = None"
    and "bt_get (tcp_listeners s) (next_socket_id (id_counters s)) = None"
    and "bt_get (udp_records s) (next_socket_id (id_counters s)) = None"
proof -
  have "next_socket_id (id_counters s) \<notin> keys (tcp_records s) (tcp_listeners s) (udp_records s)"
    using invD(2) [OF assms] by (auto simp: ids_at_def)
  then show "bt_get (tcp_records s) (next_socket_id (id_counters s)) = None"
    "bt_get (tcp_listeners s) (next_socket_id (id_counters s)) = None"
    "bt_get (udp_records s) (next_socket_id (id_counters s)) = None"
    by (simp_all add: keys_def domIff)
qed

lemma table_close_ids:
  assumes "table_close i t = (r, t')" and "table_wf t"
  shows "table_sig t' = (True, (case r of Inl _ \<Rightarrow> ids t | Inr _ \<Rightarrow> ids t - {si_id i}), max_entries t, max_waiters t)"
    and "r = Inr ws \<Longrightarrow> si_id i \<in> ids t"
  using assms table_wf_close [OF assms(2,1)]
  by (auto simp: table_close_def table_sig_def ids_def table_wf_def Let_def bt_reinsert split: option.splits if_splits)

lemma inv_table_close:
  assumes "held_inv x y K s" and "table_close i (socket_table s) = (r, t)"
  shows "held_inv x y K (s\<lparr>socket_table := t\<rparr>)"
proof -
  let ?I = "ids (socket_table s)"
  have wf: "table_wf (socket_table s)" using assms(1) by (rule inv_wf)
  have fin: "finite ?I" using wf by (simp add: table_wf_def)
  then have "card (?I - {si_id i}) \<le> card ?I" by (intro card_mono) auto
  then have "ids_at (limits s) (table_sig t) (id_counters s)
      (keys (tcp_records s) (tcp_listeners s) (udp_records s)) (closing_tcp s)"
    using invD(2) [OF assms(1)] fin unfolding table_close_ids(1) [OF assms(2) wf]
    by (auto simp: ids_at_def table_sig_def split: sum.splits)
  then show ?thesis using assms(1) by (simp add: held_inv_def)
qed

end
