(* ===== verification/Stack_Maintenance.thy ===== *)
theory Stack_Maintenance
  imports Stack_State
begin

text \<open>
  The bounded background work of a stack (\<open>refresh_listeners\<close> and \<open>reap_closing_tcp\<close> of
  \<open>stack.rs\<close>): a listener keeps a pool of native sockets, promotes the ones a peer has connected to
  into accepted children and replaces them; a socket closed by its owner is kept until its handshake
  ends or its deadline passes. Both are sweeps with a cursor, resumed by later calls.
\<close>

section \<open>Listeners\<close>

definition connect_timeout :: "duration option" where
  "connect_timeout = Some (Duration_from_millis CONNECT_TIMEOUT_MILLIS)"

definition add_listener_member :: "ListenerRecord \<Rightarrow> (NativeStack, 'e, ListenerRecord) prog" where
  "add_listener_member l =
     bnd (gets (ensure_native_socket_capacity 1 0)) (\<lambda>room.
     bnd (debug_assert (room = Inr ())) (\<lambda>_.
     bnd (expect (liftr (tcp_socket (lr_rcvbuf l) (lr_sndbuf l)))) (\<lambda>sk.
     bnd (add_socket (NTcp sk)) (\<lambda>h.
     bnd (upd_tcp h (set_timeout connect_timeout)) (\<lambda>_.
     bnd (on_tcp h (sk_listen (listen_endpoint l))) (\<lambda>r.
     bnd (expect (liftr r)) (\<lambda>_.
     bnd (modify (\<lambda>s. s\<lparr>counters := (counters s)\<lparr>listener_refills := listener_refills (counters s) + 1\<rparr>\<rparr>)) (\<lambda>_.
     ret (l\<lparr>pool := bs_insert h (pool l)\<rparr>)))))))))"

definition recycle_listener_member ::
    "ListenerRecord \<Rightarrow> SocketHandle \<Rightarrow> (NativeStack, 'e, ListenerRecord) prog" where
  "recycle_listener_member l h =
     bnd (remove_socket h) (\<lambda>_. add_listener_member (l\<lparr>pool := bs_remove h (pool l)\<rparr>))"

definition mark_listener_ready :: "SocketIdentity \<Rightarrow> (NativeStack, 'e, unit) prog" where
  "mark_listener_ready i =
     bnd (gets (\<lambda>s. ready_flag (socket_table s) i Tcp Read)) (\<lambda>r.
     case r of Inl _ \<Rightarrow> ret () | Inr key \<Rightarrow> wake [key])"

text \<open>The closure that checks the capacities and allocates a child identity.\<close>

definition allocate_child ::
    "ListenerRecord \<Rightarrow> NativeStack \<Rightarrow> (SocketError, SocketIdentity option) result \<times> NativeStack" where
  "allocate_child l s =
     (if \<not> length (accept_queue l) < backlog l then (Inr None, s)
      else check (ensure_logical_socket_capacity s) s (\<lambda>_.
        check (ensure_native_socket_capacity 1 0 s) s (\<lambda>_.
        check (ensure_socket_buffer_capacity ((length (pool l) + 1) * (lr_rcvbuf l + lr_sndbuf l)) s) s (\<lambda>_.
        case table_insert Tcp 0 (socket_table s, id_counters s) of
          (r, t, c) \<Rightarrow>
            (let s = s\<lparr>socket_table := t, id_counters := c\<rparr>
             in case r of Inl e \<Rightarrow> (Inl e, s) | Inr i \<Rightarrow> (Inr (Some i), s))))))"

definition promote_listener_member ::
    "ListenerRecord \<Rightarrow> SocketHandle \<Rightarrow> IpEndpoint \<Rightarrow> IpEndpoint \<Rightarrow> SocketIdentity
      \<Rightarrow> (NativeStack, 'e, ListenerRecord) prog" where
  "promote_listener_member l h loc rem child =
     bnd (gets tcp_timers) (\<lambda>timers.
     bnd (upd_tcp h (set_timeout (Some (timers_user_timeout timers)))) (\<lambda>_.
     bnd (connection_key loc rem) (\<lambda>key.
     bnd (modify (\<lambda>s. s\<lparr>tcp_connections := bt_insert key child (tcp_connections s),
            tcp_records := bt_insert (si_id child)
              (TcpRecord_accepted child h loc rem (ve_scope_id (lr_endpoint l)) (lr_rcvbuf l) (lr_sndbuf l))
              (tcp_records s)\<rparr>)) (\<lambda>_.
     bnd (add_listener_member (l\<lparr>accept_queue := accept_queue l @ [child], pool := bs_remove h (pool l)\<rparr>)) (\<lambda>l.
     bnd (modify (\<lambda>s. s\<lparr>counters := (counters s)\<lparr>listener_promotions := listener_promotions (counters s) + 1\<rparr>\<rparr>)) (\<lambda>_.
     bnd (mark_listener_ready (lr_identity l)) (\<lambda>_.
     ret l)))))))"

definition refresh_member ::
    "ListenerRecord \<Rightarrow> SocketHandle \<Rightarrow> (NativeStack, 'e, ListenerRecord) prog" where
  "refresh_member l h =
     bnd (get_tcp h) (\<lambda>sk.
     case (state sk \<in> {S_Established, S_CloseWait}, tuple sk) of
       (True, Some (loc, rem)) \<Rightarrow>
         bnd (act (allocate_child l)) (\<lambda>child.
         case child of
           Inr (Some child) \<Rightarrow> promote_listener_member l h loc rem child
         | Inl e \<Rightarrow>
             (if e = SE_SystemLimit then
                bnd (recycle_listener_member l h) (\<lambda>l.
                bnd (modify (\<lambda>s. s\<lparr>counters := (counters s)\<lparr>listener_overflow_drops :=
                       listener_overflow_drops (counters s) + 1\<rparr>\<rparr>)) (\<lambda>_. ret l))
              else raise Panic)
         | Inr None \<Rightarrow>
             bnd (recycle_listener_member l h) (\<lambda>l.
             bnd (modify (\<lambda>s. s\<lparr>counters := (counters s)\<lparr>listener_overflow_drops :=
                    listener_overflow_drops (counters s) + 1\<rparr>\<rparr>)) (\<lambda>_. ret l)))
     | _ \<Rightarrow>
         if state sk \<notin> {S_Listen, S_SynReceived} then recycle_listener_member l h
         else ret l)"

definition refresh_listener_member :: "ListenerMemberKey \<Rightarrow> (NativeStack, 'e, unit) prog" where
  "refresh_listener_member key =
     bnd (gets (\<lambda>s. bt_get (tcp_listeners s) (fst key))) (\<lambda>found.
     case found of
       None \<Rightarrow> ret ()
     | Some l \<Rightarrow>
         bnd (modify (\<lambda>s. s\<lparr>tcp_listeners := bt_remove (fst key) (tcp_listeners s)\<rparr>)) (\<lambda>_.
         bnd (if snd key \<notin> set (pool l) then ret l else refresh_member l (snd key)) (\<lambda>l.
         modify (\<lambda>s. s\<lparr>tcp_listeners := bt_insert (fst key) l (tcp_listeners s)\<rparr>))))"

definition listener_keys :: "ListenerMemberKey option \<Rightarrow> (nat, ListenerRecord) btree \<Rightarrow> ListenerMemberKey list" where
  "listener_keys cursor ls =
     concat (map (\<lambda>(lid, l). map (Pair lid)
         (case cursor of
            Some (cid, h) \<Rightarrow> if cid = lid then filter (\<lambda>h'. h < h') (pool l) else pool l
          | None \<Rightarrow> pool l))
       (filter (\<lambda>(lid, _). case cursor of None \<Rightarrow> True | Some (cid, _) \<Rightarrow> cid \<le> lid) ls))"

fun refresh_loop ::
    "Env \<Rightarrow> ListenerMemberKey list \<Rightarrow> nat \<Rightarrow> ListenerMemberKey option
      \<Rightarrow> (NativeStack, 'e, nat \<times> ListenerMemberKey option \<times> bool) prog" where
  "refresh_loop E [] work processed = ret (work, processed, False)"
| "refresh_loop E (key # keys) work processed =
     bnd (within_budget E) (\<lambda>ok.
     if \<not> ok then ret (work, processed, True)
     else bnd (refresh_listener_member key) (\<lambda>_. refresh_loop E keys (work + 1) (Some key)))"

definition refresh_listeners :: "Env \<Rightarrow> nat \<Rightarrow> (NativeStack, 'e, nat \<times> bool) prog" where
  "refresh_listeners E limit =
     bnd (gets (\<lambda>s. s)) (\<lambda>s.
     if tcp_listeners s = [] then
       bnd (modify (\<lambda>s. s\<lparr>listener_scan_cursor := None, listener_scan_pending := False,
                          listener_scan_resweep := False\<rparr>)) (\<lambda>_. ret (0, False))
     else if limit = 0 \<or> \<not> listener_scan_pending s then ret (0, listener_scan_pending s)
     else
       let cursor = listener_scan_cursor s;
           keys = take (limit + 1) (listener_keys cursor (tcp_listeners s))
       in bnd (refresh_loop E (take limit keys) 0 None) (\<lambda>(work, processed, stopped).
          if limit < length keys \<or> stopped then
            bnd (modify (\<lambda>s. s\<lparr>listener_scan_cursor := (case processed of Some k \<Rightarrow> Some k | None \<Rightarrow> cursor)\<rparr>)) (\<lambda>_.
            ret (work, True))
          else
            bnd (gets listener_scan_resweep) (\<lambda>resweep.
            if resweep then
              bnd (modify (\<lambda>s. s\<lparr>listener_scan_cursor := None, listener_scan_resweep := False\<rparr>)) (\<lambda>_.
              ret (work, True))
            else
              bnd (modify (\<lambda>s. s\<lparr>listener_scan_cursor := None, listener_scan_pending := False\<rparr>)) (\<lambda>_.
              ret (work, False)))))"

section \<open>Closing sockets\<close>

definition reap_one :: "instant \<Rightarrow> nat \<Rightarrow> (NativeStack, 'e, unit) prog" where
  "reap_one now sid =
     bnd (gets (\<lambda>s. bt_get (tcp_records s) sid)) (\<lambda>found.
     case found of
       None \<Rightarrow> modify (\<lambda>s. s\<lparr>closing_tcp := bs_remove sid (closing_tcp s)\<rparr>)
     | Some r \<Rightarrow>
         bnd (get_tcp (tr_handle r)) (\<lambda>sk.
         if state sk = S_Closed \<and> local_endpoint sk = None then remove_tcp_socket r
         else case close_deadline r of
           None \<Rightarrow> ret ()
         | Some dl \<Rightarrow>
             if dl \<le> now then
               bnd (guarded (state sk \<noteq> S_Closed) (wake_tcp (tr_handle r) sk_abort)) (\<lambda>_.
               modify (\<lambda>s. s\<lparr>closing_deadlines := bs_remove (dl, sid) (closing_deadlines s),
                             tcp_records := bt_insert sid (r\<lparr>close_deadline := None\<rparr>) (tcp_records s)\<rparr>))
             else ret ()))"

fun reap_loop ::
    "Env \<Rightarrow> instant \<Rightarrow> nat list \<Rightarrow> nat \<Rightarrow> nat option \<Rightarrow> (NativeStack, 'e, nat \<times> nat option \<times> bool) prog" where
  "reap_loop E now [] work processed = ret (work, processed, False)"
| "reap_loop E now (sid # ids) work processed =
     bnd (within_budget E) (\<lambda>ok.
     if \<not> ok then ret (work, processed, True)
     else bnd (reap_one now sid) (\<lambda>_. reap_loop E now ids (work + 1) (Some sid)))"

definition clear_closing_sweep :: "NativeStack \<Rightarrow> NativeStack" where
  "clear_closing_sweep s = s\<lparr>closing_sweep_cursor := None, closing_cleanup_pending := False,
     closing_cleanup_resweep := False\<rparr>"

definition reap_closing_tcp :: "Env \<Rightarrow> instant \<Rightarrow> nat \<Rightarrow> (NativeStack, 'e, nat \<times> bool) prog" where
  "reap_closing_tcp E now limit =
     bnd (gets (\<lambda>s. s)) (\<lambda>s.
     if closing_tcp s = [] then bnd (modify clear_closing_sweep) (\<lambda>_. ret (0, False))
     else if limit = 0 \<or> \<not> closing_cleanup_pending s then ret (0, closing_cleanup_pending s)
     else
       let ids = take (limit + 1) (case closing_sweep_cursor s of
                   None \<Rightarrow> closing_tcp s | Some c \<Rightarrow> filter (\<lambda>i. c < i) (closing_tcp s))
       in bnd (reap_loop E now (take limit ids) 0 None) (\<lambda>(work, processed, stopped).
          bnd (gets closing_tcp) (\<lambda>left.
          if left = [] then bnd (modify clear_closing_sweep) (\<lambda>_. ret (work, False))
          else if limit < length ids \<or> stopped then
            bnd (modify (\<lambda>s. s\<lparr>closing_sweep_cursor :=
                   (case processed of Some i \<Rightarrow> Some i | None \<Rightarrow> closing_sweep_cursor s)\<rparr>)) (\<lambda>_.
            ret (work, True))
          else
            bnd (gets closing_cleanup_resweep) (\<lambda>resweep.
            if resweep then
              bnd (modify (\<lambda>s. s\<lparr>closing_sweep_cursor := None, closing_cleanup_resweep := False\<rparr>)) (\<lambda>_.
              ret (work, True))
            else
              bnd (modify (\<lambda>s. s\<lparr>closing_sweep_cursor := None, closing_cleanup_pending := False\<rparr>)) (\<lambda>_.
              ret (work, False))))))"

end
