(* ===== verification/Maintenance_Invariant.thy ===== *)
theory Maintenance_Invariant
  imports Stack_Invariant Stack_Maintenance
begin

text \<open>
  The background sweeps keep the invariant and never panic: a listener that gives a socket away or
  recycles one always finds room for its replacement, and a reaped socket is removed with its record.
\<close>

section \<open>Capacity checks\<close>

lemma native_bytes_inv:
  assumes "held_inv x y K s"
  shows "native_bytes (socket_set s) = socket_buffer_bytes s + held_bytes x + size y * BUFFER_BYTES"
  using invD(1) [OF assms] by (simp add: own_at_def native_bytes_def socket_buffer_bytes_owned algebra_simps)

lemma ensure_logical_Inr:
  "ensure_logical_socket_capacity s = Inr u \<Longrightarrow> table_len (socket_table s) + length (closing_tcp s) < sockets (limits s)"
  by (auto simp: ensure_logical_socket_capacity_def checked_add_def split: option.splits if_splits)

lemma ensure_native_Inr:
  "ensure_native_socket_capacity n 0 s = Inr u \<Longrightarrow> ss_count (socket_set s) + n \<le> sockets (limits s)"
  by (auto simp: ensure_native_socket_capacity_def checked_add_def checked_sub_def split: option.splits if_splits)

lemma ensure_buffer_Inr:
  "ensure_socket_buffer_capacity n s = Inr u \<Longrightarrow> socket_buffer_bytes s + n \<le> MAX_SOCKET_BUFFER_BYTES"
  by (auto simp: ensure_socket_buffer_capacity_def checked_add_def split: option.splits if_splits)

lemma ensure_errors:
  "ensure_logical_socket_capacity s = Inl e \<Longrightarrow> e = SE_SystemLimit"
  "ensure_native_socket_capacity n m s = Inl e \<Longrightarrow> e = SE_SystemLimit"
  "ensure_socket_buffer_capacity n s = Inl e \<Longrightarrow> e = SE_SystemLimit"
  by (auto simp: ensure_logical_socket_capacity_def ensure_native_socket_capacity_def ensure_socket_buffer_capacity_def
      split: option.splits if_splits)

lemma tcp_socket_spec:
  "sizes_ok a b \<Longrightarrow> \<exists>sk. tcp_socket a b = Inr sk \<and> tcp_info sk = (a, b) \<and> native_wf (NTcp sk) \<and> fresh sk"
  by (auto simp: sizes_ok_def tcp_socket_def TcpSocket_new_def tcp_info_def native_wf.simps fresh_def)

lemma listen_closed:
  "le_port ep \<noteq> 0 \<Longrightarrow> state sk = S_Closed \<Longrightarrow> \<exists>sk' ws. sk_listen ep sk = (Inr (), sk', ws)"
  by (auto simp: sk_listen_def is_open_def Let_def case_prod_beta)

section \<open>Listener members\<close>

lemma mset_bset: "bs_ok xs \<Longrightarrow> mset xs = mset_set (set xs)"
  by (simp add: bs_ok_def strict_sorted_iff mset_set_set)

lemma listener_held_insert:
  assumes "bs_ok (pool l)" and "h \<notin> set (pool l)"
  shows "listener_held (l\<lparr>pool := bs_insert h (pool l)\<rparr>) = add_mset (h, lr_rcvbuf l, lr_sndbuf l) (listener_held l)"
    and "length (bs_insert h (pool l)) = Suc (length (pool l))"
proof -
  have m: "mset (bs_insert h (pool l)) = add_mset h (mset (pool l))"
    using assms by (simp add: mset_bset)
  then show "listener_held (l\<lparr>pool := bs_insert h (pool l)\<rparr>) = add_mset (h, lr_rcvbuf l, lr_sndbuf l) (listener_held l)"
    by (simp add: listener_held_def)
  show "length (bs_insert h (pool l)) = Suc (length (pool l))"
    using arg_cong [OF m, of size] by simp
qed

lemma listener_held_remove:
  assumes "bs_ok (pool l)" and "h \<in> set (pool l)"
  shows "listener_held l = add_mset (h, lr_rcvbuf l, lr_sndbuf l) (listener_held (l\<lparr>pool := bs_remove h (pool l)\<rparr>))"
    and "length (pool l) = Suc (length (bs_remove h (pool l)))"
proof -
  have m: "mset (pool l) = add_mset h (mset (bs_remove h (pool l)))"
    using assms mset_set.remove [of "set (pool l)" h] by (simp add: mset_bset)
  then show "listener_held l = add_mset (h, lr_rcvbuf l, lr_sndbuf l) (listener_held (l\<lparr>pool := bs_remove h (pool l)\<rparr>))"
    by (simp add: listener_held_def)
  show "length (pool l) = Suc (length (bs_remove h (pool l)))"
    using arg_cong [OF m, of size] by simp
qed

lemma listener_held_pool [simp]:
  "listener_held (l\<lparr>accept_queue := q\<rparr>) = listener_held l" "listener_held (l\<lparr>accept_queue := q, pool := p\<rparr>) = listener_held (l\<lparr>pool := p\<rparr>)"
  by (simp_all add: listener_held_def)

text \<open>What stays the same while one listener is out of its map.\<close>

definition beside :: "NativeStack \<Rightarrow> NativeStack \<Rightarrow> bool" where
  "beside s s' \<longleftrightarrow> tcp_listeners s' = tcp_listeners s \<and> next_socket_id (id_counters s) \<le> next_socket_id (id_counters s')"

lemma ensure_native_one:
  "ss_count (socket_set s) < sockets (limits s) \<Longrightarrow> own_at x y (limits s) (socket_set s) rs ls us \<Longrightarrow>
   ensure_native_socket_capacity 1 0 s = Inr ()"
  by (auto simp: ensure_native_socket_capacity_def own_at_def checked_sub_def checked_add_def)

lemma inv_paired: "held_inv x y K s \<Longrightarrow> ss_get_tcp (socket_set s) h = Some sk \<Longrightarrow> paired (NTcp sk)"
  by (simp add: held_inv_def own_at_def sockets_wf_def ss_get_tcp_iff del: paired.simps)

lemma add_listener_member_spec:
  assumes held_inv: "held_inv (x + listener_held l) y K s" and l: "sizes_ok (lr_rcvbuf l) (lr_sndbuf l)" "le_port (listen_endpoint l) \<noteq> 0" "bs_ok (pool l)"
    and room: "ss_count (socket_set s) < sockets (limits s)"
      "native_bytes (socket_set s) + lr_rcvbuf l + lr_sndbuf l \<le> MAX_SOCKET_BUFFER_BYTES"
  shows "wp (add_listener_member l)
    (\<lambda>l' s'. \<exists>h. h \<notin> set (pool l) \<and> l' = l\<lparr>pool := bs_insert h (pool l)\<rparr> \<and> held_inv (x + listener_held l') y K s' \<and> beside s s')
    (\<lambda>_ _. False) s"
proof -
  obtain sk where sk: "tcp_socket (lr_rcvbuf l) (lr_sndbuf l) = Inr sk" "tcp_info sk = (lr_rcvbuf l, lr_sndbuf l)"
    "native_wf (NTcp sk)" "fresh sk" using tcp_socket_spec [OF l(1)] by auto
  obtain h ss where add: "ss_add (NTcp sk) (socket_set s) = (h, ss)" by fastforce
  have "tuple sk = None" using sk(4) by (simp add: fresh_def)
  note i1 = inv_add_tcp [OF held_inv add sk(3) room(1), unfolded sk(2), simplified, OF room(2) this]
  have free: "ensure_native_socket_capacity 1 0 s = Inr ()" using room(1) invD(1) [OF held_inv] by (rule ensure_native_one)
  have new: "h \<notin> set (pool l)"
  proof -
    have "live_tcp ss = add_mset (h, lr_rcvbuf l, lr_sndbuf l)
        (owned_tcp (tcp_records s) (tcp_listeners s) + (x + listener_held l))"
      using invD(1) [OF i1] by (simp add: own_at_def)
    from live_tcp_unique [OF this, of "(lr_rcvbuf l, lr_sndbuf l)"] show ?thesis by (auto simp: listener_held_def)
  qed
  define sk1 where "sk1 = set_timeout connect_timeout sk"
  have g1: "ss_get_tcp ss h = Some sk" using ss_add_get [OF add] by (simp add: ss_get_tcp_iff)
  then have g2: "ss_get_tcp (ss_put h (NTcp sk1) ss) h = Some sk1" by (simp add: ss_get_tcp_iff ss_get_put)
  obtain sk2 ws where ls: "sk_listen (listen_endpoint l) sk1 = (Inr (), sk2, ws)"
    using listen_closed [OF l(2), of sk1] sk(4) by (auto simp: sk1_def fresh_def set_timeout_def)
  have same: "same_socket sk sk1" "same_socket sk1 sk2"
    using same_socket_listen [of sk1 "listen_endpoint l"] by (simp_all add: sk1_def socket_simps ls [unfolded sk1_def])
  let ?held = "(h, lr_rcvbuf l, lr_sndbuf l)"
  have i2: "held_inv (add_mset ?held (x + listener_held l)) y K (s\<lparr>socket_set := ss_put h (NTcp sk1) ss\<rparr>)"
    using inv_put_held [OF i1 _ _ same(1), of h "(lr_rcvbuf l, lr_sndbuf l)"] g1 by simp
  have i3: "held_inv (add_mset ?held (x + listener_held l)) y K
      (s\<lparr>socket_set := ss_put h (NTcp sk2) (ss_put h (NTcp sk1) ss)\<rparr>)"
    using inv_put_held [OF i2 _ _ same(2), of h "(lr_rcvbuf l, lr_sndbuf l)"] g2 by simp
  show ?thesis
    using i3 new g1 g2
    by (simp add: add_listener_member_def wp_simps free [simplified] sk(1) add sk1_def [symmetric] ls listener_held_insert(1) [OF l(3) new] beside_def) blast
qed

lemma recycle_spec:
  assumes held_inv: "held_inv (x + listener_held l) y K s" and l: "listener_ok k l" and h: "h \<in> set (pool l)"
  shows "wp (recycle_listener_member l h)
    (\<lambda>l' s'. listener_ok k l' \<and> held_inv (x + listener_held l') y K s' \<and> beside s s') (\<lambda>_ _. False) s"
proof -
  have ok: "bs_ok (pool l)" "sizes_ok (lr_rcvbuf l) (lr_sndbuf l)" "le_port (listen_endpoint l) \<noteq> 0"
    using l by (simp_all add: listener_ok_def)
  let ?l = "l\<lparr>pool := bs_remove h (pool l)\<rparr>"
  note rm = listener_held_remove [OF ok(1) h]
  have "held_inv (add_mset (h, lr_rcvbuf l, lr_sndbuf l) (x + listener_held ?l)) y K s" using held_inv rm(1) by simp
  note gone = inv_remove_tcp [OF this]
  let ?s = "s\<lparr>socket_set := ss_remove h (socket_set s)\<rparr>"
  have "ss_count (socket_set ?s) < ss_count (socket_set s)"
    and bytes: "native_bytes (socket_set ?s) + lr_rcvbuf l + lr_sndbuf l = native_bytes (socket_set s)"
    using invD(1) [OF gone(1)] invD(1) [OF held_inv] rm(1) by (simp_all add: own_at_def ss_count_live native_bytes_def)
  then have room: "ss_count (socket_set ?s) < sockets (limits ?s)"
    "native_bytes (socket_set ?s) + lr_rcvbuf l + lr_sndbuf l \<le> MAX_SOCKET_BUFFER_BYTES"
    using invD(1) [OF held_inv] unfolding own_at_def bytes by auto
  have "wp (add_listener_member ?l)
      (\<lambda>l' s'. listener_ok k l' \<and> held_inv (x + listener_held l') y K s' \<and> beside s s') (\<lambda>_ _. False) ?s"
    using l rm(2) ok room listener_held_insert(2) [of ?l]
    by (intro wp_mono [OF add_listener_member_spec [OF gone(1)]]) (auto simp: listener_ok_def beside_def)
  then show ?thesis using gone(2) by (simp add: recycle_listener_member_def wp_simps)
qed

lemma allocate_child_spec:
  assumes "held_inv x y K s" and "allocate_child l s = (r, s')"
  shows "held_inv x y K s'" and "beside s s'" and "socket_set s' = socket_set s" and "limits s' = limits s"
    and "r = Inl e \<Longrightarrow> e = SE_SystemLimit"
    and "r = Inr (Some i) \<Longrightarrow> length (accept_queue l) < backlog l \<and> ss_count (socket_set s) < sockets (limits s) \<and>
      socket_buffer_bytes s + (length (pool l) + 1) * (lr_rcvbuf l + lr_sndbuf l) \<le> MAX_SOCKET_BUFFER_BYTES \<and>
      bt_get (tcp_records s') (si_id i) = None \<and> si_id i < next_socket_id (id_counters s')"
proof -
  obtain r1 t c where ti: "table_insert Tcp 0 (socket_table s, id_counters s) = (r1, t, c)" by (metis prod_cases3)
  let ?s = "s\<lparr>socket_table := t, id_counters := c\<rparr>"
  consider (full) "r = Inr None" "s' = s"
    | (limit) e where "r = Inl e" "e = SE_SystemLimit" "s' = s"
    | (insert) "length (accept_queue l) < backlog l" "ensure_logical_socket_capacity s = Inr ()"
        "ensure_native_socket_capacity 1 0 s = Inr ()"
        "ensure_socket_buffer_capacity ((length (pool l) + 1) * (lr_rcvbuf l + lr_sndbuf l)) s = Inr ()"
        "s' = ?s" "r = (case r1 of Inl e \<Rightarrow> Inl e | Inr i \<Rightarrow> Inr (Some i))"
    using assms(2) ensure_errors
    by (auto simp: allocate_child_def ti Let_def elim!: check_cases split: if_splits sum.splits)
  then have "held_inv x y K s' \<and> beside s s' \<and> socket_set s' = socket_set s \<and> limits s' = limits s \<and>
    (\<forall>e. r = Inl e \<longrightarrow> e = SE_SystemLimit) \<and>
    (\<forall>i. r = Inr (Some i) \<longrightarrow> length (accept_queue l) < backlog l \<and> ss_count (socket_set s) < sockets (limits s) \<and>
      socket_buffer_bytes s + (length (pool l) + 1) * (lr_rcvbuf l + lr_sndbuf l) \<le> MAX_SOCKET_BUFFER_BYTES \<and>
      bt_get (tcp_records s') (si_id i) = None \<and> si_id i < next_socket_id (id_counters s'))"
  proof cases
    case insert
    note ins = inv_table_insert [OF assms(1) ensure_logical_Inr [OF insert(2)] ti]
    show ?thesis
      using ins insert inv_fresh_id(1) [OF assms(1)] ensure_native_Inr [OF insert(3)] ensure_buffer_Inr [OF insert(4)]
      by (auto simp: beside_def split: sum.splits)
  qed (use assms(1) in \<open>auto simp: beside_def\<close>)
  then show "held_inv x y K s'" "beside s s'" "socket_set s' = socket_set s" "limits s' = limits s"
    "r = Inl e \<Longrightarrow> e = SE_SystemLimit"
    "r = Inr (Some i) \<Longrightarrow> length (accept_queue l) < backlog l \<and> ss_count (socket_set s) < sockets (limits s) \<and>
      socket_buffer_bytes s + (length (pool l) + 1) * (lr_rcvbuf l + lr_sndbuf l) \<le> MAX_SOCKET_BUFFER_BYTES \<and>
      bt_get (tcp_records s') (si_id i) = None \<and> si_id i < next_socket_id (id_counters s')" by auto
qed

lemma record_ok_accepted:
  "sizes_ok a b \<Longrightarrow> same_family (ip_addr loc) (ip_addr rem) \<Longrightarrow> record_ok ss (si_id i) (TcpRecord_accepted i h loc rem scope a b)"
  by (simp add: record_ok_def TcpRecord_accepted_def early_def)

lemma promote_spec:
  assumes inv: "held_inv (listener_held l) {#} K s" and l: "listener_ok k l" and h: "h \<in> set (pool l)"
    and child: "length (accept_queue l) < backlog l" "bt_get (tcp_records s) (si_id i) = None"
      "si_id i < next_socket_id (id_counters s)"
    and room: "ss_count (socket_set s) < sockets (limits s)"
      "native_bytes (socket_set s) + lr_rcvbuf l + lr_sndbuf l \<le> MAX_SOCKET_BUFFER_BYTES"
    and fam: "same_family (ip_addr loc) (ip_addr rem)"
  shows "wp (promote_listener_member l h loc rem i)
    (\<lambda>l' s'. listener_ok k l' \<and> held_inv (listener_held l') {#} K s' \<and> beside s s') (\<lambda>_ _. False) s"
proof -
  have ok: "bs_ok (pool l)" "sizes_ok (lr_rcvbuf l) (lr_sndbuf l)" "le_port (listen_endpoint l) \<noteq> 0"
    using l by (simp_all add: listener_ok_def)
  let ?l = "l\<lparr>accept_queue := accept_queue l @ [i], pool := bs_remove h (pool l)\<rparr>"
  let ?held = "(h, lr_rcvbuf l, lr_sndbuf l)"
  note rm = listener_held_remove [OF ok(1) h]
  have i0: "held_inv (add_mset ?held (listener_held ?l)) {#} K s" using inv rm(1) by simp
  obtain sk where sk: "ss_get_tcp (socket_set s) h = Some sk" using inv_held [OF i0, of h "snd ?held"] by auto
  define r where "r = TcpRecord_accepted i h loc rem (ve_scope_id (lr_endpoint l)) (lr_rcvbuf l) (lr_sndbuf l)"
  let ?ss = "ss_put h (NTcp (set_timeout (Some (timers_user_timeout (tcp_timers s))) sk)) (socket_set s)"
  let ?s1 = "s\<lparr>socket_set := ?ss\<rparr>"
  have i1: "held_inv (add_mset ?held (listener_held ?l)) {#} K ?s1"
    using inv_put_held [OF i0 _ sk, of "snd ?held"] by (simp add: socket_simps)
  have held: "record_held r = ?held" by (simp add: record_held_def r_def TcpRecord_accepted_def)
  have rok: "record_ok ss (si_id i) r" for ss using ok(2) fam by (simp add: r_def record_ok_accepted)
  let ?s2 = "?s1\<lparr>tcp_connections := bt_insert (ConnectionKey_new loc rem) i (tcp_connections s),
      tcp_records := bt_insert (si_id i) r (tcp_records s)\<rparr>"
  have i2: "held_inv (listener_held ?l) {#} K ?s2"
  proof -
    have "held_inv (listener_held ?l) {#} K (?s1\<lparr>tcp_records := bt_insert (si_id i) r (tcp_records ?s1)\<rparr>)"
      using child i1 ok by (intro inv_insert_record) (simp_all add: held rok)
    then show ?thesis by (simp add: held_inv_def)
  qed
  have live: "ss_count ?ss = ss_count (socket_set s)" "native_bytes ?ss = native_bytes (socket_set s)"
  proof -
    have "tcp_info (set_timeout d sk) = tcp_info sk" for d by (simp add: tcp_info_def set_timeout_def)
    from live_tcp_put [OF sk this] show "ss_count ?ss = ss_count (socket_set s)" "native_bytes ?ss = native_bytes (socket_set s)"
      by (simp_all add: ss_count_live native_bytes_def)
  qed
  have "wp (add_listener_member ?l)
      (\<lambda>l' s'. listener_ok k l' \<and> held_inv (listener_held l') {#} K s' \<and> beside s s') (\<lambda>_ _. False) ?s2"
    using l rm(2) ok room live listener_held_insert(2) [of ?l] child(1) i2
    by (intro wp_mono [OF add_listener_member_spec [of "{#}" ?l "{#}" K]]) (auto simp: listener_ok_def beside_def)
  then have "wp (add_listener_member ?l) (\<lambda>l' s'. listener_ok k l' \<and>
      (\<forall>ks n. held_inv (listener_held l') {#} K (woken ks (s'\<lparr>counters := n\<rparr>)) \<and> beside s (woken ks (s'\<lparr>counters := n\<rparr>)) \<and>
        held_inv (listener_held l') {#} K (s'\<lparr>counters := n\<rparr>) \<and> beside s (s'\<lparr>counters := n\<rparr>))) (\<lambda>_ _. False) ?s2"
    by (rule wp_mono) (auto simp: beside_def)
  then show ?thesis
    unfolding promote_listener_member_def mark_listener_ready_def
    by (simp add: wp_simps connection_key_def fam sk r_def [symmetric] split: sum.splits) (erule wp_mono, auto split: sum.splits)
qed

lemma refresh_member_spec:
  assumes inv: "held_inv (listener_held l) {#} K s" and l: "listener_ok k l" and h: "h \<in> set (pool l)"
  shows "wp (refresh_member l h :: (NativeStack, 'e, ListenerRecord) prog)
    (\<lambda>l' s'. listener_ok k l' \<and> held_inv (listener_held l') {#} K s' \<and> beside s s') (\<lambda>_ _. False) s"
    (is "wp _ ?Q _ _")
proof -
  have "(h, lr_rcvbuf l, lr_sndbuf l) \<in># listener_held l" using h by (simp add: listener_held_def)
  from inv_held [OF inv this] obtain sk where sk: "ss_get_tcp (socket_set s) h = Some sk" by auto
  have recycle: "wp (recycle_listener_member l h :: (NativeStack, 'e, ListenerRecord) prog) ?Q (\<lambda>_ _. False) s" 
    using recycle_spec [of "{#}" l "{#}" K s k h] inv l h by simp
  show ?thesis
  proof (cases "state sk \<in> {S_Established, S_CloseWait} \<and> tuple sk \<noteq> None")
    case True
    then obtain loc rem where tp: "tuple sk = Some (loc, rem)" and st: "(state sk = S_Established \<or> state sk = S_CloseWait) = True"
      by auto
    have fam: "same_family (ip_addr loc) (ip_addr rem)" using inv_paired [OF inv sk] tp by simp
    obtain r s1 where ch: "allocate_child l s = (r, s1)" by fastforce
    note a = allocate_child_spec [OF inv ch]
    have after: "wp (recycle_listener_member l h :: (NativeStack, 'e, ListenerRecord) prog) ?Q (\<lambda>_ _. False) s1"
      using recycle_spec [of "{#}" l "{#}" K s1 k h] a(1,2) l h
      by (auto simp: beside_def elim!: wp_mono)
    have dropped: "wp (recycle_listener_member l h :: (NativeStack, 'e, ListenerRecord) prog) (\<lambda>l' s'. ?Q l' (s'\<lparr>counters := (counters s')\<lparr>listener_overflow_drops :=
        listener_overflow_drops (counters s') + 1\<rparr>\<rparr>)) (\<lambda>_ _. False) s1"
      by (rule wp_mono [OF after]) (auto simp: beside_def)
    have promoted: "wp (promote_listener_member l h loc rem i :: (NativeStack, 'e, ListenerRecord) prog) ?Q (\<lambda>_ _. False) s1" if "r = Inr (Some i)" for i
    proof -
      have "native_bytes (socket_set s1) + lr_rcvbuf l + lr_sndbuf l \<le> MAX_SOCKET_BUFFER_BYTES"
        using a(6) [OF that] native_bytes_inv [OF inv] a(3) by (simp add: algebra_simps)
      then show ?thesis
        using a(2,3,4) a(6) [OF that] fam by (intro wp_mono [OF promote_spec [OF a(1) l h]]) (auto simp: beside_def)
    qed
    show ?thesis
      using a(5) dropped promoted
      by (auto simp: refresh_member_def wp_simps sk tp st ch split: sum.splits option.splits)
  next
    case False
    then have "wp (refresh_member l h :: (NativeStack, 'e, ListenerRecord) prog) ?Q (\<lambda>_ _. False) s =
        (if state sk \<notin> {S_Listen, S_SynReceived} then wp (recycle_listener_member l h :: (NativeStack, 'e, ListenerRecord) prog) ?Q (\<lambda>_ _. False) s else ?Q l s)"
      by (auto simp: refresh_member_def wp_simps sk split: option.splits bool.splits)
    then show ?thesis using recycle inv l by (auto simp: beside_def)
  qed
qed

lemma refresh_listener_member_runs [runs_intros]: "runs (held_inv {#} {#} K) (refresh_listener_member key :: (NativeStack, 'e, unit) prog)"
proof (rule runsI)
  fix s assume inv: "held_inv {#} {#} K s"
  obtain k h where key: "key = (k, h)" by fastforce
  show "wp (refresh_listener_member key :: (NativeStack, 'e, unit) prog) (\<lambda>_. held_inv {#} {#} K) (\<lambda>_ _. False) s"
  proof (cases "bt_get (tcp_listeners s) k")
    case None
    then show ?thesis using inv by (simp add: refresh_listener_member_def wp_simps key)
  next
    case (Some l)
    let ?s = "s\<lparr>tcp_listeners := bt_remove k (tcp_listeners s)\<rparr>"
    have none: "bt_get (tcp_listeners ?s) k = None" using invD(6) [OF inv] by simp
    note rm = inv_remove_listener [OF inv Some, simplified]
    have "wp (if h \<notin> set (pool l) then ret l else refresh_member l h :: (NativeStack, 'e, ListenerRecord) prog)
        (\<lambda>l' s'. listener_ok k l' \<and> held_inv (listener_held l') {#} K s' \<and> beside ?s s') (\<lambda>_ _. False) ?s"
      using rm refresh_member_spec [OF rm(1,2), of h]
      by (cases "h \<in> set (pool l)") (simp_all add: wp_simps beside_def)
    then have "wp (if h \<notin> set (pool l) then ret l else refresh_member l h :: (NativeStack, 'e, ListenerRecord) prog)
        (\<lambda>l' s'. held_inv {#} {#} K (s'\<lparr>tcp_listeners := bt_insert k l' (tcp_listeners s')\<rparr>)) (\<lambda>_ _. False) ?s"
    proof (rule wp_mono)
      fix l' s'
      assume "listener_ok k l' \<and> held_inv (listener_held l') {#} K s' \<and> beside ?s s'"
      then show "held_inv {#} {#} K (s'\<lparr>tcp_listeners := bt_insert k l' (tcp_listeners s')\<rparr>)"
        using none rm(3) by (intro inv_insert_listener) (simp_all add: beside_def)
    qed simp
    then show ?thesis
      using Some by (cases "h \<in> set (pool l)") (simp_all add: refresh_listener_member_def wp_simps key)
  qed
qed

lemma refresh_loop_runs [runs_intros]: "runs (held_inv {#} {#} K) (refresh_loop E ks w p)"
  by (induction ks arbitrary: w p) (auto intro!: runs_intros)

lemma refresh_listeners_runs [runs_intros]: "runs (held_inv {#} {#} K) (refresh_listeners E limit)"
  unfolding refresh_listeners_def by (auto intro!: runs_intros split: option.splits)

section \<open>Closing sockets\<close>

lemma request_runs [simp]:
  "held_inv x y K (request_listener_scan s) = held_inv x y K s" "held_inv x y K (request_closing_cleanup s) = held_inv x y K s"
  by (simp_all add: request_listener_scan_def request_closing_cleanup_def)

definition forgotten :: "TcpRecord \<Rightarrow> NativeStack \<Rightarrow> NativeStack" where
  "forgotten r s =
     s\<lparr>tcp_connections :=
         (case (local r, remote r) of (Some loc, Some rem) \<Rightarrow> bt_remove (ConnectionKey_new loc rem) (tcp_connections s)
          | _ \<Rightarrow> tcp_connections s),
       tcp_records := bt_remove (si_id (tr_identity r)) (tcp_records s)\<rparr>"

definition paired_ends :: "TcpRecord \<Rightarrow> bool" where
  "paired_ends r \<longleftrightarrow> (\<forall>loc rem. local r = Some loc \<longrightarrow> remote r = Some rem \<longrightarrow> same_family (ip_addr loc) (ip_addr rem))"

lemma paired_ends_record: "record_ok ss k r \<Longrightarrow> paired_ends r"
  by (simp add: record_ok_def paired_ends_def)

lemma paired_ends_held: "held_inv x y K s \<Longrightarrow> bt_get (tcp_records s) k = Some r \<Longrightarrow> paired_ends r"
  using inv_record [of x y K s k r] by (auto intro: paired_ends_record)

text \<open>The assertion that the ends of a record are of one family holds of every record of a stack in order.\<close>

lemma wp_remove_tcp_record [wp_simps]:
  "wp (remove_tcp_record r) Q E = (\<lambda>s. if paired_ends r then Q () (forgotten r s) else E Panic s)"
  by (cases "local r"; cases "remote r")
    (auto simp: remove_tcp_record_def remove_connection_def connection_key_def paired_ends_def forgotten_def wp_simps fun_eq_iff)

lemma forgotten_inv:
  assumes "held_inv x y K s" and "bt_get (tcp_records s) (si_id (tr_identity r)) = Some r'" and "record_held r' = record_held r"
    and "si_id (tr_identity r) \<notin> fst ` K"
  shows "held_inv (add_mset (record_held r) x) y K (forgotten r s)"
proof -
  have "held_inv (add_mset (record_held r) x) y K (s\<lparr>tcp_records := bt_remove (si_id (tr_identity r)) (tcp_records s)\<rparr>)"
    using inv_remove_record [OF assms(1,2,4)] assms(3) by simp
  then show ?thesis
    by (simp add: forgotten_def held_inv_def)
qed

lemma forgotten_frame [simp]:
  "socket_set (forgotten r s) = socket_set s" "closing_tcp (forgotten r s) = closing_tcp s"
  "closing_deadlines (forgotten r s) = closing_deadlines s" "tcp_listeners (forgotten r s) = tcp_listeners s"
  "id_counters (forgotten r s) = id_counters s"
  "forgotten r (s\<lparr>closing_tcp := c\<rparr>) = (forgotten r s)\<lparr>closing_tcp := c\<rparr>"
  "forgotten r (s\<lparr>closing_deadlines := d\<rparr>) = (forgotten r s)\<lparr>closing_deadlines := d\<rparr>"
  "forgotten r (s\<lparr>socket_set := ss\<rparr>) = (forgotten r s)\<lparr>socket_set := ss\<rparr>"
  by (simp_all add: forgotten_def split: option.splits)

lemma remove_tcp_socket_spec:
  assumes "held_inv x y K s" and "bt_get (tcp_records s) (si_id (tr_identity r)) = Some r'" and "record_held r' = record_held r"
    and "si_id (tr_identity r) \<notin> fst ` K" and ends: "paired_ends r"
  shows "wp (remove_tcp_socket r) (\<lambda>_. held_inv x y K) (\<lambda>_ _. False) s"
proof -
  note rm = forgotten_inv [OF assms(1-4), unfolded record_held_def]
  note gone = inv_remove_tcp [OF rm]
  from inv_closing_remove [OF gone(1), of "si_id (tr_identity r)"]
  have "held_inv x y K ((forgotten r s)\<lparr>socket_set := ss_remove (tr_handle r) (socket_set s),
      closing_tcp := bs_remove (si_id (tr_identity r)) (closing_tcp s)\<rparr>)" by simp
  then show ?thesis
    using gone(2) ends by (simp add: remove_tcp_socket_def wp_simps Let_def split: option.splits)
qed

lemma reap_one_spec:
  assumes inv: "held_inv {#} {#} K s" and k: "sid \<notin> fst ` K"
  shows "wp (reap_one now sid :: (NativeStack, 'e, unit) prog) (\<lambda>_. held_inv {#} {#} K) (\<lambda>_ _. False) s"
proof (cases "bt_get (tcp_records s) sid")
  case None
  then show ?thesis using inv_closing_remove [OF inv] by (simp add: reap_one_def wp_simps)
next
  case (Some r)
  note rec = inv_record [OF inv Some]
  then obtain sk where sk: "ss_get_tcp (socket_set s) (tr_handle r) = Some sk" by auto
  have sid: "si_id (tr_identity r) = sid" using rec(2) by (simp add: record_ok_def)
  have rm: "wp (remove_tcp_socket r :: (NativeStack, 'e, unit) prog) (\<lambda>_. held_inv {#} {#} K) (\<lambda>_ _. False) s"
    using Some sid k paired_ends_held [OF inv Some] by (intro remove_tcp_socket_spec [OF inv]) auto
  have upd: "held_inv {#} {#} K (s'\<lparr>closing_deadlines := cd, tcp_records := bt_insert sid (r\<lparr>close_deadline := None\<rparr>) (tcp_records s')\<rparr>)"
    if "held_inv {#} {#} K s'" and "bt_get (tcp_records s') sid = Some r" for s' cd
  proof -
    have "held_inv {#} {#} K (s'\<lparr>tcp_records := bt_insert sid (r\<lparr>close_deadline := None\<rparr>) (tcp_records s')\<rparr>)"
      using inv_record(2) [OF that] by (intro inv_update_record [OF that])
        (simp_all add: record_sig_def record_held_def record_ok_def early_def)
    then show ?thesis by (simp add: held_inv_def)
  qed
  have abort: "held_inv {#} {#} K (s\<lparr>socket_set := ss_put (tr_handle r) (NTcp (fst (sk_abort sk))) (socket_set s)\<rparr>)"
    by (rule inv_put [OF inv sk]) (simp_all add: socket_simps)
  note u1 = upd [OF inv Some]
  note u2 = upd [of "woken (snd (sk_abort sk)) (s\<lparr>socket_set := ss_put (tr_handle r) (NTcp (fst (sk_abort sk))) (socket_set s)\<rparr>)",
      simplified, OF abort Some]
  show ?thesis
    using rm u1 u2 inv by (simp add: reap_one_def wp_simps sk Some split: option.splits)
qed

lemma reap_one_runs: "sid \<notin> fst ` K \<Longrightarrow> runs (held_inv {#} {#} K) (reap_one now sid)"
  by (rule runsI) (rule reap_one_spec)

lemma reap_loop_runs: "set sids \<inter> fst ` K = {} \<Longrightarrow> runs (held_inv {#} {#} K) (reap_loop E now sids w p)"
  by (induction sids arbitrary: w p) (auto intro!: runs_intros reap_one_runs)

lemma reap_closing_runs [runs_intros]: "runs (held_inv {#} {#} K) (reap_closing_tcp E now limit)"
proof (rule runsI)
  fix s assume inv: "held_inv {#} {#} K s"
  define base where "base = (case closing_sweep_cursor s of
      None \<Rightarrow> closing_tcp s | Some c \<Rightarrow> filter (\<lambda>i. c < i) (closing_tcp s))"
  have "set (take limit base) \<subseteq> set (closing_tcp s)"
    by (auto simp: base_def dest!: in_set_takeD split: option.splits)
  then have "set (take limit base) \<inter> fst ` K = {}"
    using invD(3) [OF inv] by (fastforce simp: keep_at_def)
  note loop = reap_loop_runs [OF this, of E now 0 None]
  show "wp (reap_closing_tcp E now limit) (\<lambda>_. held_inv {#} {#} K) (\<lambda>_ _. False) s"
    unfolding reap_closing_tcp_def Let_def
    using inv by (simp add: wp_simps clear_closing_sweep_def base_def [symmetric])
      (intro impI runs_wp [OF loop], auto simp: wp_simps clear_closing_sweep_def split: prod.splits)
qed

end
