(* ===== verification/Stack_Drive.thy ===== *)
theory Stack_Drive
  imports Stack_Maintenance Stack_Ready
begin

text \<open>
  Driving the engine (\<open>drive_batch\<close> of \<open>stack.rs\<close>): a call hands over finished packets, feeds held and
  new packets to the engine, runs listener and closing sweeps, lets the engine emit, and reports when
  to be called again. Around it are the packet checks of \<open>ingress_batch\<close> and the call of \<open>poll\<close>.
\<close>

section \<open>Ingress\<close>

definition retarget_handles :: "IpAddress \<Rightarrow> nat \<Rightarrow> NativeStack \<Rightarrow> SocketHandle list" where
  "retarget_handles destination port s =
     concat (map (\<lambda>(_, l). pool l)
       (filter (\<lambda>(_, l). is_unspecified (ve_address (lr_endpoint l)) \<and>
            family_matches (family_of destination) (ve_address (lr_endpoint l)) \<and>
            ip_port (lr_local l) = port) (tcp_listeners s)))"

definition retarget_socket :: "IpListenEndpoint \<Rightarrow> SocketHandle \<Rightarrow> (NativeStack, 'e, unit) prog" where
  "retarget_socket endpoint h =
     bnd (get_tcp h) (\<lambda>sk.
     guarded (state sk = S_Listen \<and> sk_listen_endpoint sk \<noteq> endpoint)
       (bnd (wake_tcp h sk_abort) (\<lambda>_.
        bnd (upd_tcp h (set_timeout connect_timeout)) (\<lambda>_.
        bnd (on_tcp h (sk_listen endpoint)) (\<lambda>r.
        bnd (expect (liftr r)) (\<lambda>_. ret ()))))))"

definition retarget_wildcard_listener :: "bytes \<Rightarrow> (NativeStack, 'e, unit) prog" where
  "retarget_wildcard_listener packet =
     (case tcp_listener_target packet of
        None \<Rightarrow> ret ()
      | Some (destination, port) \<Rightarrow>
          bnd (gets (retarget_handles destination port)) (\<lambda>handles.
          each (retarget_socket \<lparr>le_addr = Some destination, le_port = port\<rparr>) handles))"

definition inbound_reset :: "bytes \<Rightarrow> (NativeStack, 'e, (SocketIdentity \<times> ConnectFailure) option) prog" where
  "inbound_reset packet =
     (case tcp_segment packet of
        None \<Rightarrow> ret None
      | Some (source, destination, seg) \<Rightarrow>
          if \<not> tcp_rst seg then ret None
          else
            bnd (connection_key \<lparr>ip_addr = destination, ip_port = tcp_dst_port seg\<rparr>
                   \<lparr>ip_addr = source, ip_port = tcp_src_port seg\<rparr>) (\<lambda>key.
            bnd (gets (\<lambda>s. bt_get (tcp_connections s) key)) (\<lambda>found.
            case found of
              None \<Rightarrow> ret None
            | Some i \<Rightarrow>
                bnd (gets (tcp_record i)) (\<lambda>r.
                case r of
                  Inl _ \<Rightarrow> ret None
                | Inr r \<Rightarrow>
                    bnd (get_tcp (tr_handle r)) (\<lambda>sk.
                    ret (case state sk of
                           S_Established \<Rightarrow> Some (i, Reset)
                         | S_SynSent \<Rightarrow> Some (i, Refused)
                         | S_SynReceived \<Rightarrow> Some (i, Refused)
                         | _ \<Rightarrow> None))))))"

definition record_inbound_reset :: "(SocketIdentity \<times> ConnectFailure) option \<Rightarrow> (NativeStack, 'e, unit) prog" where
  "record_inbound_reset rst =
     (case rst of
        None \<Rightarrow> ret ()
      | Some (i, failure) \<Rightarrow>
          bnd (gets (tcp_record i)) (\<lambda>r.
          case r of
            Inl _ \<Rightarrow> ret ()
          | Inr r \<Rightarrow>
              bnd (get_tcp (tr_handle r)) (\<lambda>sk.
              guarded (state sk = S_Closed)
                (modify (\<lambda>s. s\<lparr>tcp_records :=
                   bt_insert (si_id i) (r\<lparr>phase := Failed failure\<rparr>) (tcp_records s)\<rparr>)))))"

text \<open>One \<open>poll_ingress_single\<close> and one \<open>poll_egress\<close> of the engine, which may panic.\<close>

definition engine_ingress :: "Env \<Rightarrow> instant \<Rightarrow> bytes \<Rightarrow> (NativeStack, 'e, bool) prog" where
  "engine_ingress E now packet =
     bnd (gets (\<lambda>s. e_ingress E (engine_calls s) now (ReceiveOne_new (dev s) packet) (socket_set s))) (\<lambda>run.
     case run of
       None \<Rightarrow> raise Panic
     | Some ((d, left), ss, ws) \<Rightarrow>
         bnd (modify (\<lambda>s. s\<lparr>dev := d, socket_set := ss, engine_calls := Suc (engine_calls s)\<rparr>)) (\<lambda>_.
         bnd (wake ws) (\<lambda>_. ret (left = None))))"

definition engine_egress :: "Env \<Rightarrow> instant \<Rightarrow> (NativeStack, 'e, bool) prog" where
  "engine_egress E now =
     bnd (gets (\<lambda>s. e_egress E (engine_calls s) now (dev s) (socket_set s))) (\<lambda>run.
     case run of
       None \<Rightarrow> raise Panic
     | Some (changed, d, ss, ws) \<Rightarrow>
         bnd (modify (\<lambda>s. s\<lparr>dev := d, socket_set := ss, engine_calls := Suc (engine_calls s)\<rparr>)) (\<lambda>_.
         bnd (wake ws) (\<lambda>_. ret changed)))"

definition take_held :: "(NativeStack, 'e, bytes option) prog" where
  "take_held = act (\<lambda>s. case take_receive (dev s) of (p, d) \<Rightarrow> (p, s\<lparr>dev := d\<rparr>))"

definition return_held :: "bytes option \<Rightarrow> (NativeStack, 'e, unit) prog" where
  "return_held held = modify (\<lambda>s. case held of None \<Rightarrow> s | Some p \<Rightarrow> s\<lparr>dev := return_receive p (dev s)\<rparr>)"

text \<open>\<open>n\<close> is what the input limit leaves and \<open>batch\<close> the packets not yet taken. The loop returns the
  ingress work, the untaken packets and whether the deadline stopped it.\<close>

fun ingress_loop ::
    "Env \<Rightarrow> instant \<Rightarrow> nat \<Rightarrow> bytes list \<Rightarrow> nat \<Rightarrow> (NativeStack, 'e, nat \<times> bytes list \<times> bool) prog" where
  "ingress_loop E now 0 batch work = ret (work, batch, False)"
| "ingress_loop E now (Suc n) batch work =
     bnd (gets dev) (\<lambda>d.
     if \<not> ((has_receive d \<or> batch \<noteq> []) \<and> can_receive d) then ret (work, batch, False)
     else
       bnd (within_budget E) (\<lambda>ok.
       if \<not> ok then ret (work, batch, True)
       else
         bnd take_held (\<lambda>held.
         let packet = (case held of Some p \<Rightarrow> p | None \<Rightarrow> hd batch) in
         bnd (retarget_wildcard_listener packet) (\<lambda>_.
         bnd (inbound_reset packet) (\<lambda>rst.
         bnd (engine_ingress E now packet) (\<lambda>received.
         if \<not> received then bnd (return_held held) (\<lambda>_. ret (work, batch, False))
         else
           bnd (record_inbound_reset rst) (\<lambda>_.
           bnd (modify request_closing_cleanup) (\<lambda>_.
           bnd (modify request_listener_scan) (\<lambda>_.
           ingress_loop E now n (if held = None then tl batch else batch) (work + 1))))))))))"

section \<open>Egress\<close>

text \<open>The loop returns the maintenance work, whether egress was attempted, whether it may have more
  to do, and whether the deadline stopped it.\<close>

fun egress_loop ::
    "Env \<Rightarrow> instant \<Rightarrow> nat \<Rightarrow> nat \<Rightarrow> bool \<Rightarrow> bool \<Rightarrow> (NativeStack, 'e, nat \<times> bool \<times> bool \<times> bool) prog" where
  "egress_loop E now 0 work attempted remain = ret (work, attempted, remain, False)"
| "egress_loop E now (Suc n) work attempted remain =
     bnd (gets (\<lambda>s. s)) (\<lambda>s.
     if \<not> (snd (queued_packets (dev s)) < output_packets (limits s) \<and> transmit_credit_available (dev s))
     then ret (work, attempted, remain, False)
     else
       bnd (within_budget E) (\<lambda>ok.
       if \<not> ok then ret (work, attempted, remain, True)
       else
         bnd (engine_egress E now) (\<lambda>changed.
         if \<not> changed then ret (work + 1, True, False, False)
         else
           bnd (modify request_closing_cleanup) (\<lambda>_.
           bnd (modify request_listener_scan) (\<lambda>_.
           egress_loop E now n (work + 1) True True)))))"

definition take_output :: "Env \<Rightarrow> nat \<Rightarrow> nat \<Rightarrow> (NativeStack, 'e, bytes list) prog" where
  "take_output E packet_limit byte_limit = act (\<lambda>s.
     case take_transmit (e_clock E) packet_limit byte_limit (call_budget s) (dev s) of
       (ps, d, m) \<Rightarrow> (ps, s\<lparr>dev := d, call_budget := m\<rparr>))"

definition hold_unprocessed :: "bytes list \<Rightarrow> (NativeStack, StackError, unit) prog" where
  "hold_unprocessed packets =
     (if packets = [] then ret ()
      else bnd (act (\<lambda>s. case enqueue_receive_batch packets (dev s) of (r, d) \<Rightarrow> (r, s\<lparr>dev := d\<rparr>))) (\<lambda>r.
        case r of Inl _ \<Rightarrow> raise (Err OwnershipInvariantViolation) | Inr _ \<Rightarrow> ret ()))"

section \<open>One drive\<close>

definition first_cleanup :: "Env \<Rightarrow> instant \<Rightarrow> (NativeStack, 'e, nat \<times> bool) prog" where
  "first_cleanup E now =
     bnd (gets (\<lambda>s. s)) (\<lambda>s.
     if maintenance_cleanup_turn s \<and> closing_cleanup_pending s
     then reap_closing_tcp E now (min (maintenance_work (limits s)) 1)
     else ret (0, False))"

definition first_refresh :: "Env \<Rightarrow> nat \<Rightarrow> (NativeStack, 'e, nat \<times> bool) prog" where
  "first_refresh E remaining =
     bnd (gets (\<lambda>s. s)) (\<lambda>s.
     if listener_scan_pending s \<and> 0 < remaining \<and> (1 < remaining \<or> listener_maintenance_turn s)
     then refresh_listeners E (if remaining = 1 then 1 else max (remaining div 2) 1)
     else ret (0, False))"

definition last_cleanup :: "Env \<Rightarrow> instant \<Rightarrow> bool \<Rightarrow> nat \<Rightarrow> (NativeStack, 'e, nat \<times> bool) prog" where
  "last_cleanup E now done_before remaining =
     bnd (gets closing_cleanup_pending) (\<lambda>pending.
     if \<not> done_before \<and> pending then reap_closing_tcp E now remaining else ret (0, False))"

definition last_refresh :: "Env \<Rightarrow> bool \<Rightarrow> nat \<Rightarrow> (NativeStack, 'e, nat \<times> bool) prog" where
  "last_refresh E done_before remaining =
     bnd (gets listener_scan_pending) (\<lambda>pending.
     if \<not> done_before \<and> pending then refresh_listeners E remaining else ret (0, False))"

definition min_instant :: "instant option \<Rightarrow> instant option \<Rightarrow> instant option" where
  "min_instant a b = (case (a, b) of (Some x, Some y) \<Rightarrow> Some (min x y) | (None, _) \<Rightarrow> b | (_, None) \<Rightarrow> a)"

definition next_poll :: "Env \<Rightarrow> instant \<Rightarrow> bool \<Rightarrow> bool \<Rightarrow> (NativeStack, 'e, int option) prog" where
  "next_poll E now again egress_open =
     (if again then ret (Some (total_millis now))
      else
        bnd (engine_poll_at E now) (\<lambda>engine.
        let engine = (case engine of None \<Rightarrow> None | Some t \<Rightarrow> if egress_open \<or> now < t then Some t else None)
        in gets (\<lambda>s. map_option total_millis (min_instant engine (next_close_deadline s)))))"

definition scheduled_deadline_reached :: "instant \<Rightarrow> NativeStack \<Rightarrow> bool" where
  "scheduled_deadline_reached now s \<longleftrightarrow>
     closing_tcp s \<noteq> [] \<and> (case scheduled_poll_at s of None \<Rightarrow> False | Some dl \<Rightarrow> dl \<le> now)"

text \<open>The maintenance and egress part, after ingress. It returns the maintenance work and whether
  cleanup, listener, egress or deferred work remains.\<close>

definition drive_maintenance ::
    "Env \<Rightarrow> instant \<Rightarrow> bytes list \<Rightarrow> (NativeStack, 'e, nat \<times> bytes list \<times> bool \<times> bool \<times> bool) prog" where
  "drive_maintenance E now out =
     bnd (gets limits) (\<lambda>lim.
     bnd (gets (scheduled_deadline_reached now)) (\<lambda>deadline_reached.
     bnd (first_cleanup E now) (\<lambda>(cleanup_work, cleanup_more).
     let cleanup_ran = 0 < cleanup_work; work = cleanup_work in
     bnd (first_refresh E (maintenance_work lim - work)) (\<lambda>(listener_work, listener_more).
     let listener_ran = 0 < listener_work; work = work + listener_work in
     bnd (egress_loop E now (maintenance_work lim - work) work False False) (\<lambda>(work, attempted, remain, deferred).
     let remain = (if \<not> attempted \<and> work = maintenance_work lim then True else remain) in
     bnd (guarded (deadline_reached \<and> attempted)
       (bnd (modify request_closing_cleanup) (\<lambda>_.
        guarded (\<not> remain) (modify (\<lambda>s. s\<lparr>scheduled_poll_at := None\<rparr>))))) (\<lambda>_.
     bnd (take_output E (output_packets lim - length out) (bytes_copied lim - queue_bytes out)) (\<lambda>additional.
     bnd (last_cleanup E now cleanup_ran (maintenance_work lim - work)) (\<lambda>(cleanup_work, more).
     let cleanup_ran = (cleanup_ran \<or> 0 < cleanup_work); cleanup_more = (cleanup_more \<or> more); work = work + cleanup_work in
     bnd (last_refresh E listener_ran (maintenance_work lim - work)) (\<lambda>(listener_work, more).
     let listener_ran = (listener_ran \<or> 0 < listener_work); listener_more = (listener_more \<or> more);
         work = work + listener_work in
     bnd (modify (\<lambda>s. s\<lparr>maintenance_cleanup_turn := \<not> cleanup_ran \<and> closing_cleanup_pending s,
                        listener_maintenance_turn := \<not> listener_ran \<and> listener_scan_pending s\<rparr>)) (\<lambda>_.
     ret (work, out @ additional, remain, cleanup_more \<or> listener_more, deferred)))))))))))"

definition drive_batch ::
    "Env \<Rightarrow> instant \<Rightarrow> bytes list \<Rightarrow> nat option \<Rightarrow> (NativeStack, StackError, Effects) prog" where
  "drive_batch E now batch copied_bytes =
     bnd (modify (\<lambda>s. s\<lparr>dev := device_begin_call (output_packets (limits s)) (dev s)\<rparr>)) (\<lambda>_.
     bnd (gets limits) (\<lambda>lim.
     let input_bytes = (case copied_bytes of None \<Rightarrow> 0 | Some n \<Rightarrow> n) in
     bnd (take_output E (output_packets lim) (bytes_copied lim)) (\<lambda>out.
     bnd (ingress_loop E now (input_packets lim) batch 0) (\<lambda>(ingress_work, unprocessed, deferred_in).
     bnd (hold_unprocessed unprocessed) (\<lambda>_.
     bnd (within_budget E) (\<lambda>ok.
     bnd (modify (\<lambda>s. case next_close_deadline s of
            None \<Rightarrow> s | Some dl \<Rightarrow> if dl \<le> now then request_closing_cleanup s else s)) (\<lambda>_.
     bnd (drive_maintenance E now out) (\<lambda>(work, out, remain, sweep_more, deferred_out).
     bnd (gets (\<lambda>s. s)) (\<lambda>s.
     let deferred = (deferred_in \<or> \<not> ok \<or> deferred_out);
         egress_open = transmit_credit_available (dev s);
         more = (transmit_ready (dev s) \<or> (has_receive (dev s) \<and> can_receive (dev s)) \<or>
                 (remain \<and> egress_open) \<or> sweep_more \<or> closing_cleanup_pending s \<or>
                 listener_scan_pending s \<or> deferred)
     in bnd (next_poll E now more egress_open) (\<lambda>poll.
     bnd (modify (\<lambda>s. s\<lparr>counters :=
            (let c = observe \<lparr>w_bytes_copied = max input_bytes (queue_bytes out), w_input_packets = ingress_work,
                        w_output_packets = length out, w_ready_events = 0, w_maintenance_work = work\<rparr> (counters s)
             in c\<lparr>emitted_packets := emitted_packets c + length out\<rparr>)\<rparr>)) (\<lambda>_.
     ret \<lparr>eff_output = out, eff_poll_at = poll, eff_more = more, eff_maintenance_work = work\<rparr>)))))))))))"

definition drive :: "Env \<Rightarrow> instant \<Rightarrow> nat option \<Rightarrow> (NativeStack, StackError, Effects) prog" where
  "drive E now copied_bytes = drive_batch E now [] copied_bytes"

section \<open>Packets and polls\<close>

definition reject_packet :: "NativeStack \<Rightarrow> NativeStack" where
  "reject_packet s = s\<lparr>counters := (counters s)\<lparr>rejected_packets := rejected_packets (counters s) + 1\<rparr>\<rparr>"

definition validate_packet :: "bytes \<Rightarrow> (NativeStack, StackError, unit) prog" where
  "validate_packet packet =
     (if packet = [] then bnd (modify reject_packet) (\<lambda>_. raise (Err InvalidPacket))
      else
        bnd (gets (\<lambda>s. validate_raw_packet packet (mtu s) (bytes_copied (limits s)))) (\<lambda>r.
        case r of
          Inl e \<Rightarrow> bnd (modify reject_packet) (\<lambda>_. raise (Err e))
        | Inr _ \<Rightarrow> ret ()))"

fun validate_batch :: "bytes list \<Rightarrow> nat \<Rightarrow> (NativeStack, StackError, nat) prog" where
  "validate_batch [] copied = ret copied"
| "validate_batch (p # ps) copied =
     bnd (validate_packet p) (\<lambda>_.
     bnd (gets (\<lambda>s. bytes_copied (limits s))) (\<lambda>limit.
     case checked_add copied (length p) of
       Some n \<Rightarrow> if n \<le> limit then validate_batch ps n else raise (Err BatchTooLarge)
     | None \<Rightarrow> raise (Err BatchTooLarge)))"

definition ingress_batch :: "Env \<Rightarrow> bytes list \<Rightarrow> instant \<Rightarrow> (NativeStack, StackError, Effects) prog" where
  "ingress_batch E packets now =
     bnd (gets (\<lambda>s. s)) (\<lambda>s.
     if st_lifecycle s \<noteq> Running then raise (Err Closed)
     else if input_packets (limits s) < length packets then raise (Err BatchTooLarge)
     else
       bnd (validate_batch packets 0) (\<lambda>copied.
       bnd (gets dev) (\<lambda>d.
       if \<not> receive_fits (length packets) d then raise (Err OwnershipInvariantViolation)
       else
         bnd (modify (\<lambda>s. s\<lparr>counters := (counters s)\<lparr>ingress_packets := ingress_packets (counters s) + length packets\<rparr>\<rparr>)) (\<lambda>_.
         drive_batch E now packets (Some copied)))))"

definition ingress :: "Env \<Rightarrow> bytes \<Rightarrow> instant \<Rightarrow> (NativeStack, StackError, Effects) prog" where
  "ingress E packet now = ingress_batch E [packet] now"

definition poll :: "Env \<Rightarrow> instant \<Rightarrow> (NativeStack, 'e, Effects) prog" where
  "poll E now =
     bnd (modify (\<lambda>s. s\<lparr>counters := (counters s)\<lparr>poll_calls := poll_calls (counters s) + 1\<rparr>\<rparr>)) (\<lambda>_.
     expect (drive E now None))"

definition grant_egress_call ::
    "Env \<Rightarrow> nat \<Rightarrow> nat \<Rightarrow> instant \<Rightarrow> (NativeStack, StackError, unit Envelope) prog" where
  "grant_egress_call E packets bytes now =
     bnd (gets st_lifecycle) (\<lambda>lc.
     if lc \<noteq> Running then raise (Err Closed)
     else
       bnd (act (\<lambda>s. case grant_egress packets bytes (dev s) of (ok, d) \<Rightarrow> (ok, s\<lparr>dev := d\<rparr>))) (\<lambda>ok.
       if \<not> ok then raise (Err EgressCreditDisabled)
       else bnd (expect (drive E now None)) (\<lambda>effects. finish_call E () effects [])))"

end
