(* ===== verification/Drive_Invariant.thy ===== *)
theory Drive_Invariant
  imports Maintenance_Invariant Stack_Drive
begin

text \<open>
  Driving the engine keeps the invariant. \<open>engine_ok\<close> states what the stack relies on of the engine's
  packet processing: on well-formed sockets and a well-formed device it does not panic, which includes
  that the virtual machine has a buffer for every frame it emits (\<open>engine_total\<close>); it neither adds nor
  removes sockets, keeps their buffers, gives a connection two ends of one address family, leaves alone
  a closed socket that belongs to no connection, and uses the device only through its tokens.
\<close>

section \<open>The engine\<close>

definition sockets_kept :: "SocketSet \<Rightarrow> SocketSet \<Rightarrow> bool" where
  "sockets_kept ss ss' \<longleftrightarrow> live_tcp ss' = live_tcp ss \<and> live_udp ss' = live_udp ss \<and>
     (sockets_wf ss \<longrightarrow> sockets_wf ss') \<and> (\<forall>h. fresh_at ss h \<longrightarrow> fresh_at ss' h)"

definition engine_total :: "Env \<Rightarrow> bool" where
  "engine_total E \<longleftrightarrow>
     (\<forall>n now d p ss. device_wf d \<longrightarrow> sockets_wf ss \<longrightarrow> e_ingress E n now (ReceiveOne_new d p) ss \<noteq> None) \<and>
     (\<forall>n now d ss. device_wf d \<longrightarrow> sockets_wf ss \<longrightarrow> e_egress E n now d ss \<noteq> None) \<and>
     (\<forall>n now ss. sockets_wf ss \<longrightarrow> e_poll_at E n now ss \<noteq> None)"

definition engine_ok :: "Env \<Rightarrow> bool" where
  "engine_ok E \<longleftrightarrow> engine_total E \<and>
     (\<forall>n now d p ss d' left ss' ws. e_ingress E n now (ReceiveOne_new d p) ss = Some ((d', left), ss', ws) \<longrightarrow>
        engine_device d d' \<and> sockets_kept ss ss') \<and>
     (\<forall>n now d ss changed d' ss' ws. e_egress E n now d ss = Some (changed, d', ss', ws) \<longrightarrow>
        engine_device d d' \<and> sockets_kept ss ss')"

lemma inv_engine_wf: "held_inv x y K s \<Longrightarrow> sockets_wf (socket_set s)" "held_inv x y K s \<Longrightarrow> device_wf (dev s)"
  by (simp_all add: held_inv_def own_at_def)

lemma engine_ok_ingress:
  assumes "engine_ok E" and "device_wf d" and "sockets_wf ss"
  obtains d' left ss' ws where "e_ingress E n now (ReceiveOne_new d p) ss = Some ((d', left), ss', ws)"
    "engine_device d d'" "sockets_kept ss ss'"
  using assms unfolding engine_ok_def engine_total_def by (metis not_Some_eq surj_pair)

lemma engine_ok_egress:
  assumes "engine_ok E" and "device_wf d" and "sockets_wf ss"
  obtains c d' ss' ws where "e_egress E n now d ss = Some (c, d', ss', ws)" "engine_device d d'" "sockets_kept ss ss'"
  using assms unfolding engine_ok_def engine_total_def by (metis not_Some_eq surj_pair)

lemma engine_ok_poll_at:
  assumes "engine_ok E" and "sockets_wf ss"
  obtains t where "e_poll_at E n now ss = Some t"
  using assms unfolding engine_ok_def engine_total_def by (metis not_Some_eq)

lemma inv_engine:
  assumes "held_inv x y K s" and "sockets_kept (socket_set s) ss" and "engine_device (dev s) d"
  shows "held_inv x y K (s\<lparr>dev := d, socket_set := ss, engine_calls := n\<rparr>)"
  using assms device_wf_engine [OF assms(3)]
  by (auto simp: held_inv_def own_at_def sockets_kept_def ss_count_live native_bytes_def record_ok_def)

lemma inv_dev: "held_inv x y K s \<Longrightarrow> device_wf d \<Longrightarrow> held_inv x y K (s\<lparr>dev := d\<rparr>)"
  by (simp add: held_inv_def)

text \<open>Steps that leave the device alone.\<close>

definition inv_with :: "kept \<Rightarrow> BeamDevice \<Rightarrow> NativeStack \<Rightarrow> bool" where
  "inv_with K d s \<longleftrightarrow> held_inv {#} {#} K s \<and> dev s = d"

lemma inv_put_pool:
  assumes "held_inv x y K s" and "bt_get (tcp_listeners s) k = Some l" and "h \<in> set (pool l)"
    and "ss_get_tcp (socket_set s) h = Some old" and "same_socket old sk"
  shows "held_inv x y K (s\<lparr>socket_set := ss_put h (NTcp sk) (socket_set s)\<rparr>)"
proof (rule inv_put [OF assms(1,4,5)])
  fix k' r assume r: "bt_get (tcp_records s) k' = Some r" "tr_handle r = h"
  have "(h, lr_rcvbuf l, lr_sndbuf l) \<in># x + listener_held l" using assms(3) by (simp add: listener_held_def)
  then obtain z where "x + listener_held l = add_mset (h, lr_rcvbuf l, lr_sndbuf l) z" by (metis mset_add)
  then have "own_at (add_mset (h, lr_rcvbuf l, lr_sndbuf l) z) y (limits s) (socket_set s) (tcp_records s)
      (bt_remove k (tcp_listeners s)) (udp_records s)"
    using own_remove_listener(1) [OF invD(1) [OF assms(1)] assms(2)] by simp
  from own_distinct [OF this r(1)] r(2) show "fresh sk" by simp
qed

lemma retarget_socket_spec:
  assumes "inv_with K d s" and "bt_get (tcp_listeners s) k = Some l" and "h \<in> set (pool l)" and "le_port ep \<noteq> 0"
  shows "wp (retarget_socket ep h) (\<lambda>_ s'. inv_with K d s' \<and> tcp_listeners s' = tcp_listeners s) (\<lambda>_ _. False) s"
proof -
  have inv: "held_inv {#} {#} K s" and dev: "dev s = d" using assms(1) by (simp_all add: inv_with_def)
  obtain sk where sk: "ss_get_tcp (socket_set s) h = Some sk" using inv_listener_socket [OF inv assms(2,3)] by auto
  define sk1 where "sk1 = fst (sk_abort sk)"
  define sk2 where "sk2 = set_timeout connect_timeout sk1"
  have closed: "state sk2 = S_Closed"
    by (simp add: sk2_def sk1_def set_timeout_def sk_abort_def set_state_def wake_both_def)
  obtain sk3 ws where ls: "sk_listen ep sk2 = (Inr (), sk3, ws)" using listen_closed [OF assms(4) closed] by auto
  have same: "same_socket sk sk1" "same_socket sk1 sk2" "same_socket sk2 sk3"
    using same_socket_listen [of sk2 ep] by (simp_all add: sk1_def sk2_def socket_simps ls [unfolded sk2_def sk1_def])
  let ?put = "\<lambda>sk ss. ss_put h (NTcp sk) ss"
  have get: "ss_get_tcp (?put a ss) h = Some a" if "ss_get_tcp ss h = Some b" for a b ss
    using that by (simp add: ss_get_tcp_iff ss_get_put)
  have g1: "ss_get_tcp (?put sk1 (socket_set s)) h = Some sk1" by (rule get [OF sk])
  have g2: "ss_get_tcp (?put sk2 (?put sk1 (socket_set s))) h = Some sk2" by (rule get [OF g1])
  have i1: "held_inv {#} {#} K (s\<lparr>socket_set := ?put sk1 (socket_set s)\<rparr>)"
    by (rule inv_put_pool [OF inv assms(2,3) sk same(1)])
  have i2: "held_inv {#} {#} K (s\<lparr>socket_set := ?put sk2 (?put sk1 (socket_set s))\<rparr>)"
    using inv_put_pool [OF i1 _ assms(3) _ same(2)] assms(2) g1 by simp
  have i3: "held_inv {#} {#} K (s\<lparr>socket_set := ?put sk3 (?put sk2 (?put sk1 (socket_set s)))\<rparr>)"
    using inv_put_pool [OF i2 _ assms(3) _ same(3)] assms(2) g2 by simp
  show ?thesis
    using assms(1) i3 dev g1 g2
    by (simp add: retarget_socket_def wp_simps sk sk1_def [symmetric] sk2_def [symmetric] ls inv_with_def)
qed

lemma retarget_runs [runs_intros]: "runs (inv_with K d) (retarget_wildcard_listener packet)"
proof (rule runsI)
  fix s assume inv: "inv_with K d s"
  have member: "\<exists>k l. bt_get (tcp_listeners s) k = Some l \<and> h \<in> set (pool l) \<and> port \<noteq> 0"
    if h: "h \<in> set (retarget_handles a port s)" for h a port
  proof -
    obtain k l where kl: "(k, l) \<in> set (tcp_listeners s)" "h \<in> set (pool l)" "ip_port (lr_local l) = port"
      using h by (auto simp: retarget_handles_def)
    have "bt_get (tcp_listeners s) k = Some l"
      using kl(1) inv by (auto simp: inv_with_def bt_get_iff dest: invD(6))
    moreover from this have "listener_ok k l" using inv inv_remove_listener(2) by (auto simp: inv_with_def)
    ultimately show ?thesis using kl by (auto simp: listener_ok_def)
  qed
  have "wp (each (retarget_socket \<lparr>le_addr = Some a, le_port = port\<rparr>) (retarget_handles a port s))
      (\<lambda>_ s'. inv_with K d s' \<and> tcp_listeners s' = tcp_listeners s) (\<lambda>_ _. False) s" for a port
  proof (rule wp_each)
    show "inv_with K d s \<and> tcp_listeners s = tcp_listeners s" using inv by simp
  next
    fix h s' assume h: "h \<in> set (retarget_handles a port s)" and s': "inv_with K d s' \<and> tcp_listeners s' = tcp_listeners s"
    from member [OF h] obtain k l where "bt_get (tcp_listeners s') k = Some l" "h \<in> set (pool l)" "port \<noteq> 0"
      using s' by auto
    with s' show "wp (retarget_socket \<lparr>le_addr = Some a, le_port = port\<rparr> h)
        (\<lambda>_ s'. inv_with K d s' \<and> tcp_listeners s' = tcp_listeners s) (\<lambda>_ _. False) s'"
      by (auto intro: wp_mono [OF retarget_socket_spec])
  qed
  then have each: "wp (each (retarget_socket \<lparr>le_addr = Some a, le_port = port\<rparr>) (retarget_handles a port s))
      (\<lambda>_. inv_with K d) (\<lambda>_ _. False) s" for a port
    by (rule wp_mono) auto
  show "wp (retarget_wildcard_listener packet) (\<lambda>_. inv_with K d) (\<lambda>_ _. False) s"
    using inv by (simp add: retarget_wildcard_listener_def wp_simps each split: option.splits prod.splits)
qed

lemma inv_with_frame [simp]:
  "inv_with K d (s\<lparr>counters := a0\<rparr>) = inv_with K d s" "inv_with K d (s\<lparr>call_budget := a1\<rparr>) = inv_with K d s"
  "inv_with K d (request_listener_scan s) = inv_with K d s" "inv_with K d (request_closing_cleanup s) = inv_with K d s"
  by (simp_all add: inv_with_def) (simp_all add: request_listener_scan_def request_closing_cleanup_def)

lemma tcp_record_Inr: "tcp_record i s = Inr r \<Longrightarrow> bt_get (tcp_records s) (si_id i) = Some r \<and> tr_identity r = i"
  by (auto simp: tcp_record_def split: if_splits option.splits)

lemma inbound_reset_runs [runs_intros]: "runs (inv_with K d) (inbound_reset packet)"
proof (rule runsI)
  fix s assume inv: "inv_with K d s"
  have "\<exists>sk. ss_get_tcp (socket_set s) (tr_handle r) = Some sk" if "tcp_record i s = Inr r" for i r
    using inv_record(1) [of "{#}" "{#}" K s] tcp_record_Inr [OF that] inv by (auto simp: inv_with_def)
  then show "wp (inbound_reset packet) (\<lambda>_. inv_with K d) (\<lambda>_ _. False) s"
    using inv tcp_segment_wf(3) [of packet] unfolding inbound_reset_def connection_key_def
    by (auto simp: wp_simps same_family_iff split: option.splits prod.splits sum.splits State.splits) fastforce+
qed

lemma record_inbound_reset_runs [runs_intros]: "runs (inv_with K d) (record_inbound_reset rst)"
proof (rule runsI)
  fix s assume inv: "inv_with K d s"
  have "(\<exists>sk. ss_get_tcp (socket_set s) (tr_handle r) = Some sk) \<and>
      inv_with K d (s\<lparr>tcp_records := bt_insert (si_id i) (r\<lparr>phase := Failed f\<rparr>) (tcp_records s)\<rparr>)"
    if "tcp_record i s = Inr r" for i r f
  proof -
    have i: "held_inv {#} {#} K s" using inv by (simp add: inv_with_def)
    note get = conjunct1 [OF tcp_record_Inr [OF that]]
    note rec = inv_record [OF i get]
    have "held_inv {#} {#} K (s\<lparr>tcp_records := bt_insert (si_id i) (r\<lparr>phase := Failed f\<rparr>) (tcp_records s)\<rparr>)"
      using rec(2) by (intro inv_update_record [OF i get])
        (auto simp: record_sig_def record_held_def record_ok_def early_def)
    then show ?thesis using rec(1) inv by (auto simp: inv_with_def)
  qed
  then show "wp (record_inbound_reset rst) (\<lambda>_. inv_with K d) (\<lambda>_ _. False) s"
    using inv unfolding record_inbound_reset_def
    by (auto simp: wp_simps split: option.splits prod.splits sum.splits) fastforce+
qed

section \<open>Ingress\<close>

lemma engine_ingress_spec:
  assumes "engine_ok E" and "inv_with K d s"
  shows "wp (engine_ingress E now p) (\<lambda>_ s'. held_inv {#} {#} K s' \<and> receive (dev s') = receive d \<and>
    receive_limit (dev s') = receive_limit d) (\<lambda>_ _. False) s"
proof -
  have wf: "device_wf (dev s)" "sockets_wf (socket_set s)" using assms(2) inv_engine_wf by (auto simp: inv_with_def)
  obtain d' left ss ws where run: "e_ingress E (engine_calls s) now (ReceiveOne_new (dev s) p) (socket_set s) = Some ((d', left), ss, ws)"
    and eng: "engine_device (dev s) d'" "sockets_kept (socket_set s) ss"
    by (rule engine_ok_ingress [OF assms(1) wf])
  show ?thesis
    using assms(2) inv_engine [OF _ eng(2,1)] engine_device_frame [OF eng(1)]
    by (auto simp: engine_ingress_def wp_simps run inv_with_def)
qed

lemma engine_egress_runs [runs_intros]:
  assumes "engine_ok E"
  shows "runs (held_inv {#} {#} K) (engine_egress E now)"
proof (rule runsI)
  fix s assume inv: "held_inv {#} {#} K s"
  obtain c d' ss ws where run: "e_egress E (engine_calls s) now (dev s) (socket_set s) = Some (c, d', ss, ws)"
    and eng: "engine_device (dev s) d'" "sockets_kept (socket_set s) ss"
    by (rule engine_ok_egress [OF assms inv_engine_wf(2,1) [OF inv]])
  show "wp (engine_egress E now) (\<lambda>_. held_inv {#} {#} K) (\<lambda>_ _. False) s"
    using inv_engine [OF inv eng(2,1)] by (simp add: engine_egress_def wp_simps run)
qed

lemma inv_dev_update: "held_inv {#} {#} K s \<Longrightarrow> device_wf d \<Longrightarrow> inv_with K d (s\<lparr>dev := d\<rparr>)"
  by (simp add: inv_with_def inv_dev)

lemma ingress_loop_spec:
  assumes eng: "engine_ok E"
  shows "held_inv {#} {#} K s \<Longrightarrow>
    wp (ingress_loop E now n batch w :: (NativeStack, 'e, nat \<times> bytes list \<times> bool) prog) (\<lambda>(w', b, _) s'. held_inv {#} {#} K s' \<and> receive_limit (dev s') = receive_limit (dev s) \<and>
      length (receive (dev s')) + length b \<le> length (receive (dev s)) + length batch \<and> length b \<le> length batch \<and> w' \<le> w + n)
      (\<lambda>_ _. False) s"
proof (induction n arbitrary: s batch w)
  case 0
  then show ?case by (simp add: wp_simps)
next
  case (Suc n)
  note inv = Suc.prems
  let ?Q = "\<lambda>(w', b, _ :: bool) s'. held_inv {#} {#} K s' \<and> receive_limit (dev s') = receive_limit (dev s) \<and>
      length (receive (dev s')) + length b \<le> length (receive (dev s)) + length batch \<and> length b \<le> length batch \<and> w' \<le> w + Suc n"
  have wf: "device_wf (dev s)" using inv by (rule invD(4))
  let ?held = "fst (take_receive (dev s))" and ?d = "snd (take_receive (dev s))"
  let ?p = "case ?held of Some p \<Rightarrow> p | None \<Rightarrow> hd batch"
  let ?batch = "if ?held = None then tl batch else batch"
  have d: "device_wf ?d" using wf by (rule device_wf_take_receive)
  have lens: "length (receive ?d) + (case ?held of None \<Rightarrow> 0 | Some _ \<Rightarrow> 1) = length (receive (dev s))"
    "receive_limit ?d = receive_limit (dev s)"
    by (simp_all add: take_receive_def split: list.splits)
  define body :: "(NativeStack, 'e, nat \<times> bytes list \<times> bool) prog" where
    "body = bnd (retarget_wildcard_listener ?p) (\<lambda>_. bnd (inbound_reset ?p) (\<lambda>rst.
      bnd (engine_ingress E now ?p) (\<lambda>received.
      if \<not> received then bnd (return_held ?held) (\<lambda>_. ret (w, batch, False))
      else bnd (record_inbound_reset rst) (\<lambda>_. bnd (modify request_closing_cleanup) (\<lambda>_.
           bnd (modify request_listener_scan) (\<lambda>_. ingress_loop E now n ?batch (w + 1)))))))"
  have step: "wp body ?Q (\<lambda>_ _. False) (s'\<lparr>dev := ?d\<rparr>)"
    if s': "held_inv {#} {#} K s'" and some: "?held = None \<longrightarrow> batch \<noteq> []" for s'
    unfolding body_def wp_bnd
  proof (rule runs_wp [OF retarget_runs inv_dev_update [OF s' d]], rule runs_wp [OF inbound_reset_runs],
      assumption, rule wp_mono [OF engine_ingress_spec [OF eng]], assumption)
    fix rst received s1
    assume "held_inv {#} {#} K s1 \<and> receive (dev s1) = receive ?d \<and> receive_limit (dev s1) = receive_limit ?d"
    then have i1: "held_inv {#} {#} K s1" and r1: "receive (dev s1) = receive ?d" "receive_limit (dev s1) = receive_limit ?d" by auto
    show "wp (if \<not> received then bnd (return_held ?held) (\<lambda>_. ret (w, batch, False) :: (NativeStack, 'e, nat \<times> bytes list \<times> bool) prog)
      else bnd (record_inbound_reset rst) (\<lambda>_. bnd (modify request_closing_cleanup) (\<lambda>_.
           bnd (modify request_listener_scan) (\<lambda>_. ingress_loop E now n ?batch (w + 1))))) ?Q (\<lambda>_ _. False) s1"
    proof (cases received)
      case False
      have "device_wf (return_receive p (dev s1))" if "?held = Some p" for p
        using that lens invD(4) [OF i1] wf r1 by (simp add: device_wf_def return_receive_def)
      then show ?thesis
        using False i1 r1 lens
        by (auto simp: wp_simps return_held_def return_receive_def inv_dev split: option.splits)
    next
      case True
      have "inv_with K (dev s1) s1" using i1 by (simp add: inv_with_def)
      then show ?thesis
        unfolding wp_bnd wp_modify
      proof (simp only: True not_True_eq_False if_False wp_bnd wp_modify, intro runs_wp [OF record_inbound_reset_runs])
        fix s2 assume "inv_with K (dev s1) s2"
        then have i2: "inv_with K (dev s1) (request_listener_scan (request_closing_cleanup s2))" by simp
        have "length ?batch + (if ?held = None then 1 else 0) = length batch"
          using some by (cases batch) auto
        then show "wp (ingress_loop E now n ?batch (w + 1) :: (NativeStack, 'e, nat \<times> bytes list \<times> bool) prog) ?Q (\<lambda>_ _. False)
            (request_listener_scan (request_closing_cleanup s2))"
          using i2 r1 lens
          by (intro wp_mono [OF Suc.IH]) (auto simp: inv_with_def split: option.splits if_splits)
      qed
    qed
  qed simp_all
  show ?case
  proof (cases "(has_receive (dev s) \<or> batch \<noteq> []) \<and> can_receive (dev s)")
    case False
    then show ?thesis using inv by (simp add: wp_simps)
  next
    case True
    obtain ok m where cp: "checkpoint_at (e_clock E) (call_budget s) = (ok, m)" by (rule prod.exhaust)
    have some: "?held = None \<longrightarrow> batch \<noteq> []"
      using True by (auto simp: has_receive_def take_receive_def split: list.splits)
    have dv: "dev (s\<lparr>call_budget := m\<rparr>) = dev s" by simp
    have "wp (ingress_loop E now (Suc n) batch w) Q F s =
        (if ok then wp body Q F (s\<lparr>call_budget := m, dev := ?d\<rparr>) else Q (w, batch, True) (s\<lparr>call_budget := m\<rparr>))" for Q F
      using cp
      by (simp only: ingress_loop.simps within_budget_def take_held_def body_def wp_bnd wp_gets wp_act wp_if wp_let wp_ret
          Let_def True not_True_eq_False if_False case_prod_beta prod.case fst_conv snd_conv if_cancel
          simp_thms)
        (unfold dv, cases ok, simp_all only: if_True if_False simp_thms)
    then show ?thesis using step [of "s\<lparr>call_budget := m\<rparr>"] some inv by simp
  qed
qed

section \<open>Egress and maintenance\<close>

lemma egress_loop_runs [runs_intros]:
  assumes "engine_ok E"
  shows "runs (held_inv {#} {#} K) (egress_loop E now n w a r)"
  by (induction n arbitrary: w a r) (auto intro!: runs_intros assms)

lemma take_output_runs [runs_intros]: "runs (held_inv {#} {#} K) (take_output E p b)"
proof (rule runsI)
  fix s assume inv: "held_inv {#} {#} K s"
  obtain ps d m where run: "take_transmit (e_clock E) p b (call_budget s) (dev s) = (ps, d, m)" by (metis surj_pair)
  have "device_wf d" using device_wf_take_transmit [OF run] invD(4) [OF inv] .
  then show "wp (take_output E p b) (\<lambda>_. held_inv {#} {#} K) (\<lambda>_ _. False) s"
    using inv_dev [OF inv] by (simp add: take_output_def wp_simps run)
qed

lemma engine_poll_at_runs [runs_intros]:
  assumes "engine_ok E"
  shows "runs (held_inv {#} {#} K) (engine_poll_at E now)"
proof (rule runsI)
  fix s assume inv: "held_inv {#} {#} K s"
  obtain t where "e_poll_at E (engine_calls s) now (socket_set s) = Some t"
    by (rule engine_ok_poll_at [OF assms inv_engine_wf(1) [OF inv]])
  then show "wp (engine_poll_at E now) (\<lambda>_. held_inv {#} {#} K) (\<lambda>_ _. False) s"
    using inv by (simp add: engine_poll_at_def wp_simps)
qed

lemma next_poll_runs [runs_intros]: "engine_ok E \<Longrightarrow> runs (held_inv {#} {#} K) (next_poll E now a o1)"
  by (auto simp: next_poll_def Let_def intro!: runs_intros)

lemma drive_maintenance_runs [runs_intros]:
  "engine_ok E \<Longrightarrow> runs (held_inv {#} {#} K) (drive_maintenance E now out)"
  unfolding drive_maintenance_def first_cleanup_def first_refresh_def last_cleanup_def last_refresh_def Let_def
  by (intro runs_intros) auto

section \<open>One drive\<close>

lemma receive_fits_mono:
  assumes "receive_fits n d" and "length (receive d') + m \<le> length (receive d) + n" and "receive_limit d' = receive_limit d"
  shows "receive_fits m d'"
  using assms by (auto simp: receive_fits_def checked_add_def split: if_splits)

lemma take_output_receive:
  "wp (take_output E p b) (\<lambda>_ s'. receive (dev s') = receive (dev s) \<and> receive_limit (dev s') = receive_limit (dev s)) (\<lambda>_ _. False) s"
proof -
  obtain ps d m where run: "take_transmit (e_clock E) p b (call_budget s) (dev s) = (ps, d, m)" by (metis surj_pair)
  then have "receive d = receive (dev s)" "receive_limit d = receive_limit (dev s)"
    by (auto simp: take_transmit_def Let_def split: prod.splits)
  then show ?thesis by (simp add: take_output_def wp_simps run)
qed

lemma drive_batch_spec:
  assumes eng: "engine_ok E" and inv: "held_inv {#} {#} K s"
  shows "wp (drive_batch E now batch copied) (\<lambda>_. held_inv {#} {#} K)
    (\<lambda>f s'. f = Err OwnershipInvariantViolation \<and> held_inv {#} {#} K s' \<and> batch \<noteq> [] \<and> \<not> receive_fits (length batch) (dev s)) s"
    (is "wp _ ?Q ?F _")
proof -
  let ?s0 = "s\<lparr>dev := device_begin_call (output_packets (limits s)) (dev s)\<rparr>"
  have i0: "held_inv {#} {#} K ?s0" using inv_dev [OF inv device_wf_begin_call [OF invD(4) [OF inv]]] .
  have out: "wp (take_output E p b) (\<lambda>_ s'. held_inv {#} {#} K s' \<and> receive (dev s') = receive (dev s) \<and>
      receive_limit (dev s') = receive_limit (dev s)) (\<lambda>_ _. False) ?s0" for p b
    using wp_conj [OF take_output_runs [unfolded runs_def, rule_format, OF i0, of E p b] take_output_receive [of E p b ?s0]]
    by (simp add: device_begin_call_def)
  define rest where "rest = (\<lambda>out ingress_work deferred_in.
     bnd (within_budget E) (\<lambda>ok.
     bnd (modify (\<lambda>s. case next_close_deadline s of
            None \<Rightarrow> s | Some dl \<Rightarrow> if dl \<le> now then request_closing_cleanup s else s)) (\<lambda>_.
     bnd (drive_maintenance E now out) (\<lambda>(work, out, remain, sweep_more, deferred_out).
     bnd (gets (\<lambda>s. s)) (\<lambda>s.
     let deferred = (deferred_in \<or> \<not> ok \<or> deferred_out);
         egress_open = transmit_credit_available (dev s);
         more = (transmit_ready (dev s) \<or> (has_receive (dev s) \<and> can_receive (dev s)) \<or>
                 (remain \<and> egress_open) \<or> sweep_more \<or> closing_cleanup_pending s \<or>
                 listener_scan_pending s \<or> deferred)
     in bnd (next_poll E now more egress_open) (\<lambda>poll.
     bnd (modify (\<lambda>s. s\<lparr>counters :=
            (let c = observe \<lparr>w_bytes_copied = max (case copied of None \<Rightarrow> 0 | Some n \<Rightarrow> n) (queue_bytes out), w_input_packets = ingress_work,
                        w_output_packets = length out, w_ready_events = 0, w_maintenance_work = work\<rparr> (counters s)
             in c\<lparr>emitted_packets := emitted_packets c + length out\<rparr>)\<rparr>)) (\<lambda>_.
     ret \<lparr>eff_output = out, eff_poll_at = poll, eff_more = more, eff_maintenance_work = work\<rparr> :: (NativeStack, StackError, Effects) prog)))))))"
  have rest: "runs (held_inv {#} {#} K) (rest o1 w d)" for o1 w d
    unfolding rest_def Let_def using eng by (intro runs_intros) (auto split: option.splits)
  have run: "drive_batch E now batch copied =
     bnd (modify (\<lambda>s. s\<lparr>dev := device_begin_call (output_packets (limits s)) (dev s)\<rparr>)) (\<lambda>_.
     bnd (gets limits) (\<lambda>lim.
     bnd (take_output E (output_packets lim) (bytes_copied lim)) (\<lambda>out.
     bnd (ingress_loop E now (input_packets lim) batch 0) (\<lambda>(ingress_work, unprocessed, deferred_in).
     bnd (hold_unprocessed unprocessed) (\<lambda>_. rest out ingress_work deferred_in)))))"
    by (simp add: drive_batch_def rest_def Let_def)
  have hold: "wp (hold_unprocessed b) (\<lambda>_. held_inv {#} {#} K) ?F s1"
    if "held_inv {#} {#} K s1" "receive_limit (dev s1) = receive_limit (dev s)"
      "length (receive (dev s1)) + length b \<le> length (receive (dev s)) + length batch" "length b \<le> length batch" for b s1
  proof (cases "b = []")
    case False
    then have "batch \<noteq> []" using that(4) by auto
    then show ?thesis
      using False that(1,3) receive_fits_mono [OF _ that(3,2)] inv_dev [OF that(1) device_wf_enqueue [OF invD(4) [OF that(1)], of b]]
      by (auto simp: hold_unprocessed_def wp_simps enqueue_receive_batch_def split: if_splits)
  qed (use that in \<open>simp add: hold_unprocessed_def wp_simps\<close>)
  show ?thesis
    unfolding run wp_bnd wp_modify wp_gets
  proof (rule wp_mono [OF out], goal_cases)
    case (1 out s1)
    then have "held_inv {#} {#} K s1" by simp
    from ingress_loop_spec [OF eng this, of now "input_packets (limits ?s0)" batch 0] show ?case
      by (rule wp_mono) (use 1 hold in \<open>auto simp: wp_bnd intro!: wp_mono [OF hold] runs_wp [OF rest]\<close>)
  qed simp
qed

lemma drive_runs [runs_intros]: "engine_ok E \<Longrightarrow> runs (held_inv {#} {#} K) (drive E now copied)"
  unfolding drive_def by (rule runsI) (rule wp_mono [OF drive_batch_spec], auto)

lemma poll_runs [runs_intros]: "engine_ok E \<Longrightarrow> runs (held_inv {#} {#} K) (poll E now)"
  unfolding poll_def by (intro runs_intros) auto

lemma validate_packet_keeps [keeps_intros]: "keeps (held_inv x y K) (validate_packet p)"
  unfolding validate_packet_def reject_packet_def
  by (auto intro!: keepsI simp: wp_simps split: sum.splits)

lemma validate_batch_keeps [keeps_intros]: "keeps (held_inv x y K) (validate_batch ps n)"
  by (induction ps arbitrary: n)
    (auto intro!: keeps_intros)

lemma ingress_batch_keeps [keeps_intros]: "engine_ok E \<Longrightarrow> keeps (held_inv {#} {#} K) (ingress_batch E ps now)"
  unfolding ingress_batch_def
  by (intro keeps_intros) (auto intro!: keepsI wp_mono [OF drive_batch_spec])

lemma grant_egress_keeps [keeps_intros]: "engine_ok E \<Longrightarrow> keeps (held_inv {#} {#} K) (grant_egress_call E p b now)"
proof (rule keepsI)
  fix s assume eng: "engine_ok E" and inv: "held_inv {#} {#} K s"
  have "held_inv {#} {#} K (s\<lparr>dev := snd (grant_egress p b (dev s))\<rparr>)"
    using inv_dev [OF inv device_wf_grant [OF invD(4) [OF inv]]] .
  then show "wp (grant_egress_call E p b now) (\<lambda>_. held_inv {#} {#} K) (\<lambda>f s. f \<noteq> Panic \<and> held_inv {#} {#} K s) s"
    unfolding grant_egress_call_def wp_bnd wp_gets wp_act
    using inv by (auto simp: wp_simps case_prod_beta intro!: runs_wp [OF drive_runs [OF eng]] runs_wp [OF runs_finish])
qed

end
