(* ===== verification/Stack_Tcp.thy ===== *)
theory Stack_Tcp
  imports Stack_Drive
begin

text \<open>
  The TCP operations of a stack (\<open>tcp_open\<close> to \<open>tcp_close\<close> of \<open>stack.rs\<close>). Each is the method of the
  same name: its checks in the order of the code, its changes, the drive of the engine, and the
  envelope of \<open>finish_call\<close>.
\<close>

section \<open>Waiters\<close>

text \<open>What an operation answers: a value, or that the caller will be selected later.\<close>

datatype Answer =
    A_ok
  | A_accepted SocketIdentity AddressFamily
  | A_data bytes
  | A_datagram EncodedEndpoint EncodedEndpoint bytes bool
  | A_select Operation reference
  | A_select_sent Operation reference nat
  | A_select_data Operation reference bytes

definition on_table :: "(SocketTable \<Rightarrow> (SocketError, 'a) result \<times> SocketTable) \<Rightarrow> 'a op" where
  "on_table f = bnd (act (\<lambda>s. case f (socket_table s) of (r, t) \<Rightarrow> (r, s\<lparr>socket_table := t\<rparr>))) liftr"

definition insert_entry :: "SocketKind \<Rightarrow> (NativeStack, 'e, (SocketError, SocketIdentity) result) prog" where
  "insert_entry k = act (\<lambda>s.
     case table_insert k 0 (socket_table s, id_counters s) of
       (r, t, c) \<Rightarrow> (r, s\<lparr>socket_table := t, id_counters := c\<rparr>))"

definition registration :: "SocketIdentity \<Rightarrow> SocketKind \<Rightarrow> Operation \<Rightarrow> Direction \<Rightarrow> pid \<Rightarrow> reference \<Rightarrow> WaiterRegistration" where
  "registration i k operation dir p rf = \<lparr>r_identity = i, r_kind = k, r_direction = dir, r_pid = p,
     r_operation = operation, r_reference = rf\<rparr>"

definition arm_tcp_waiter ::
    "SocketIdentity \<Rightarrow> SocketHandle \<Rightarrow> Direction \<Rightarrow> Operation \<Rightarrow> pid \<Rightarrow> reference \<Rightarrow> bool \<Rightarrow> unit op" where
  "arm_tcp_waiter i h dir operation p rf immediately_ready =
     bnd (ask (\<lambda>s. ready_flag (socket_table s) i Tcp dir)) (\<lambda>key.
     bnd (on_table (install_waiter (registration i Tcp operation dir p rf))) (\<lambda>_.
     bnd (upd_tcp h (case dir of Read \<Rightarrow> register_recv_waker key | Write \<Rightarrow> register_send_waker key)) (\<lambda>_.
     guarded immediately_ready (wake [key]))))"

definition arm_connect :: "SocketIdentity \<Rightarrow> SocketHandle \<Rightarrow> pid \<Rightarrow> reference \<Rightarrow> unit op" where
  "arm_connect i h p rf = arm_tcp_waiter i h Write Connect p rf False"

fun any_tcp :: "(TcpSocket \<Rightarrow> bool) \<Rightarrow> SocketHandle list \<Rightarrow> (NativeStack, 'e, bool) prog" where
  "any_tcp P [] = ret False"
| "any_tcp P (h # hs) = bnd (get_tcp h) (\<lambda>sk. if P sk then ret True else any_tcp P hs)"

definition arm_listener_waiter :: "SocketIdentity \<Rightarrow> pid \<Rightarrow> reference \<Rightarrow> unit op" where
  "arm_listener_waiter i p rf =
     bnd (gets (\<lambda>s. bt_get (tcp_listeners s) (si_id i))) (\<lambda>found.
     case found of
       None \<Rightarrow> raise (Err SE_InvalidSocket)
     | Some l \<Rightarrow>
         if lr_identity l \<noteq> i then raise (Err SE_InvalidSocket)
         else
           bnd (if accept_queue l \<noteq> [] then ret True
                else any_tcp (\<lambda>sk. state sk \<in> {S_Established, S_CloseWait}) (pool l)) (\<lambda>immediately_ready.
           bnd (ask (\<lambda>s. ready_flag (socket_table s) i Tcp Read)) (\<lambda>key.
           bnd (on_table (install_waiter (registration i Tcp Accept Read p rf))) (\<lambda>_.
           bnd (each (\<lambda>h. upd_tcp h (register_recv_waker key)) (pool l)) (\<lambda>_.
           guarded immediately_ready (wake [key]))))))"

section \<open>Opening, binding and listening\<close>

definition tcp_open :: "Env \<Rightarrow> AddressFamily \<Rightarrow> nat \<Rightarrow> nat \<Rightarrow> SocketIdentity Envelope op" where
  "tcp_open E family rcvbuf sndbuf =
     bnd (ask ensure_running) (\<lambda>_.
     bnd (ask ensure_logical_socket_capacity) (\<lambda>_.
     bnd (ask (ensure_native_socket_capacity 1 0)) (\<lambda>_.
     if \<not> valid_buffer_bytes rcvbuf \<or> \<not> valid_buffer_bytes sndbuf then raise (Err SE_InvalidOptions)
     else
       bnd (ask (ensure_socket_buffer_capacity (rcvbuf + sndbuf))) (\<lambda>_.
       bnd (liftr (tcp_socket rcvbuf sndbuf)) (\<lambda>sk.
       bnd (add_socket (NTcp sk)) (\<lambda>h.
       bnd (insert_entry Tcp) (\<lambda>r.
       case r of
         Inl e \<Rightarrow> bnd (remove_socket h) (\<lambda>_. raise (Err e))
       | Inr i \<Rightarrow>
           bnd (modify (\<lambda>s. s\<lparr>tcp_records :=
                  bt_insert (si_id i) (TcpRecord_new i h family rcvbuf sndbuf) (tcp_records s)\<rparr>)) (\<lambda>_.
           finish_call E i Effects_empty []))))))))"

definition socket_validate :: "Env \<Rightarrow> SocketIdentity \<Rightarrow> SocketKind Envelope op" where
  "socket_validate E i =
     bnd (ask ensure_running) (\<lambda>_.
     bnd (ask (\<lambda>s. validate_any (socket_table s) i)) (\<lambda>e.
     finish_call E (kind e) Effects_empty []))"

definition tcp_bind :: "Env \<Rightarrow> SocketIdentity \<Rightarrow> TcpEndpoint \<Rightarrow> unit Envelope op" where
  "tcp_bind E i endpoint =
     bnd (ask ensure_running) (\<lambda>_.
     bnd (ask (\<lambda>s. validate (socket_table s) i Tcp)) (\<lambda>_.
     bnd (liftr (bind_endpoint endpoint)) (\<lambda>ep.
     bnd (ask (tcp_record i)) (\<lambda>r.
     if phase r \<noteq> PhaseOpen then raise (Err SE_InvalidState)
     else if \<not> family_matches (tr_family r) (ve_address ep) then raise (Err SE_InvalidAddress)
     else
       bnd (gets (has_ip_address (ve_address ep))) (\<lambda>have.
       if \<not> is_unspecified (ve_address ep) \<and> \<not> have then raise (Err SE_AddressNotAvailable)
       else
         bnd (if ve_port ep = 0 then allocate_ephemeral_port (tr_family r)
              else
                bnd (gets (port_in_use (ve_port ep) (tr_family r) (Some i))) (\<lambda>in_use.
                if in_use then raise (Err SE_AddressInUse) else ret (ve_port ep))) (\<lambda>port.
         bnd (tcp_record_mut i (\<lambda>r. r\<lparr>phase := Bound,
                local := Some \<lparr>ip_addr = ve_address ep, ip_port = port\<rparr>, local_scope_id := ve_scope_id ep\<rparr>)) (\<lambda>_.
         finish_call E () Effects_empty [])))))))"

fun add_pool :: "nat \<Rightarrow> nat \<Rightarrow> nat \<Rightarrow> SocketHandle list op" where
  "add_pool 0 rcvbuf sndbuf = ret []"
| "add_pool (Suc n) rcvbuf sndbuf =
     bnd (liftr (tcp_socket rcvbuf sndbuf)) (\<lambda>sk.
     bnd (add_socket (NTcp sk)) (\<lambda>h.
     bnd (add_pool n rcvbuf sndbuf) (\<lambda>hs. ret (h # hs))))"

definition listen_socket :: "IpListenEndpoint \<Rightarrow> SocketHandle \<Rightarrow> unit op" where
  "listen_socket ep h =
     bnd (upd_tcp h (set_timeout connect_timeout)) (\<lambda>_.
     bnd (on_tcp h (sk_listen ep)) (\<lambda>r.
     case r of
       Inr _ \<Rightarrow> ret ()
     | Inl ListenInvalidState \<Rightarrow> raise (Err SE_InvalidState)
     | Inl ListenUnaddressable \<Rightarrow> raise (Err SE_InvalidAddress)))"

definition tcp_listen :: "Env \<Rightarrow> SocketIdentity \<Rightarrow> nat \<Rightarrow> instant \<Rightarrow> unit Envelope op" where
  "tcp_listen E i bl now =
     bnd (ask ensure_running) (\<lambda>_.
     bnd (ask (\<lambda>s. validate (socket_table s) i Tcp)) (\<lambda>_.
     if \<not> (1 \<le> bl \<and> bl \<le> LISTENER_BACKLOG_MAX) then raise (Err SE_InvalidBacklog)
     else
       bnd (gets (\<lambda>s. bt_get (tcp_listeners s) (si_id i))) (\<lambda>known.
       if known \<noteq> None then raise (Err SE_InvalidState)
       else
         bnd (ask (tcp_record i)) (\<lambda>r.
         if phase r \<noteq> Bound then raise (Err SE_NotBound)
         else
           bnd (liftr (ok_or SE_NotBound (local r))) (\<lambda>loc.
           let ep = \<lparr>ve_address = ip_addr loc, ve_port = ip_port loc, ve_scope_id = local_scope_id r\<rparr>;
               target = min bl LISTENER_POOL_MAX in
           bnd (ask (concrete_listener_endpoint ep)) (\<lambda>listen.
           bnd (ask (ensure_native_socket_capacity (target - 1) 0)) (\<lambda>_.
           bnd (ask (ensure_socket_buffer_capacity (saturating_mul (target - 1) (tr_rcvbuf r + tr_sndbuf r)))) (\<lambda>_.
           bnd (add_pool (target - 1) (tr_rcvbuf r) (tr_sndbuf r)) (\<lambda>hs.
           bnd (each (listen_socket listen) (tr_handle r # hs)) (\<lambda>_.
           bnd (get_tcp (tr_handle r)) (\<lambda>sk.
           let l = (ListenerRecord_new i ep listen loc bl (tr_handle r # hs) (tr_rcvbuf r) (tr_sndbuf r))
                     \<lparr>lr_nodelay := \<not> nagle sk, lr_keepalive := keep_alive sk \<noteq> None\<rparr> in
           bnd (remove_tcp_record r) (\<lambda>_.
           bnd (modify (\<lambda>s. s\<lparr>tcp_listeners := bt_insert (si_id i) l (tcp_listeners s)\<rparr>)) (\<lambda>_.
           bnd (modify request_listener_scan) (\<lambda>_.
           bnd (expect (drive E now None)) (\<lambda>effects.
           finish_call E () effects [])))))))))))))))"

definition tcp_accept :: "Env \<Rightarrow> SocketIdentity \<Rightarrow> pid \<Rightarrow> reference \<Rightarrow> instant \<Rightarrow> Answer Envelope op" where
  "tcp_accept E i p rf now =
     bnd (ask ensure_running) (\<lambda>_.
     bnd (ask (\<lambda>s. validate (socket_table s) i Tcp)) (\<lambda>_.
     bnd (gets (\<lambda>s. s)) (\<lambda>s.
     if \<not> is_listener i s then
       (if bt_get (tcp_records s) (si_id i) \<noteq> None then raise (Err SE_InvalidState)
        else raise (Err SE_InvalidSocket))
     else
       bnd (ask (\<lambda>s. has_waiter (socket_table s) i Tcp Read)) (\<lambda>waiting.
       if waiting then raise (Err SE_Busy)
       else
         bnd (modify request_listener_scan) (\<lambda>_.
         bnd (refresh_listeners E (maintenance_work (limits s))) (\<lambda>(scan_work, scan_more).
         bnd (act (\<lambda>s.
           case bt_get (tcp_listeners s) (si_id i) of
             None \<Rightarrow> (None, s)
           | Some l \<Rightarrow>
               (case accept_queue l of
                  [] \<Rightarrow> (None, s)
                | c # cs \<Rightarrow> (Some c, s\<lparr>tcp_listeners :=
                    bt_insert (si_id i) (l\<lparr>accept_queue := cs\<rparr>) (tcp_listeners s)\<rparr>)))) (\<lambda>popped.
         bnd (case popped of
                Some child \<Rightarrow>
                  bnd (ask (tcp_record child)) (\<lambda>r.
                  bnd (gets (\<lambda>s. case bt_get (tcp_listeners s) (si_id i) of
                         None \<Rightarrow> (False, False) | Some l \<Rightarrow> (lr_nodelay l, lr_keepalive l))) (\<lambda>(nodelay, keepalive).
                  bnd (gets (\<lambda>s. timers_keep_alive (tcp_timers s) keepalive)) (\<lambda>ka.
                  bnd (upd_tcp (tr_handle r) (set_nagle_enabled (\<not> nodelay))) (\<lambda>_.
                  bnd (upd_tcp (tr_handle r) (set_keep_alive_config ka)) (\<lambda>_.
                  ret (A_accepted child (tr_family r)))))))
              | None \<Rightarrow>
                  bnd (arm_listener_waiter i p rf) (\<lambda>_. ret (A_select Accept rf))) (\<lambda>answer.
         bnd (current_effects E now) (\<lambda>effects.
         finish_call E answer
           (effects\<lparr>eff_more := eff_more effects \<or> scan_more, eff_maintenance_work := scan_work\<rparr>) [])))))))))"

section \<open>Connecting\<close>

definition finalize_or_arm_connect ::
    "Env \<Rightarrow> SocketIdentity \<Rightarrow> pid \<Rightarrow> reference \<Rightarrow> instant \<Rightarrow> Answer Envelope op" where
  "finalize_or_arm_connect E i p rf now =
     bnd (ask (tcp_record i)) (\<lambda>r.
     bnd (get_tcp (tr_handle r)) (\<lambda>sk.
     case state sk of
       S_Established \<Rightarrow>
         bnd (gets tcp_timers) (\<lambda>timers.
         bnd (upd_tcp (tr_handle r) (set_timeout (Some (timers_user_timeout timers)))) (\<lambda>_.
         bnd (tcp_record_mut i (\<lambda>r. r\<lparr>phase := Connected\<rparr>)) (\<lambda>_.
         bnd (current_effects E now) (\<lambda>effects.
         finish_call E A_ok effects []))))
     | S_SynSent \<Rightarrow>
         bnd (arm_connect i (tr_handle r) p rf) (\<lambda>_.
         bnd (expect (drive E now None)) (\<lambda>effects.
         finish_call E (A_select Connect rf) effects []))
     | S_SynReceived \<Rightarrow>
         bnd (arm_connect i (tr_handle r) p rf) (\<lambda>_.
         bnd (expect (drive E now None)) (\<lambda>effects.
         finish_call E (A_select Connect rf) effects []))
     | S_Closed \<Rightarrow>
         (let failure = (case phase r of Failed f \<Rightarrow> f | _ \<Rightarrow> TimedOut) in
          bnd (tcp_record_mut i (\<lambda>r. r\<lparr>phase := Failed failure\<rparr>)) (\<lambda>_.
          raise (Err (socket_error failure))))
     | _ \<Rightarrow> raise (Err SE_InvalidState)))"

definition start_connect ::
    "Env \<Rightarrow> SocketIdentity \<Rightarrow> TcpRecord \<Rightarrow> ValidatedEndpoint \<Rightarrow> pid \<Rightarrow> reference \<Rightarrow> instant \<Rightarrow> Answer Envelope op" where
  "start_connect E i r rem p rf now =
     bnd (gets (reachable (ve_address rem))) (\<lambda>reach.
     if \<not> reach then raise (Err SE_NetworkUnreachable)
     else
       bnd (case local r of
              Some loc \<Rightarrow> ret loc
            | None \<Rightarrow>
                bnd (allocate_ephemeral_port (tr_family r)) (\<lambda>port.
                ret \<lparr>ip_addr = unspecified (tr_family r), ip_port = port\<rparr>)) (\<lambda>loc.
       bnd (gets (port_in_use (ip_port loc) (tr_family r) (Some i))) (\<lambda>in_use.
       if in_use then raise (Err SE_AddressInUse)
       else
         let local_listen = listen_endpoint_of
               \<lparr>ve_address = ip_addr loc, ve_port = ip_port loc, ve_scope_id = local_scope_id r\<rparr> in
         bnd (gets ip_addrs) (\<lambda>addrs.
         bnd (upd_tcp (tr_handle r) (set_timeout connect_timeout)) (\<lambda>_.
         bnd (on_tcp (tr_handle r) (sk_connect (e_source E addrs) (ip_endpoint rem) local_listen)) (\<lambda>res.
         case res of
           Inl ConnectInvalidState \<Rightarrow> raise (Err SE_InvalidState)
         | Inl ConnectUnaddressable \<Rightarrow> raise (Err SE_NetworkUnreachable)
         | Inr _ \<Rightarrow>
             bnd (get_tcp (tr_handle r)) (\<lambda>sk.
             bnd (unwrap (local_endpoint sk)) (\<lambda>selected.
             bnd (connection_key selected (ip_endpoint rem)) (\<lambda>key.
             bnd (tcp_record_mut i (\<lambda>r. r\<lparr>phase := Connecting, local := Some selected,
                    remote := Some (ip_endpoint rem), remote_scope_id := ve_scope_id rem\<rparr>)) (\<lambda>_.
             bnd (modify (\<lambda>s. s\<lparr>tcp_connections :=
                    bt_insert key i (tcp_connections s)\<rparr>)) (\<lambda>_.
             bnd (arm_connect i (tr_handle r) p rf) (\<lambda>_.
             bnd (expect (drive E now None)) (\<lambda>effects.
             finish_call E (A_select Connect rf) effects [])))))))))))))"

definition tcp_connect ::
    "Env \<Rightarrow> SocketIdentity \<Rightarrow> TcpEndpoint \<Rightarrow> pid \<Rightarrow> reference \<Rightarrow> instant \<Rightarrow> Answer Envelope op" where
  "tcp_connect E i endpoint p rf now =
     bnd (ask ensure_running) (\<lambda>_.
     bnd (ask (\<lambda>s. validate (socket_table s) i Tcp)) (\<lambda>_.
     bnd (liftr (remote_endpoint endpoint)) (\<lambda>rem.
     bnd (ask (tcp_record i)) (\<lambda>r.
     if \<not> family_matches (tr_family r) (ve_address rem) then raise (Err SE_InvalidAddress)
     else
       case phase r of
         Connected \<Rightarrow> raise (Err SE_AlreadyConnected)
       | Failed failure \<Rightarrow> raise (Err (socket_error failure))
       | Connecting \<Rightarrow>
           (if remote r \<noteq> Some (ip_endpoint rem) \<or> remote_scope_id r \<noteq> ve_scope_id rem
            then raise (Err SE_InvalidState)
            else finalize_or_arm_connect E i p rf now)
       | PhaseOpen \<Rightarrow> start_connect E i r rem p rf now
       | Bound \<Rightarrow> start_connect E i r rem p rf now))))"

end
