(* ===== verification/Stack_Stream.thy ===== *)
theory Stack_Stream
  imports Stack_Tcp
begin

text \<open>
  The operations on TCP sockets that are open: names and options, sending and receiving, shutting
  down and closing (\<open>tcp_sockname\<close> to \<open>tcp_close\<close>, and \<open>cancel\<close>, of \<open>stack.rs\<close>).
\<close>

section \<open>Names and options\<close>

definition the_listener :: "SocketIdentity \<Rightarrow> NativeStack \<Rightarrow> ListenerRecord option" where
  "the_listener i s =
     (case bt_get (tcp_listeners s) (si_id i) of
        None \<Rightarrow> None | Some l \<Rightarrow> if lr_identity l = i then Some l else None)"

definition tcp_sockname :: "Env \<Rightarrow> SocketIdentity \<Rightarrow> EncodedEndpoint Envelope op" where
  "tcp_sockname E i =
     bnd (ask ensure_running) (\<lambda>_.
     bnd (ask (\<lambda>s. validate (socket_table s) i Tcp)) (\<lambda>_.
     bnd (gets (the_listener i)) (\<lambda>found.
     case found of
       Some l \<Rightarrow> finish_call E (EncodedEndpoint_new (lr_local l) (ve_scope_id (lr_endpoint l))) Effects_empty []
     | None \<Rightarrow>
         bnd (ask (tcp_record i)) (\<lambda>r.
         bnd (liftr (ok_or SE_NotBound (local r))) (\<lambda>loc.
         finish_call E (EncodedEndpoint_new loc (local_scope_id r)) Effects_empty [])))))"

definition tcp_set_nodelay :: "Env \<Rightarrow> SocketIdentity \<Rightarrow> bool \<Rightarrow> instant \<Rightarrow> unit Envelope op" where
  "tcp_set_nodelay E i nodelay now =
     bnd (ask ensure_running) (\<lambda>_.
     bnd (ask (\<lambda>s. validate (socket_table s) i Tcp)) (\<lambda>_.
     bnd (gets (the_listener i)) (\<lambda>found.
     bnd (case found of
            Some l \<Rightarrow> modify (\<lambda>s. s\<lparr>tcp_listeners :=
              bt_insert (si_id i) (l\<lparr>lr_nodelay := nodelay\<rparr>) (tcp_listeners s)\<rparr>)
          | None \<Rightarrow>
              bnd (ask (tcp_record i)) (\<lambda>r. upd_tcp (tr_handle r) (set_nagle_enabled (\<not> nodelay)))) (\<lambda>_.
     bnd (expect (drive E now None)) (\<lambda>effects.
     finish_call E () effects [])))))"

definition tcp_nodelay :: "Env \<Rightarrow> SocketIdentity \<Rightarrow> bool Envelope op" where
  "tcp_nodelay E i =
     bnd (ask ensure_running) (\<lambda>_.
     bnd (ask (\<lambda>s. validate (socket_table s) i Tcp)) (\<lambda>_.
     bnd (gets (the_listener i)) (\<lambda>found.
     bnd (case found of
            Some l \<Rightarrow> ret (lr_nodelay l)
          | None \<Rightarrow>
              bnd (ask (tcp_record i)) (\<lambda>r.
              bnd (get_tcp (tr_handle r)) (\<lambda>sk. ret (\<not> nagle sk)))) (\<lambda>nodelay.
     finish_call E nodelay Effects_empty []))))"

definition tcp_set_keepalive :: "Env \<Rightarrow> SocketIdentity \<Rightarrow> bool \<Rightarrow> instant \<Rightarrow> unit Envelope op" where
  "tcp_set_keepalive E i keepalive now =
     bnd (ask ensure_running) (\<lambda>_.
     bnd (ask (\<lambda>s. validate (socket_table s) i Tcp)) (\<lambda>_.
     bnd (gets (the_listener i)) (\<lambda>found.
     bnd (case found of
            Some l \<Rightarrow> modify (\<lambda>s. s\<lparr>tcp_listeners :=
              bt_insert (si_id i) (l\<lparr>lr_keepalive := keepalive\<rparr>) (tcp_listeners s)\<rparr>)
          | None \<Rightarrow>
              bnd (ask (tcp_record i)) (\<lambda>r.
              bnd (gets (\<lambda>s. timers_keep_alive (tcp_timers s) keepalive)) (\<lambda>ka.
              bnd (get_tcp (tr_handle r)) (\<lambda>sk.
              guarded ((keep_alive sk \<noteq> None) \<noteq> keepalive)
                (upd_tcp (tr_handle r) (set_keep_alive_config ka)))))) (\<lambda>_.
     bnd (expect (drive E now None)) (\<lambda>effects.
     finish_call E () effects [])))))"

definition tcp_keepalive :: "Env \<Rightarrow> SocketIdentity \<Rightarrow> bool Envelope op" where
  "tcp_keepalive E i =
     bnd (ask ensure_running) (\<lambda>_.
     bnd (ask (\<lambda>s. validate (socket_table s) i Tcp)) (\<lambda>_.
     bnd (gets (the_listener i)) (\<lambda>found.
     bnd (case found of
            Some l \<Rightarrow> ret (lr_keepalive l)
          | None \<Rightarrow>
              bnd (ask (tcp_record i)) (\<lambda>r.
              bnd (get_tcp (tr_handle r)) (\<lambda>sk. ret (keep_alive sk \<noteq> None)))) (\<lambda>keepalive.
     finish_call E keepalive Effects_empty []))))"

definition tcp_peername :: "Env \<Rightarrow> SocketIdentity \<Rightarrow> EncodedEndpoint Envelope op" where
  "tcp_peername E i =
     bnd (ask ensure_running) (\<lambda>_.
     bnd (ask (\<lambda>s. validate (socket_table s) i Tcp)) (\<lambda>_.
     bnd (gets (is_listener i)) (\<lambda>listening.
     if listening then raise (Err SE_NotConnected)
     else
       bnd (ask (tcp_record i)) (\<lambda>r.
       if phase r \<noteq> Connecting \<and> phase r \<noteq> Connected then raise (Err SE_NotConnected)
       else
         bnd (liftr (ok_or SE_NotConnected (remote r))) (\<lambda>rem.
         finish_call E (EncodedEndpoint_new rem (remote_scope_id r)) Effects_empty [])))))"

section \<open>Sending and receiving\<close>

definition tcp_send :: "Env \<Rightarrow> SocketIdentity \<Rightarrow> bytes \<Rightarrow> pid \<Rightarrow> reference \<Rightarrow> instant \<Rightarrow> Answer Envelope op" where
  "tcp_send E i data p rf now =
     bnd (ask ensure_running) (\<lambda>_.
     bnd (ask (\<lambda>s. validate (socket_table s) i Tcp)) (\<lambda>_.
     bnd (ask (tcp_record i)) (\<lambda>r.
     bnd (ask (\<lambda>s. has_waiter (socket_table s) i Tcp Write)) (\<lambda>waiting.
     if waiting then raise (Err SE_Busy)
     else
       bnd (ensure_connected r) (\<lambda>_.
       if write_shutdown r then raise (Err SE_Closed)
       else
         bnd (gets (\<lambda>s. min (length data) (bytes_copied (limits s)))) (\<lambda>copy_limit.
         bnd (get_tcp (tr_handle r)) (\<lambda>sk.
         if \<not> may_send sk then raise (Err SE_Closed)
         else
           bnd (if min copy_limit (send_capacity sk - send_queue sk) < length data
                then ask (\<lambda>s. ensure_waiter_capacity (socket_table s)) else ret ()) (\<lambda>_.
           bnd (on_tcp (tr_handle r) (\<lambda>sk.
                  case send_slice (take copy_limit data) sk of (n, sk) \<Rightarrow> ((n, can_send sk), sk, []))) (\<lambda>(sent, writable).
           case sent of
             None \<Rightarrow> raise (Err SE_Closed)
           | Some n \<Rightarrow>
               bnd (if n = length data then ret A_ok
                    else bnd (arm_tcp_waiter i (tr_handle r) Write Send p rf writable) (\<lambda>_.
                         ret (A_select_sent Send rf n))) (\<lambda>answer.
               bnd (expect (drive E now (Some n))) (\<lambda>effects.
               finish_call E answer effects []))))))))))) "

definition receive_complete :: "nat \<Rightarrow> nat \<Rightarrow> bool \<Rightarrow> bool" where
  "receive_complete len copied receive_open =
     (if len = 0 then 0 < copied else copied = len \<or> (\<not> receive_open \<and> 0 < copied))"

definition receive_needs_waiter :: "nat \<Rightarrow> nat \<Rightarrow> TcpSocket \<Rightarrow> bool" where
  "receive_needs_waiter len requested sk =
     (let read_length = min requested (recv_queue sk);
          remaining_queue = recv_queue sk - read_length;
          receive_open = (state sk \<in> {S_Established, S_FinWait1, S_FinWait2} \<or> 0 < remaining_queue)
      in \<not> receive_complete len read_length receive_open \<and> receive_open)"

definition tcp_recv :: "Env \<Rightarrow> SocketIdentity \<Rightarrow> nat \<Rightarrow> pid \<Rightarrow> reference \<Rightarrow> instant \<Rightarrow> Answer Envelope op" where
  "tcp_recv E i len p rf now =
     bnd (ask ensure_running) (\<lambda>_.
     bnd (ask (\<lambda>s. validate (socket_table s) i Tcp)) (\<lambda>_.
     bnd (ask (tcp_record i)) (\<lambda>r.
     bnd (ask (\<lambda>s. has_waiter (socket_table s) i Tcp Read)) (\<lambda>waiting.
     if waiting then raise (Err SE_Busy)
     else
       bnd (ensure_connected r) (\<lambda>_.
       if read_shutdown r then raise (Err SE_Closed)
       else
         bnd (gets (\<lambda>s. if len = 0 then bytes_copied (limits s) else min len (bytes_copied (limits s)))) (\<lambda>requested.
         bnd (get_tcp (tr_handle r)) (\<lambda>sk.
         bnd (if receive_needs_waiter len requested sk
              then ask (\<lambda>s. ensure_waiter_capacity (socket_table s)) else ret ()) (\<lambda>_.
         bnd (on_tcp (tr_handle r) (\<lambda>sk.
                let read_length = min requested (recv_queue sk);
                    (data, sk) = (if 0 < read_length then recv_slice read_length sk else (Some [], sk))
                in ((data, may_recv sk, can_recv sk), sk, []))) (\<lambda>(received, receive_open, readable).
         case received of
           None \<Rightarrow> raise (Err SE_Closed)
         | Some data \<Rightarrow>
             bnd (if receive_complete len (length data) receive_open then ret (A_data data)
                  else if \<not> receive_open then raise (Err SE_EndOfStream)
                  else bnd (arm_tcp_waiter i (tr_handle r) Read Recv p rf readable) (\<lambda>_.
                       ret (if data = [] then A_select Recv rf else A_select_data Recv rf data))) (\<lambda>answer.
             bnd (expect (drive E now (Some (length data)))) (\<lambda>effects.
             finish_call E answer effects [])))))))))))"

section \<open>Shutting down and closing\<close>

text \<open>Taking the waiters of the selected directions, as aborts.\<close>

definition pending_of :: "SocketIdentity \<Rightarrow> Direction \<times> Waiter \<Rightarrow> PendingNotification" where
  "pending_of i dw = \<lparr>pn_identity = i, pn_direction = fst dw, pn_waiter = snd dw\<rparr>"

fun take_waiters :: "SocketIdentity \<Rightarrow> (Direction \<times> bool) list \<Rightarrow> PendingNotification list op" where
  "take_waiters i [] = ret []"
| "take_waiters i ((dir, selected) # ds) =
     (if \<not> selected then take_waiters i ds
      else
        bnd (on_table (take_waiter i Tcp dir)) (\<lambda>w.
        bnd (take_waiters i ds) (\<lambda>aborts.
        ret (case w of None \<Rightarrow> aborts | Some w \<Rightarrow> pending_of i (dir, w) # aborts))))"

definition tcp_shutdown :: "Env \<Rightarrow> SocketIdentity \<Rightarrow> ShutdownHow \<Rightarrow> instant \<Rightarrow> unit Envelope op" where
  "tcp_shutdown E i how now =
     bnd (ask ensure_running) (\<lambda>_.
     bnd (ask (\<lambda>s. validate (socket_table s) i Tcp)) (\<lambda>_.
     bnd (ask (tcp_record i)) (\<lambda>r.
     bnd (ensure_connected r) (\<lambda>_.
     let shutdown_read = (how = ShutRead \<or> how = ShutReadWrite);
         shutdown_write = (how = ShutWrite \<or> how = ShutReadWrite) in
     bnd (take_waiters i [(Read, shutdown_read), (Write, shutdown_write)]) (\<lambda>aborts.
     bnd (guarded (shutdown_write \<and> \<not> write_shutdown r) (wake_tcp (tr_handle r) sk_close)) (\<lambda>_.
     bnd (tcp_record_mut i (\<lambda>r. r\<lparr>read_shutdown := read_shutdown r \<or> shutdown_read,
            write_shutdown := write_shutdown r \<or> shutdown_write\<rparr>)) (\<lambda>_.
     bnd (expect (drive E now None)) (\<lambda>effects.
     finish_call E () effects aborts))))))))"

fun close_children :: "SocketIdentity list \<Rightarrow> (NativeStack, 'e, PendingNotification list) prog" where
  "close_children [] = ret []"
| "close_children (child # children) =
     bnd (act (\<lambda>s. case table_close child (socket_table s) of (r, t) \<Rightarrow> (r, s\<lparr>socket_table := t\<rparr>))) (\<lambda>closed.
     bnd (gets (tcp_record child)) (\<lambda>r.
     bnd (case r of
            Inl _ \<Rightarrow> ret ()
          | Inr r \<Rightarrow> bnd (remove_socket (tr_handle r)) (\<lambda>_. remove_tcp_record r)) (\<lambda>_.
     bnd (close_children children) (\<lambda>aborts.
     ret ((case closed of Inl _ \<Rightarrow> [] | Inr waiters \<Rightarrow> map (pending_of child) waiters) @ aborts)))))"

definition tcp_listener_close :: "Env \<Rightarrow> SocketIdentity \<Rightarrow> instant \<Rightarrow> unit Envelope op" where
  "tcp_listener_close E i now =
     bnd (act (\<lambda>s. (bt_get (tcp_listeners s) (si_id i),
                     s\<lparr>tcp_listeners := bt_remove (si_id i) (tcp_listeners s)\<rparr>))) (\<lambda>found.
     case found of
       None \<Rightarrow> raise (Err SE_InvalidSocket)
     | Some l \<Rightarrow>
         if lr_identity l \<noteq> i then raise (Err SE_InvalidSocket)
         else
           bnd (on_table (table_close i)) (\<lambda>waiters.
           bnd (each remove_socket (pool l)) (\<lambda>_.
           bnd (close_children (accept_queue l)) (\<lambda>aborts.
           bnd (modify (\<lambda>s. s\<lparr>listener_scan_cursor := None, listener_scan_pending := (tcp_listeners s \<noteq> []),
                              listener_scan_resweep := False\<rparr>)) (\<lambda>_.
           bnd (expect (drive E now None)) (\<lambda>effects.
           finish_call E () effects (map (pending_of i) waiters @ aborts)))))))"

definition begin_graceful_close :: "Env \<Rightarrow> SocketIdentity \<Rightarrow> TcpRecord \<Rightarrow> instant \<Rightarrow> unit op" where
  "begin_graceful_close E i r now =
     bnd (wake_tcp (tr_handle r) sk_close) (\<lambda>_.
     bnd (ask (tcp_record i)) (\<lambda>_.
     bnd (instant_plus E now (Duration_from_millis CLOSE_TIMEOUT_MILLIS)) (\<lambda>dl.
     bnd (tcp_record_mut i (\<lambda>r. r\<lparr>close_deadline := Some dl\<rparr>)) (\<lambda>_.
     bnd (modify (\<lambda>s. s\<lparr>closing_tcp := bs_insert (si_id i) (closing_tcp s),
            closing_deadlines := bs_insert (dl, si_id i) (closing_deadlines s), closing_sweep_cursor := None\<rparr>)) (\<lambda>_.
     bnd (modify request_closing_cleanup) (\<lambda>_.
     modify (\<lambda>s. s\<lparr>maintenance_cleanup_turn := False\<rparr>)))))))"

definition tcp_close :: "Env \<Rightarrow> SocketIdentity \<Rightarrow> instant \<Rightarrow> unit Envelope op" where
  "tcp_close E i now =
     bnd (ask ensure_running) (\<lambda>_.
     bnd (ask (\<lambda>s. validate (socket_table s) i Tcp)) (\<lambda>_.
     bnd (gets (is_listener i)) (\<lambda>listening.
     if listening then tcp_listener_close E i now
     else
       bnd (ask (tcp_record i)) (\<lambda>r.
       bnd (on_table (table_close i)) (\<lambda>waiters.
       bnd (if phase r = Connected then begin_graceful_close E i r now
            else wake_tcp (tr_handle r) sk_abort) (\<lambda>_.
       bnd (expect (drive E now None)) (\<lambda>effects.
       bnd (guarded (phase r \<noteq> Connected) (remove_tcp_socket r)) (\<lambda>_.
       finish_call E () effects (map (pending_of i) waiters)))))))))"

definition cancel_call :: "Env \<Rightarrow> SocketIdentity \<Rightarrow> Operation \<Rightarrow> reference \<Rightarrow> CancelResult Envelope op" where
  "cancel_call E i operation rf =
     bnd (ask ensure_running) (\<lambda>_.
     bnd (on_table (cancel i operation rf)) (\<lambda>r.
     finish_call E r Effects_empty []))"

end
