(* ===== verification/Tcp_Invariant.thy ===== *)
theory Tcp_Invariant
  imports Drive_Invariant Stack_Stream
begin

text \<open>
  The TCP operations keep the invariant and never panic, whichever of their checks fails.
  \<open>good I m s\<close> says that \<open>m\<close>, run from \<open>s\<close>, ends in a state of \<open>I\<close> with a value or an error, and its rules
  walk through a handler statement by statement.
\<close>

section \<open>Walking through a handler\<close>

abbreviation I0 :: "NativeStack \<Rightarrow> bool" where
  "I0 \<equiv> held_inv {#} {#} {}"

definition good :: "('s \<Rightarrow> bool) \<Rightarrow> ('s, 'e, 'a) prog \<Rightarrow> 's \<Rightarrow> bool" where
  "good I m s \<longleftrightarrow> wp m (\<lambda>_. I) (\<lambda>f s. f \<noteq> Panic \<and> I s) s"

named_theorems good_intros

lemma keeps_good: "(\<And>s. I s \<Longrightarrow> good I m s) \<Longrightarrow> keeps I m"
  by (simp add: keeps_def good_def)

lemma good_keeps: "keeps I m \<Longrightarrow> I s \<Longrightarrow> good I m s"
  by (simp add: keeps_def good_def)

lemma good_raise [good_intros]: "I s \<Longrightarrow> good I (raise (Err e)) s"
  by (simp add: good_def wp_simps)

lemma good_ask [good_intros]:
  "I s \<Longrightarrow> (\<And>x. g s = Inr x \<Longrightarrow> good I (k x) s) \<Longrightarrow> good I (bnd (ask g) k) s"
  by (auto simp: good_def wp_simps split: sum.splits)

lemma good_liftr [good_intros]:
  "I s \<Longrightarrow> (\<And>x. r = Inr x \<Longrightarrow> good I (k x) s) \<Longrightarrow> good I (bnd (liftr r) k) s"
  by (auto simp: good_def wp_simps split: sum.splits)

lemma good_gets [good_intros]: "good I (k (g s)) s \<Longrightarrow> good I (bnd (gets g) k) s"
  by (simp add: good_def wp_simps)

lemma good_if [good_intros]: "(c \<Longrightarrow> good I m s) \<Longrightarrow> (\<not> c \<Longrightarrow> good I n s) \<Longrightarrow> good I (if c then m else n) s"
  by simp

lemma good_let [good_intros]: "good I (f x) s \<Longrightarrow> good I (Let x f) s"
  by simp

lemma good_case_option [good_intros]:
  "(v = None \<Longrightarrow> good I m s) \<Longrightarrow> (\<And>x. v = Some x \<Longrightarrow> good I (n x) s) \<Longrightarrow> good I (case v of None \<Rightarrow> m | Some x \<Rightarrow> n x) s"
  by (cases v) simp_all

lemma good_case_sum [good_intros]:
  "(\<And>x. v = Inl x \<Longrightarrow> good I (m x) s) \<Longrightarrow> (\<And>y. v = Inr y \<Longrightarrow> good I (n y) s) \<Longrightarrow>
     good I (case v of Inl x \<Rightarrow> m x | Inr y \<Rightarrow> n y) s"
  by (cases v) simp_all

lemma good_case_prod [good_intros]: "(\<And>x y. v = (x, y) \<Longrightarrow> good I (m x y) s) \<Longrightarrow> good I (case v of (x, y) \<Rightarrow> m x y) s"
  by (cases v) simp

lemma good_bnd_wp: "wp m (\<lambda>x. good I (k x)) (\<lambda>f s. f \<noteq> Panic \<and> I s) s \<Longrightarrow> good I (bnd m k) s"
  by (simp add: good_def [abs_def] wp_bnd)

lemma good_bnd_keeps: "keeps I m \<Longrightarrow> I s \<Longrightarrow> (\<And>x s'. I s' \<Longrightarrow> good I (k x) s') \<Longrightarrow> good I (bnd m k) s"
  by (rule good_bnd_wp) (rule keeps_wp [of I m], auto)

lemma good_modify: "good I (k ()) (f s) \<Longrightarrow> good I (bnd (modify f) k) s"
  by (simp add: good_def wp_simps)

lemma good_bnd_assoc: "good I (bnd m (\<lambda>x. bnd (n x) k)) s \<Longrightarrow> good I (bnd (bnd m n) k) s"
  by (simp add: good_def wp_bnd)

lemma good_bnd_raise [good_intros]: "I s \<Longrightarrow> good I (bnd (raise (Err e)) k) s"
  by (simp add: good_def wp_simps)

lemma good_bnd_ret [good_intros]: "good I (k x) s \<Longrightarrow> good I (bnd (ret x) k) s"
  by (simp add: good_def wp_simps)

lemma good_finish [good_intros]: "held_inv {#} {#} K s \<Longrightarrow> good (held_inv {#} {#} K) (finish_call E res eff aborts) s"
  by (intro good_keeps keeps_finish)

lemma good_drive [good_intros]:
  "engine_ok E \<Longrightarrow> held_inv {#} {#} K s \<Longrightarrow> (\<And>x s'. held_inv {#} {#} K s' \<Longrightarrow> good (held_inv {#} {#} K) (k x) s') \<Longrightarrow>
     good (held_inv {#} {#} K) (bnd (expect (drive E now c)) k) s"
  by (rule good_bnd_keeps [OF keeps_expect [OF drive_runs]])

section \<open>Statements on the socket of a record\<close>

lemma inv_table_quiet:
  "held_inv x y K s \<Longrightarrow> table_sig t = table_sig (socket_table s) \<Longrightarrow> held_inv x y K (s\<lparr>socket_table := t\<rparr>)"
  by (simp add: held_inv_def)

lemma tcp_record_frame [simp]:
  "tcp_record i (woken ws s) = tcp_record i s" "tcp_record i (s\<lparr>socket_set := ss\<rparr>) = tcp_record i s"
  "tcp_record i (s\<lparr>socket_table := t\<rparr>) = tcp_record i s" "tcp_record i (s\<lparr>next_ephemeral_port := n\<rparr>) = tcp_record i s"
  by (simp_all add: tcp_record_def is_listener_def)

definition harmless :: "TcpRecord \<Rightarrow> (TcpSocket \<Rightarrow> TcpSocket) \<Rightarrow> bool" where
  "harmless r f \<longleftrightarrow> (\<forall>sk. same_socket sk (f sk) \<and> (early r \<longrightarrow> fresh sk \<longrightarrow> fresh (f sk)))"

lemma record_put:
  assumes "held_inv x y K s" and "tcp_record i s = Inr r" and "ss_get_tcp (socket_set s) (tr_handle r) = Some sk"
    and "same_socket sk sk'" and "early r \<Longrightarrow> fresh sk \<Longrightarrow> fresh sk'"
  shows "held_inv x y K (s\<lparr>socket_set := ss_put (tr_handle r) (NTcp sk') (socket_set s)\<rparr>)"
proof (rule inv_put [OF assms(1,3,4)])
  fix k r' assume r': "bt_get (tcp_records s) k = Some r'" "tr_handle r' = tr_handle r" "early r'" "fresh sk"
  have r: "bt_get (tcp_records s) (si_id i) = Some r" using tcp_record_Inr [OF assms(2)] by simp
  have "k = si_id i" using own_distinct_records [OF invD(1) [OF assms(1)] r r'(1)] r'(2) by auto
  then show "fresh sk'" using assms(5) r r' by simp
qed

lemma record_socket:
  assumes "held_inv x y K s" and "tcp_record i s = Inr r"
  shows "\<exists>sk. ss_get_tcp (socket_set s) (tr_handle r) = Some sk \<and> tcp_info sk = (tr_rcvbuf r, tr_sndbuf r) \<and> native_wf (NTcp sk)"
  using inv_record(1) [OF assms(1)] tcp_record_Inr [OF assms(2)] by blast

lemma record_fresh:
  assumes "held_inv x y K s" and "tcp_record i s = Inr r" and "early r" and "ss_get_tcp (socket_set s) (tr_handle r) = Some sk"
  shows "fresh sk"
  using inv_record(2) [OF assms(1) conjunct1 [OF tcp_record_Inr [OF assms(2)]]] assms(3,4)
  by (auto simp: record_ok_def fresh_at_def)

lemma good_get_tcp [good_intros]:
  assumes "held_inv x y K s" and "tcp_record i s = Inr r"
    and "\<And>sk. ss_get_tcp (socket_set s) (tr_handle r) = Some sk \<Longrightarrow> good I (k sk) s"
  shows "good I (bnd (get_tcp (tr_handle r)) k) s"
  using record_socket [OF assms(1,2)] assms(3) by (auto simp: good_def wp_simps)

lemma good_upd_tcp:
  assumes "held_inv {#} {#} K s" and "tcp_record i s = Inr r" and "harmless r f"
    and "\<And>s'. held_inv {#} {#} K s' \<Longrightarrow> tcp_record i s' = Inr r \<Longrightarrow> good I (k ()) s'"
  shows "good I (bnd (upd_tcp (tr_handle r) f) k) s"
proof -
  obtain sk where sk: "ss_get_tcp (socket_set s) (tr_handle r) = Some sk" using record_socket [OF assms(1,2)] by blast
  have "held_inv {#} {#} K (s\<lparr>socket_set := ss_put (tr_handle r) (NTcp (f sk)) (socket_set s)\<rparr>)"
    using assms(3) by (intro record_put [OF assms(1,2) sk]) (auto simp: harmless_def)
  from assms(4) [OF this] assms(2) show ?thesis by (simp add: good_def wp_simps sk)
qed

lemma good_on_tcp:
  assumes "held_inv {#} {#} K s" and "tcp_record i s = Inr r" and "harmless r (\<lambda>sk. fst (snd (f sk)))"
    and "\<And>sk s'. held_inv {#} {#} K s' \<Longrightarrow> tcp_record i s' = Inr r \<Longrightarrow> good I (k (fst (f sk))) s'"
  shows "good I (bnd (on_tcp (tr_handle r) f) k) s"
proof -
  obtain sk where sk: "ss_get_tcp (socket_set s) (tr_handle r) = Some sk" using record_socket [OF assms(1,2)] by blast
  have "held_inv {#} {#} K (woken (snd (snd (f sk))) (s\<lparr>socket_set := ss_put (tr_handle r) (NTcp (fst (snd (f sk)))) (socket_set s)\<rparr>))"
    using assms(3) record_put [OF assms(1,2) sk] by (auto simp: harmless_def)
  from assms(4) [OF this] assms(2) show ?thesis by (simp add: good_def wp_simps sk case_prod_beta)
qed

lemma good_wake_tcp:
  assumes "held_inv {#} {#} K s" and "tcp_record i s = Inr r" and "harmless r (\<lambda>sk. fst (f sk))"
    and "\<And>s'. held_inv {#} {#} K s' \<Longrightarrow> tcp_record i s' = Inr r \<Longrightarrow> good I (k ()) s'"
  shows "good I (bnd (wake_tcp (tr_handle r) f) k) s"
  unfolding wake_tcp_def using assms by (intro good_on_tcp [OF assms(1,2)]) simp_all

lemma good_record_mut:
  assumes "held_inv {#} {#} K s" and "tcp_record i s = Inr r" and "record_sig (f r) = record_sig r"
    and "record_ok (socket_set s) (si_id i) r \<Longrightarrow> record_ok (socket_set s) (si_id i) (f r)"
    and "\<And>s'. held_inv {#} {#} K s' \<Longrightarrow> tcp_record i s' = Inr (f r) \<Longrightarrow> good I (k ()) s'"
  shows "good I (bnd (tcp_record_mut i f) k) s"
proof -
  let ?s = "s\<lparr>tcp_records := bt_insert (si_id i) (f r) (tcp_records s)\<rparr>"
  note get = conjunct1 [OF tcp_record_Inr [OF assms(2)]]
  have inv: "held_inv {#} {#} K ?s"
    using assms(4) inv_record(2) [OF assms(1) get] by (intro inv_update_record [OF assms(1) get assms(3)])
  have "tcp_record i ?s = Inr (f r)"
    using assms(2,3) invD(5) [OF assms(1)] tcp_record_Inr [OF assms(2)]
    by (auto simp: tcp_record_def is_listener_def record_sig_def split: option.splits if_splits)
  from assms(5) [OF inv this] show ?thesis
    using assms(2) by (simp add: good_def tcp_record_mut_def wp_simps)
qed

lemma on_table_quiet:
  assumes "\<And>t r t'. table_wf t \<Longrightarrow> f t = (r, t') \<Longrightarrow> table_sig t' = table_sig t"
  shows "keeps (held_inv x y K) (on_table f)"
proof (rule keepsI)
  fix s assume inv: "held_inv x y K s"
  obtain r t where run: "f (socket_table s) = (r, t)" by fastforce
  have "held_inv x y K (s\<lparr>socket_table := t\<rparr>)"
    using inv_table_quiet [OF inv assms [OF inv_wf [OF inv] run]] .
  then show "wp (on_table f) (\<lambda>_. held_inv x y K) (\<lambda>f s. f \<noteq> Panic \<and> held_inv x y K s) s"
    by (simp add: on_table_def wp_simps run split: sum.splits)
qed

lemma good_on_table:
  assumes "\<And>t r t'. table_wf t \<Longrightarrow> f t = (r, t') \<Longrightarrow> table_sig t' = table_sig t"
    and "held_inv x y K s" and "\<And>v t. held_inv x y K (s\<lparr>socket_table := t\<rparr>) \<Longrightarrow> good (held_inv x y K) (k v) (s\<lparr>socket_table := t\<rparr>)"
  shows "good (held_inv x y K) (bnd (on_table f) k) s"
proof -
  obtain r t where run: "f (socket_table s) = (r, t)" by fastforce
  have inv: "held_inv x y K (s\<lparr>socket_table := t\<rparr>)"
    using inv_table_quiet [OF assms(2) assms(1) [OF inv_wf [OF assms(2)] run]] .
  then show ?thesis
    using assms(3) [OF inv] by (auto simp: good_def on_table_def wp_simps run split: sum.splits)
qed

lemma good_arm:
  assumes inv: "held_inv {#} {#} K s" and r: "tcp_record i s = Inr r"
    and "\<And>s'. held_inv {#} {#} K s' \<Longrightarrow> tcp_record i s' = Inr r \<Longrightarrow> good (held_inv {#} {#} K) (k ()) s'"
  shows "good (held_inv {#} {#} K) (bnd (arm_tcp_waiter i (tr_handle r) dir op p rf now_ready) k) s"
  unfolding arm_tcp_waiter_def
proof (intro good_bnd_assoc good_ask, rule inv, rule good_on_table [OF sig_install inv], assumption, assumption)
  fix key v t assume i1: "held_inv {#} {#} K (s\<lparr>socket_table := t\<rparr>)"
  show "good (held_inv {#} {#} K) (bnd (bnd (upd_tcp (tr_handle r) (case dir of Read \<Rightarrow> register_recv_waker key | Write \<Rightarrow> register_send_waker key))
      (\<lambda>_. guarded now_ready (wake [key]))) k) (s\<lparr>socket_table := t\<rparr>)"
  proof (intro good_bnd_assoc, rule good_upd_tcp [OF i1, of i])
    show "harmless r (case dir of Read \<Rightarrow> register_recv_waker key | Write \<Rightarrow> register_send_waker key)"
      by (simp add: harmless_def socket_simps split: Direction.splits)
    fix s' assume "held_inv {#} {#} K s'" "tcp_record i s' = Inr r"
    then show "good (held_inv {#} {#} K) (bnd (guarded now_ready (wake [key])) k) s'"
      using assms(3) [of s'] assms(3) [of "woken [key] s'"] by (simp add: good_def wp_simps)
  qed (use r in simp)
qed

lemma good_bnd_if [good_intros]:
  "(c \<Longrightarrow> good I (bnd m k) s) \<Longrightarrow> (\<not> c \<Longrightarrow> good I (bnd n k) s) \<Longrightarrow> good I (bnd (if c then m else n) k) s"
  by simp

lemma good_bnd_case_option [good_intros]:
  "(v = None \<Longrightarrow> good I (bnd m k) s) \<Longrightarrow> (\<And>x. v = Some x \<Longrightarrow> good I (bnd (n x) k) s) \<Longrightarrow>
     good I (bnd (case v of None \<Rightarrow> m | Some x \<Rightarrow> n x) k) s"
  by (cases v) simp_all

lemma good_bnd_case_prod [good_intros]:
  "(\<And>x y. v = (x, y) \<Longrightarrow> good I (bnd (m x y) k) s) \<Longrightarrow> good I (bnd (case v of (x, y) \<Rightarrow> m x y) k) s"
  by (cases v) simp

lemma good_bnd_guarded [good_intros]:
  "(c \<Longrightarrow> good I (bnd m k) s) \<Longrightarrow> (\<not> c \<Longrightarrow> good I (k ()) s) \<Longrightarrow> good I (bnd (guarded c m) k) s"
  by (auto simp: guarded_def good_bnd_ret)

declare good_bnd_assoc [good_intros]

lemma good_ensure_connected [good_intros]:
  assumes "held_inv {#} {#} K s" and "tcp_record i s = Inr r" and "phase r = Connected \<Longrightarrow> good (held_inv {#} {#} K) (k ()) s"
  shows "good (held_inv {#} {#} K) (bnd (ensure_connected r) k) s"
  using record_socket [OF assms(1,2)] assms(1,3) unfolding ensure_connected_def
  by (auto simp: good_def wp_simps split: ConnectPhase.splits)

section \<open>Names and options\<close>

lemma the_listener_get: "the_listener i s = Some l \<Longrightarrow> bt_get (tcp_listeners s) (si_id i) = Some l"
  by (auto simp: the_listener_def split: option.splits if_splits)

lemma good_listener_option:
  assumes "held_inv {#} {#} K s" and "the_listener i s = Some l" and "listener_held l' = listener_held l"
    and "listener_ok (si_id i) l \<Longrightarrow> listener_ok (si_id i) l'" and "\<And>s'. held_inv {#} {#} K s' \<Longrightarrow> good (held_inv {#} {#} K) (k ()) s'"
  shows "good (held_inv {#} {#} K) (bnd (modify (\<lambda>s. s\<lparr>tcp_listeners := bt_insert (si_id i) l' (tcp_listeners s)\<rparr>)) k) s"
proof (rule good_modify, rule assms(5))
  note get = the_listener_get [OF assms(2)]
  show "held_inv {#} {#} K (s\<lparr>tcp_listeners := bt_insert (si_id i) l' (tcp_listeners s)\<rparr>)"
    using assms(4) inv_remove_listener(2) [OF assms(1) get] by (intro inv_update_listener [OF assms(1) get assms(3)])
qed

lemma harmless_options [simp]:
  "harmless r (set_nagle_enabled b)" "harmless r (set_keep_alive_config c)" "harmless r (set_timeout d)"
  "harmless r (\<lambda>sk. fst (sk_abort sk))" "harmless r (\<lambda>sk. fst (sk_close sk))"
  by (simp_all add: harmless_def socket_simps)

lemma tcp_sockname_keeps: "keeps I0 (tcp_sockname E i)"
  unfolding tcp_sockname_def by (intro keeps_intros)

lemma socket_validate_keeps: "keeps I0 (socket_validate E i)"
  unfolding socket_validate_def by (intro keeps_intros)

lemma tcp_peername_keeps: "keeps I0 (tcp_peername E i)"
  unfolding tcp_peername_def by (intro keeps_intros)

lemma cancel_call_keeps: "keeps I0 (cancel_call E i op rf)"
  unfolding cancel_call_def by (intro keeps_intros on_table_quiet) (rule sig_cancel)

lemma tcp_nodelay_keeps: "keeps I0 (tcp_nodelay E i)"
  unfolding tcp_nodelay_def
  by (rule keeps_good, intro good_intros) (auto intro: good_intros)

lemma tcp_keepalive_keeps: "keeps I0 (tcp_keepalive E i)"
  unfolding tcp_keepalive_def
  by (rule keeps_good, intro good_intros) (auto intro: good_intros)

lemma tcp_set_nodelay_keeps: "engine_ok E \<Longrightarrow> keeps I0 (tcp_set_nodelay E i b now)"
  unfolding tcp_set_nodelay_def
  by (rule keeps_good, intro good_intros; (rule good_upd_tcp good_listener_option)?)
    (auto intro!: good_intros good_upd_tcp good_listener_option simp: listener_held_def listener_ok_def)

lemma tcp_set_keepalive_keeps: "engine_ok E \<Longrightarrow> keeps I0 (tcp_set_keepalive E i b now)"
  unfolding tcp_set_keepalive_def
  by (rule keeps_good, intro good_intros; (rule good_upd_tcp good_listener_option)?)
    (auto intro!: good_intros good_upd_tcp good_listener_option simp: listener_held_def listener_ok_def)

section \<open>Sending, receiving and shutting down\<close>

lemma connected_not_early: "phase r = Connected \<Longrightarrow> \<not> early r"
  by (simp add: early_def)

lemma harmless_connected: "\<not> early r \<Longrightarrow> (\<And>sk. same_socket sk (f sk)) \<Longrightarrow> harmless r f"
  by (simp add: harmless_def)

lemma same_socket_receive [socket_simps]:
  "same_socket sk (snd (if c then recv_slice n sk else (Some [], sk)))"
  by (simp add: socket_simps)

lemma tcp_send_keeps: "engine_ok E \<Longrightarrow> keeps I0 (tcp_send E i data p rf now)"
  unfolding tcp_send_def
  by (rule keeps_good)
    (auto intro!: good_intros good_on_tcp good_arm harmless_connected simp: case_prod_beta socket_simps connected_not_early)

lemma tcp_recv_keeps: "engine_ok E \<Longrightarrow> keeps I0 (tcp_recv E i len p rf now)"
  unfolding tcp_recv_def
  by (rule keeps_good)
    (auto intro!: good_intros good_on_tcp good_arm harmless_connected
      simp: case_prod_beta Let_def socket_simps connected_not_early split del: if_split)

lemma good_take_waiters:
  assumes "held_inv {#} {#} K s" and "tcp_record i s = Inr r"
    and "\<And>as s'. held_inv {#} {#} K s' \<Longrightarrow> tcp_record i s' = Inr r \<Longrightarrow> good (held_inv {#} {#} K) (k as) s'"
  shows "good (held_inv {#} {#} K) (bnd (take_waiters j ds) k) s"
  using assms
proof (induction ds arbitrary: k s)
  case Nil
  then show ?case by (simp add: good_bnd_ret)
next
  case (Cons d ds)
  obtain dir b where d: "d = (dir, b)" by fastforce
  show ?case
  proof (cases b)
    case True
    then have eq: "take_waiters j (d # ds) = bnd (on_table (take_waiter j Tcp dir)) (\<lambda>w. bnd (take_waiters j ds) (\<lambda>aborts.
        ret (case w of None \<Rightarrow> aborts | Some w \<Rightarrow> pending_of j (dir, w) # aborts)))" by (simp add: d)
    show ?thesis
      unfolding eq
      by (intro good_bnd_assoc, rule good_on_table [OF sig_take_waiter Cons.prems(1)], assumption, assumption)
        (rule good_bnd_assoc, auto intro!: Cons.IH good_bnd_ret Cons.prems simp: Cons.prems(2))
  next
    case False
    then show ?thesis using Cons.IH [OF Cons.prems] by (simp add: d)
  qed
qed

lemma tcp_shutdown_keeps: "engine_ok E \<Longrightarrow> keeps I0 (tcp_shutdown E i how now)"
  unfolding tcp_shutdown_def Let_def
  by (rule keeps_good)
    (auto intro!: good_intros good_take_waiters good_wake_tcp good_record_mut
      simp: record_sig_def record_held_def record_ok_def early_def simp del: take_waiters.simps)

section \<open>Opening and binding\<close>

lemma allocate_ephemeral_ge: "allocate_ephemeral used st first last_port = Inr p \<Longrightarrow> first \<le> p"
  using allocate_loop_Inr [of used "clamp st first last_port" first "last_port - first + 1" 0 "last_port - first + 1" p]
  by (auto simp: allocate_ephemeral_def Let_def)

lemma good_allocate_port:
  assumes "held_inv {#} {#} K s" and "tcp_record i s = Inr r"
    and "\<And>port s'. port \<noteq> 0 \<Longrightarrow> held_inv {#} {#} K s' \<Longrightarrow> tcp_record i s' = Inr r \<Longrightarrow> good (held_inv {#} {#} K) (k port) s'"
  shows "good (held_inv {#} {#} K) (bnd (allocate_ephemeral_port fam) k) s"
proof -
  have "port \<noteq> 0" if "allocate_ephemeral u st EPHEMERAL_PORT_FIRST l = Inr port" for u st l port
    using allocate_ephemeral_ge [OF that] by (simp add: EPHEMERAL_PORT_FIRST_def)
  then show ?thesis
    unfolding allocate_ephemeral_port_def
    by (intro good_bnd_assoc good_ask good_modify good_bnd_ret) (use assms in auto)
qed

lemma tcp_bind_keeps: "keeps I0 (tcp_bind E i endpoint)"
  unfolding tcp_bind_def
  by (rule keeps_good)
    (auto intro!: good_intros good_allocate_port good_record_mut
      simp: record_sig_def record_held_def record_ok_def early_def)

lemma insert_entry_spec:
  assumes "held_inv x y K s" and "table_len (socket_table s) + length (closing_tcp s) < sockets (limits s)"
  shows "wp (insert_entry kd) (\<lambda>r s'. held_inv x y K s' \<and> (\<exists>t c. s' = s\<lparr>socket_table := t, id_counters := c\<rparr>) \<and>
    (\<forall>i. r = Inr i \<longrightarrow> si_id i = next_socket_id (id_counters s) \<and> si_id i < next_socket_id (id_counters s'))) (\<lambda>_ _. False) s"
proof -
  obtain r t c where run: "table_insert kd 0 (socket_table s, id_counters s) = (r, t, c)" by (metis surj_pair)
  note ins = inv_table_insert [OF assms run]
  show ?thesis using ins by (auto simp: insert_entry_def wp_simps run)
qed

lemma tcp_open_keeps: "keeps I0 (tcp_open E fam a b)"
proof (rule keeps_good)
  fix s assume inv: "I0 s"
  have main: "good I0 (bnd (add_socket (NTcp sk)) (\<lambda>h. bnd (insert_entry Tcp) (\<lambda>r.
       case r of
         Inl e \<Rightarrow> bnd (remove_socket h) (\<lambda>_. raise (Err e))
       | Inr i \<Rightarrow>
           bnd (modify (\<lambda>s. s\<lparr>tcp_records :=
                  bt_insert (si_id i) (TcpRecord_new i h fam a b) (tcp_records s)\<rparr>)) (\<lambda>_.
           finish_call E i Effects_empty [])))) s"
    if room: "ensure_logical_socket_capacity s = Inr u1" "ensure_native_socket_capacity 1 0 s = Inr u2"
      "ensure_socket_buffer_capacity (a + b) s = Inr u3" and sk: "tcp_socket a b = Inr sk" for sk u1 u2 u3
  proof -
    have sz: "sizes_ok a b" using sk by (auto simp: tcp_socket_def sizes_ok_def split: if_splits)
    then have sk': "tcp_info sk = (a, b)" "native_wf (NTcp sk)" "fresh sk" using tcp_socket_spec [of a b] sk by auto
    obtain h ss where add: "ss_add (NTcp sk) (socket_set s) = (h, ss)" by fastforce
    have i1: "held_inv {#(h, a, b)#} {#} {} (s\<lparr>socket_set := ss\<rparr>)"
      using inv_add_tcp [OF inv add sk'(2)] ensure_native_Inr [OF room(2)] ensure_buffer_Inr [OF room(3)]
        native_bytes_inv [OF inv] sk'(3) by (simp add: sk'(1) fresh_def)
    have fr: "fresh_at ss h" using ss_add_get [OF add] sk'(3) by (auto simp: fresh_at_def ss_get_tcp_iff)
    show ?thesis
    proof (rule good_bnd_wp, simp only: wp_add_socket add prod.case, rule good_bnd_wp,
        rule wp_mono [OF insert_entry_spec [OF i1]], goal_cases)
      case 1
      then show ?case using ensure_logical_Inr [OF room(1)] by simp
    next
      case (2 r s1)
      then obtain t c where s1: "s1 = s\<lparr>socket_set := ss, socket_table := t, id_counters := c\<rparr>" and i2: "held_inv {#(h, a, b)#} {#} {} s1"
        by auto
      show ?case
      proof (cases r)
        case (Inl e)
        then show ?thesis using inv_remove_tcp [OF i2] by (simp add: good_def wp_simps)
      next
        case (Inr i)
        have id: "si_id i = next_socket_id (id_counters s)" "si_id i < next_socket_id (id_counters s1)" using 2 Inr by auto
        have "held_inv {#} {#} {} (s1\<lparr>tcp_records := bt_insert (si_id i) (TcpRecord_new i h fam a b) (tcp_records s1)\<rparr>)"
          using inv_fresh_id(1) [OF inv] id sz fr i2
          by (intro inv_insert_record) (auto simp: s1 record_held_def TcpRecord_new_def record_ok_def early_def)
        then show ?thesis using Inr by (auto intro!: good_modify good_intros)
      qed
    qed simp
  qed
  show "good I0 (tcp_open E fam a b) s"
    unfolding tcp_open_def using inv by (auto intro!: good_intros main)
qed

end
