(* ===== verification/Tcp_Lifecycle.thy ===== *)
theory Tcp_Lifecycle
  imports Tcp_Invariant
begin

text \<open>
  The operations that change what a TCP socket is, or end it: connecting, listening, accepting and
  closing. Between two statements of such a handler the record and the engine may disagree; the
  lemmas show that the end of every path restores the invariant.
\<close>

section \<open>Connecting\<close>

lemma current_effects_runs [runs_intros]: "engine_ok E \<Longrightarrow> runs (held_inv {#} {#} K) (current_effects E now)"
  unfolding current_effects_def by (intro runs_intros)

lemma current_effects_good [good_intros]:
  "engine_ok E \<Longrightarrow> held_inv {#} {#} K s \<Longrightarrow> (\<And>x s'. held_inv {#} {#} K s' \<Longrightarrow> good (held_inv {#} {#} K) (k x) s') \<Longrightarrow>
     good (held_inv {#} {#} K) (bnd (current_effects E now) k) s"
  by (rule good_bnd_wp, rule runs_wp [OF current_effects_runs]) auto

lemma finalize_or_arm_keeps:
  assumes "engine_ok E"
  shows "keeps I0 (finalize_or_arm_connect E i p rf now)"
  unfolding finalize_or_arm_connect_def arm_connect_def Let_def
  by (rule keeps_good)
    (auto intro!: good_intros good_arm good_upd_tcp good_record_mut assms
      simp: record_sig_def record_held_def record_ok_def early_def split: State.splits)

lemma connect_outcomes:
  "(\<exists>e. sk_connect src rem loc sk = (Inl e, sk, [])) \<or>
   (\<exists>sk' ws a. sk_connect src rem loc sk = (Inr (), sk', ws) \<and> local_endpoint sk' = Some a \<and> same_family (ip_addr a) (ip_addr rem) \<and> same_socket sk sk')"
proof -
  have "same_socket sk (fst (snd (sk_connect src rem loc sk)))" by (rule same_socket_connect)
  then show ?thesis
    by (auto simp: sk_connect_def Let_def case_prod_beta local_endpoint_def set_state_def wake_both_def split: option.splits)
qed

lemma tcp_record_cong:
  "tcp_records s' = tcp_records s \<Longrightarrow> tcp_listeners s' = tcp_listeners s \<Longrightarrow> tcp_record i s' = tcp_record i s"
  by (simp add: tcp_record_def is_listener_def)

lemma start_connect_good:
  assumes eng: "engine_ok E" and inv: "I0 s" and r: "tcp_record i s = Inr r"
  shows "good I0 (start_connect E i r rem p rf now) s"
proof -
  define rest where "rest = (\<lambda>selected :: IpEndpoint.
     bnd (connection_key selected (ip_endpoint rem)) (\<lambda>key.
     bnd (tcp_record_mut i (\<lambda>r. r\<lparr>phase := Connecting, local := Some selected,
            remote := Some (ip_endpoint rem), remote_scope_id := ve_scope_id rem\<rparr>)) (\<lambda>_.
     bnd (modify (\<lambda>s. s\<lparr>tcp_connections :=
            bt_insert key i (tcp_connections s)\<rparr>)) (\<lambda>_.
     bnd (arm_connect i (tr_handle r) p rf) (\<lambda>_.
     bnd (expect (drive E now None)) (\<lambda>effects.
     finish_call E (A_select Connect rf) effects []))))))"
  have rest: "good I0 (rest selected) (woken ws (s'\<lparr>socket_set := ss_put (tr_handle r) (NTcp sk') (socket_set s')\<rparr>))"
    if inv': "I0 s'" and r': "tcp_record i s' = Inr r" and sk: "ss_get_tcp (socket_set s') (tr_handle r) = Some sk" "same_socket sk sk'"
      and fam: "same_family (ip_addr selected) (ip_addr (ip_endpoint rem))"
    for selected ws s' sk sk'
  proof -
    let ?f = "\<lambda>r. r\<lparr>phase := Connecting, local := Some selected, remote := Some (ip_endpoint rem), remote_scope_id := ve_scope_id rem\<rparr>"
    let ?s1 = "s'\<lparr>tcp_records := bt_insert (si_id i) (?f r) (tcp_records s')\<rparr>"
    note get = conjunct1 [OF tcp_record_Inr [OF r']]
    have i1: "I0 ?s1"
      using inv_record(2) [OF inv' get] fam by (intro inv_update_record [OF inv' get])
        (auto simp: record_sig_def record_held_def record_ok_def early_def simp del: same_family.simps)
    have r1: "tcp_record i ?s1 = Inr (?f r)"
      using r' invD(5) [OF inv'] tcp_record_Inr [OF r']
      by (auto simp: tcp_record_def is_listener_def split: option.splits if_splits)
    have i2: "I0 (?s1\<lparr>socket_set := ss_put (tr_handle r) (NTcp sk') (socket_set s')\<rparr>)"
      using record_put [OF i1 r1, of sk sk'] sk by (simp add: early_def)
    let ?s2 = "woken ws (s'\<lparr>socket_set := ss_put (tr_handle r) (NTcp sk') (socket_set s'),
        tcp_records := bt_insert (si_id i) (?f r) (tcp_records s'),
        tcp_connections := bt_insert (ConnectionKey_new selected (ip_endpoint rem)) i (tcp_connections s')\<rparr>)"
    have i3: "I0 ?s2" using i2 by (simp add: held_inv_def)
    have r3: "tcp_record i ?s2 = Inr (?f r)" by (rule trans [OF tcp_record_cong r1]) simp_all
    have "good I0 (bnd (arm_connect i (tr_handle (?f r)) p rf) (\<lambda>_.
        bnd (expect (drive E now None)) (\<lambda>effects. finish_call E (A_select Connect rf) effects []))) ?s2"
      unfolding arm_connect_def by (rule good_arm [OF i3 r3]) (auto intro!: good_intros eng)
    moreover have "tcp_connections (woken ws s'') = tcp_connections s''" for s''
      by (simp add: woken_def split: prod.splits)
    ultimately show ?thesis
      using r' fam by (simp add: rest_def good_def wp_simps tcp_record_mut_def connection_key_def)
  qed
  have start: "start_connect E i r rem p rf now =
     bnd (gets (reachable (ve_address rem))) (\<lambda>reach.
     if \<not> reach then raise (Err SE_NetworkUnreachable)
     else
       bnd (case local r of
              Some loc \<Rightarrow> ret loc
            | None \<Rightarrow>
                bnd (allocate_ephemeral_port (tr_family r)) (\<lambda>port.
                ret \<lparr>ip_addr = unspecified (tr_family r), ip_port = port\<rparr>)) (\<lambda>loc.
       bnd (gets (port_in_use (ip_port loc) (tr_family r) (Some i))) (\<lambda>in_use.
       if in_use then raise (Err SE_AddressInUse)
       else
         bnd (gets ip_addrs) (\<lambda>addrs.
         bnd (upd_tcp (tr_handle r) (set_timeout connect_timeout)) (\<lambda>_.
         bnd (on_tcp (tr_handle r) (sk_connect (e_source E addrs) (ip_endpoint rem) (listen_endpoint_of
               \<lparr>ve_address = ip_addr loc, ve_port = ip_port loc, ve_scope_id = local_scope_id r\<rparr>))) (\<lambda>res.
         case res of
           Inl ConnectInvalidState \<Rightarrow> raise (Err SE_InvalidState)
         | Inl ConnectUnaddressable \<Rightarrow> raise (Err SE_NetworkUnreachable)
         | Inr _ \<Rightarrow> bnd (get_tcp (tr_handle r)) (\<lambda>sk. bnd (unwrap (local_endpoint sk)) rest)))))))"
    unfolding start_connect_def rest_def Let_def by (rule refl)
  have conn: "good I0 (bnd (on_tcp (tr_handle r) (sk_connect src (ip_endpoint rem) loc)) (\<lambda>res.
         case res of
           Inl ConnectInvalidState \<Rightarrow> raise (Err SE_InvalidState)
         | Inl ConnectUnaddressable \<Rightarrow> raise (Err SE_NetworkUnreachable)
         | Inr _ \<Rightarrow> bnd (get_tcp (tr_handle r)) (\<lambda>sk. bnd (unwrap (local_endpoint sk)) rest))) s'"
    if inv': "I0 s'" and r': "tcp_record i s' = Inr r" for s' src loc
  proof -
    obtain sk where sk: "ss_get_tcp (socket_set s') (tr_handle r) = Some sk" using record_socket [OF inv' r'] by auto
    have put: "ss_get_tcp (ss_put (tr_handle r) (NTcp sk') (socket_set s')) (tr_handle r) = Some sk'" for sk'
      using sk by (simp add: ss_get_tcp_iff ss_get_put)
    have same: "I0 (s'\<lparr>socket_set := ss_put (tr_handle r) (NTcp sk) (socket_set s')\<rparr>)"
      by (rule record_put [OF inv' r' sk]) (simp_all add: socket_simps)
    from connect_outcomes [of src "ip_endpoint rem" loc sk] show ?thesis
    proof (elim disjE exE conjE)
      fix e assume "sk_connect src (ip_endpoint rem) loc sk = (Inl e, sk, [])"
      then show ?thesis using same by (simp add: good_def wp_simps sk split: ConnectError.splits)
    next
      fix sk' ws a assume "sk_connect src (ip_endpoint rem) loc sk = (Inr (), sk', ws)" "local_endpoint sk' = Some a"
        "same_family (ip_addr a) (ip_addr (ip_endpoint rem))" "same_socket sk sk'"
      then show ?thesis
        using rest [OF inv' r' sk, of sk' a ws] by (simp add: good_def wp_simps sk put)
    qed
  qed
  show ?thesis
    unfolding start
    by (auto intro!: good_intros good_allocate_port good_upd_tcp conn inv r)
qed

lemma tcp_connect_keeps: "engine_ok E \<Longrightarrow> keeps I0 (tcp_connect E i ep p rf now)"
  unfolding tcp_connect_def
  by (rule keeps_good)
    (auto intro!: good_intros start_connect_good good_keeps [OF finalize_or_arm_keeps] split: ConnectPhase.splits)


section \<open>Listening\<close>

abbreviation in_hand :: "nat \<Rightarrow> nat \<Rightarrow> SocketHandle list \<Rightarrow> held multiset" where
  "in_hand a b hs \<equiv> image_mset (\<lambda>h. (h, a, b)) (mset hs)"

lemma add_pool_spec:
  assumes "held_inv x y K s" and "sizes_ok a b" and "ss_count (socket_set s) + n \<le> sockets (limits s)"
    and "native_bytes (socket_set s) + n * (a + b) \<le> MAX_SOCKET_BUFFER_BYTES"
  shows "wp (add_pool n a b)
    (\<lambda>hs s'. length hs = n \<and> (\<forall>h \<in> set hs. fresh_at (socket_set s') h) \<and> held_inv (in_hand a b hs + x) y K s' \<and>
       (\<forall>h sk. ss_get (socket_set s) h = Some sk \<longrightarrow> ss_get (socket_set s') h = Some sk) \<and> (\<exists>ss. s' = s\<lparr>socket_set := ss\<rparr>))
    (\<lambda>_ _. False) s"
  using assms
proof (induction n arbitrary: s x)
  case 0
  then show ?case by (auto simp: wp_simps intro: exI [of _ "socket_set s"])
next
  case (Suc n)
  obtain sk where sk: "tcp_socket a b = Inr sk" "tcp_info sk = (a, b)" "native_wf (NTcp sk)" "fresh sk"
    using tcp_socket_spec [OF Suc.prems(2)] by auto
  obtain h ss where add: "ss_add (NTcp sk) (socket_set s) = (h, ss)" by fastforce
  let ?s = "s\<lparr>socket_set := ss\<rparr>"
  have i1: "held_inv (add_mset (h, a, b) x) y K ?s"
    using Suc.prems sk(4) by (intro inv_add_tcp [OF Suc.prems(1) add sk(3), unfolded sk(2)]) (simp_all add: fresh_def)
  have more: "ss_count ss = Suc (ss_count (socket_set s))" "native_bytes ss = a + b + native_bytes (socket_set s)"
    using live_add_tcp [OF add] sk(2) by (simp_all add: ss_count_live native_bytes_def)
  have get: "ss_get ss h = Some (NTcp sk)" and old: "\<And>h' v. ss_get (socket_set s) h' = Some v \<Longrightarrow> ss_get ss h' = Some v"
    using ss_add_get [OF add] by (auto split: if_splits)
  have "wp (add_pool n a b)
    (\<lambda>hs s'. length hs = n \<and> (\<forall>h \<in> set hs. fresh_at (socket_set s') h) \<and> held_inv (in_hand a b hs + add_mset (h, a, b) x) y K s' \<and>
       (\<forall>h sk. ss_get (socket_set ?s) h = Some sk \<longrightarrow> ss_get (socket_set s') h = Some sk) \<and> (\<exists>ss. s' = ?s\<lparr>socket_set := ss\<rparr>))
    (\<lambda>_ _. False) ?s"
    using Suc.prems more by (intro Suc.IH i1) (simp_all add: algebra_simps)
  then have "wp (add_pool n a b)
    (\<lambda>hs s'. length (h # hs) = Suc n \<and> (\<forall>h \<in> set (h # hs). fresh_at (socket_set s') h) \<and> held_inv (in_hand a b (h # hs) + x) y K s' \<and>
       (\<forall>h sk. ss_get (socket_set s) h = Some sk \<longrightarrow> ss_get (socket_set s') h = Some sk) \<and> (\<exists>ss. s' = s\<lparr>socket_set := ss\<rparr>))
    (\<lambda>_ _. False) ?s"
    by (rule wp_mono) (use get old sk(4) in \<open>auto simp: fresh_at_def ss_get_tcp_iff\<close>)
  then show ?case by (simp add: wp_simps sk(1) add)
qed

lemma ss_get_put_other [simp]: "h' \<noteq> h \<Longrightarrow> ss_get (ss_put h sk ss) h' = ss_get ss h'"
  by (simp add: ss_get_def ss_put_def)

lemma listen_socket_spec:
  assumes inv: "held_inv (add_mset (h, i) x) y K (s\<lparr>tcp_records := rs\<rparr>)" and fresh: "fresh_at (socket_set s) h"
    and ep: "le_port ep \<noteq> 0"
  shows "wp (listen_socket ep h)
    (\<lambda>_ s'. held_inv (add_mset (h, i) x) y K (s'\<lparr>tcp_records := rs\<rparr>) \<and> tcp_records s' = tcp_records s \<and> tcp_listeners s' = tcp_listeners s \<and>
       id_counters s' = id_counters s \<and>
       (\<forall>h'. h' \<noteq> h \<longrightarrow> ss_get (socket_set s') h' = ss_get (socket_set s) h')) (\<lambda>_ _. False) s"
proof -
  obtain sk where sk: "ss_get_tcp (socket_set s) h = Some sk" "state sk = S_Closed" using fresh by (auto simp: fresh_at_def fresh_def)
  let ?sk = "set_timeout connect_timeout sk"
  let ?ss = "ss_put h (NTcp ?sk) (socket_set s)"
  obtain sk' ws where listen: "sk_listen ep ?sk = (Inr (), sk', ws)"
    using listen_closed [OF ep, of ?sk] sk(2) by (auto simp: set_timeout_def)
  have get: "ss_get_tcp ?ss h = Some ?sk" using sk(1) by (simp add: ss_get_tcp_iff ss_get_put)
  have i1: "held_inv (add_mset (h, i) x) y K (s\<lparr>tcp_records := rs, socket_set := ?ss\<rparr>)"
    using inv_put_held [OF inv, of h i sk ?sk] sk(1) by (simp add: socket_simps)
  have same: "same_socket ?sk sk'" using same_socket_listen [of ?sk ep] listen by simp
  have i2: "held_inv (add_mset (h, i) x) y K (s\<lparr>tcp_records := rs, socket_set := ss_put h (NTcp sk') ?ss\<rparr>)"
    using inv_put_held [OF i1, of h i ?sk sk'] get same by simp
  have i3: "held_inv (add_mset (h, i) x) y K ((woken ws (s\<lparr>socket_set := ss_put h (NTcp sk') ?ss\<rparr>))\<lparr>tcp_records := rs\<rparr>)"
    using i2 by (simp add: held_inv_def)
  show ?thesis
    using i3 by (simp add: listen_socket_def wp_simps sk(1) get listen)
qed

lemma listen_all_spec:
  assumes "held_inv (in_hand a b hs + x) y K (s\<lparr>tcp_records := rs\<rparr>)" and "\<forall>h \<in> set hs. fresh_at (socket_set s) h"
    and "le_port ep \<noteq> 0" and "distinct hs"
  shows "wp (each (listen_socket ep) hs)
    (\<lambda>_ s'. held_inv (in_hand a b hs + x) y K (s'\<lparr>tcp_records := rs\<rparr>) \<and> tcp_records s' = tcp_records s \<and> tcp_listeners s' = tcp_listeners s \<and>
       id_counters s' = id_counters s) (\<lambda>_ _. False) s"
  using assms
proof (induction hs arbitrary: s x)
  case (Cons h hs)
  have "wp (listen_socket ep h)
    (\<lambda>_. wp (each (listen_socket ep) hs)
      (\<lambda>_ s'. held_inv (in_hand a b (h # hs) + x) y K (s'\<lparr>tcp_records := rs\<rparr>) \<and> tcp_records s' = tcp_records s \<and>
         tcp_listeners s' = tcp_listeners s \<and> id_counters s' = id_counters s) (\<lambda>_ _. False)) (\<lambda>_ _. False) s"
  proof (rule wp_mono [OF listen_socket_spec [where h = h and i = "(a, b)" and x = "in_hand a b hs + x" and s = s and rs = rs]])
    fix u s' assume s': "held_inv (add_mset (h, a, b) (in_hand a b hs + x)) y K (s'\<lparr>tcp_records := rs\<rparr>) \<and> tcp_records s' = tcp_records s \<and>
      tcp_listeners s' = tcp_listeners s \<and> id_counters s' = id_counters s \<and>
      (\<forall>h'. h' \<noteq> h \<longrightarrow> ss_get (socket_set s') h' = ss_get (socket_set s) h')"
    have "\<forall>h' \<in> set hs. fresh_at (socket_set s') h'"
      using Cons.prems(2,4) s' by (auto simp: fresh_at_def ss_get_tcp_iff)
    with s' Cons.prems show "wp (each (listen_socket ep) hs)
      (\<lambda>_ s'. held_inv (in_hand a b (h # hs) + x) y K (s'\<lparr>tcp_records := rs\<rparr>) \<and> tcp_records s' = tcp_records s \<and>
         tcp_listeners s' = tcp_listeners s \<and> id_counters s' = id_counters s) (\<lambda>_ _. False) s'"
      by (intro wp_mono [OF Cons.IH [of "add_mset (h, a, b) x" s']]) auto
  qed (use Cons.prems in simp_all)
  then show ?case by (simp add: wp_simps)
qed (simp add: wp_simps)

lemma in_hand_distinct:
  assumes "held_inv (in_hand a b hs + x) y K s"
  shows "distinct hs"
proof -
  have "count (mset hs) h \<le> 1" for h
  proof -
    have "count (mset hs) h \<le> count (in_hand a b hs) (h, a, b)" by (induction hs) auto
    also have "\<dots> \<le> count (live_tcp (socket_set s)) (h, a, b)" using invD(1) [OF assms] by (simp add: own_at_def)
    also have "\<dots> \<le> 1" by (simp add: live_tcp_def count_mset_set')
    finally show ?thesis .
  qed
  then show ?thesis by (auto simp: distinct_count_atmost_1 count_eq_zero_iff le_Suc_eq)
qed

lemma pool_of_handles:
  assumes "distinct hs"
  shows "bs_ok (foldr bs_insert hs [])" and "mset (foldr bs_insert hs []) = mset hs" and "length (foldr bs_insert hs []) = length hs"
proof -
  have sets: "bs_ok (foldr bs_insert hs []) \<and> set (foldr bs_insert hs []) = set hs" by (induction hs) auto
  then show "bs_ok (foldr bs_insert hs [])" by simp
  show m: "mset (foldr bs_insert hs []) = mset hs"
    using sets assms by (simp add: mset_bset mset_set_set)
  show "length (foldr bs_insert hs []) = length hs" using arg_cong [OF m, of size] by simp
qed


lemma become_listener:
  assumes inv: "I0 s" and r: "tcp_record i s = Inr r" and new: "bt_get (tcp_listeners s) (si_id i) = None"
    and bl: "1 \<le> bl" and ports: "ip_port loc \<noteq> 0" "le_port listen \<noteq> 0"
    and s': "held_inv (in_hand (tr_rcvbuf r) (tr_sndbuf r) (tr_handle r # hs)) {#} {}
      (s'\<lparr>tcp_records := bt_remove (si_id i) (tcp_records s)\<rparr>)"
      "tcp_records s' = tcp_records s" "tcp_listeners s' = tcp_listeners s" "id_counters s' = id_counters s"
    and hs: "Suc (length hs) = min bl LISTENER_POOL_MAX"
    and l: "l = (ListenerRecord_new i ep listen loc bl (tr_handle r # hs) (tr_rcvbuf r) (tr_sndbuf r))
        \<lparr>lr_nodelay := nd, lr_keepalive := ka\<rparr>"
  shows "I0 (forgotten r s'\<lparr>tcp_listeners := bt_insert (si_id i) l (tcp_listeners (forgotten r s'))\<rparr>)"
proof -
  note rec = tcp_record_Inr [OF r]
  note ok = inv_record [OF inv conjunct1 [OF rec]]
  have d: "distinct (tr_handle r # hs)" 
    by (rule in_hand_distinct [of "tr_rcvbuf r" "tr_sndbuf r" _ "{#}" "{#}" "{}"]) (use s'(1) in simp)
  note pool = pool_of_handles [OF d]
  have held: "listener_held l = in_hand (tr_rcvbuf r) (tr_sndbuf r) (tr_handle r # hs)"
    using pool(2) by (simp add: l ListenerRecord_new_def listener_held_def del: foldr.simps)
  have lok: "listener_ok (si_id i) l"
    using pool(1,3) hs ports ok(2) by (simp add: l ListenerRecord_new_def listener_ok_def record_ok_def del: foldr.simps)
  have "held_inv (listener_held l) {#} {} (forgotten r s')"
    using s'(1,2) rec by (simp add: held forgotten_def held_inv_def)
  moreover have "id_counters (forgotten r s') = id_counters s'"
    by simp
  ultimately show ?thesis
    using inv_insert_listener [of "{#}" l "{#}" "{}" "forgotten r s'" "si_id i"] new s' lok ok(3) by simp
qed

lemma concrete_port: "concrete_listener_endpoint ep s = Inr l \<Longrightarrow> le_port l = ve_port ep"
  by (auto simp: concrete_listener_endpoint_def listen_endpoint_of_def split: if_splits option.splits)

lemma buffer_room:
  "ensure_socket_buffer_capacity (saturating_mul n m) s = Inr u \<Longrightarrow> socket_buffer_bytes s + n * m \<le> MAX_SOCKET_BUFFER_BYTES"
  by (drule ensure_buffer_Inr)
    (auto simp: saturating_mul_def MAX_SOCKET_BUFFER_BYTES_def MAX_BUFFER_BYTES_def usize_max_def min_def split: if_splits)

lemma listen_pool_spec:
  assumes inv: "I0 s" and r: "tcp_record i s = Inr r" and "phase r = Bound" and "le_port listen \<noteq> 0"
    and "ensure_native_socket_capacity n 0 s = Inr u" 
    and "ensure_socket_buffer_capacity (saturating_mul n (tr_rcvbuf r + tr_sndbuf r)) s = Inr v"
    and k: "\<And>hs s'. length hs = n \<Longrightarrow> tcp_records s' = tcp_records s \<Longrightarrow> tcp_listeners s' = tcp_listeners s \<Longrightarrow>
       id_counters s' = id_counters s \<Longrightarrow> held_inv (in_hand (tr_rcvbuf r) (tr_sndbuf r) (tr_handle r # hs)) {#} {}
      (s'\<lparr>tcp_records := bt_remove (si_id i) (tcp_records s)\<rparr>) \<Longrightarrow> good I0 (k hs) s'"
  shows "good I0 (bnd (add_pool n (tr_rcvbuf r) (tr_sndbuf r)) (\<lambda>hs.
     bnd (each (listen_socket listen) (tr_handle r # hs)) (\<lambda>_. k hs))) s"
proof (rule good_bnd_wp)
  let ?a = "tr_rcvbuf r" and ?b = "tr_sndbuf r"
  note rec = conjunct1 [OF tcp_record_Inr [OF r]]
  have ok: "sizes_ok ?a ?b" "fresh_at (socket_set s) (tr_handle r)"
    using inv_record(2) [OF inv rec] assms(3) by (simp_all add: record_ok_def early_def)
  have "native_bytes (socket_set s) + n * (?a + ?b) \<le> MAX_SOCKET_BUFFER_BYTES"
    using buffer_room [OF assms(6)] native_bytes_inv [OF inv] by simp
  note pool = add_pool_spec [OF inv ok(1) ensure_native_Inr [OF assms(5)] this]
  show "wp (add_pool n ?a ?b) (\<lambda>hs. good I0 (bnd (each (listen_socket listen) (tr_handle r # hs)) (\<lambda>_. k hs)))
    (\<lambda>f s. f \<noteq> Panic \<and> I0 s) s"
  proof (rule wp_mono [OF pool])
    fix hs s1
    let ?hs = "tr_handle r # hs"
    assume "length hs = n \<and> (\<forall>h \<in> set hs. fresh_at (socket_set s1) h) \<and> held_inv (in_hand ?a ?b hs + {#}) {#} {} s1 \<and>
       (\<forall>h sk. ss_get (socket_set s) h = Some sk \<longrightarrow> ss_get (socket_set s1) h = Some sk) \<and> (\<exists>ss. s1 = s\<lparr>socket_set := ss\<rparr>)"
    then obtain ss where s1: "length hs = n" "\<forall>h \<in> set hs. fresh_at (socket_set s1) h" "held_inv (in_hand ?a ?b hs) {#} {} s1"
      "\<And>h sk. ss_get (socket_set s) h = Some sk \<Longrightarrow> ss_get (socket_set s1) h = Some sk" "s1 = s\<lparr>socket_set := ss\<rparr>"
      by auto
    have i1: "held_inv (in_hand ?a ?b ?hs + {#}) {#} {} (s1\<lparr>tcp_records := bt_remove (si_id i) (tcp_records s)\<rparr>)"
      using inv_remove_record [OF s1(3), of "si_id i" r] rec s1(5) by (simp add: record_held_def)
    have "\<forall>h \<in> set ?hs. fresh_at (socket_set s1) h"
      using s1(2,4) ok(2) by (auto simp: fresh_at_def ss_get_tcp_iff)
    note loop = listen_all_spec [OF i1 this assms(4) in_hand_distinct [OF i1]]
    show "good I0 (bnd (each (listen_socket listen) ?hs) (\<lambda>_. k hs)) s1"
      by (rule good_bnd_wp, rule wp_mono [OF loop]) (use s1(1,5) k in auto)
  qed simp
qed

lemma tcp_listen_good:
  assumes eng: "engine_ok E" and inv: "I0 s" and r: "tcp_record i s = Inr r" "phase r = Bound" "local r = Some loc"
    and new: "bt_get (tcp_listeners s) (si_id i) = None" and bl: "1 \<le> bl"
    and port: "le_port listen = ip_port loc"
    and room: "ensure_native_socket_capacity (min bl LISTENER_POOL_MAX - 1) 0 s = Inr u"
      "ensure_socket_buffer_capacity (saturating_mul (min bl LISTENER_POOL_MAX - 1) (tr_rcvbuf r + tr_sndbuf r)) s = Inr v"
  shows "good I0 (bnd (add_pool (min bl LISTENER_POOL_MAX - 1) (tr_rcvbuf r) (tr_sndbuf r)) (\<lambda>hs.
     bnd (each (listen_socket listen) (tr_handle r # hs)) (\<lambda>_.
     bnd (get_tcp (tr_handle r)) (\<lambda>sk.
     let l = (ListenerRecord_new i ep listen loc bl (tr_handle r # hs) (tr_rcvbuf r) (tr_sndbuf r))
               \<lparr>lr_nodelay := \<not> nagle sk, lr_keepalive := keep_alive sk \<noteq> None\<rparr> in
     bnd (remove_tcp_record r) (\<lambda>_.
     bnd (modify (\<lambda>s. s\<lparr>tcp_listeners := bt_insert (si_id i) l (tcp_listeners s)\<rparr>)) (\<lambda>_.
     bnd (modify request_listener_scan) (\<lambda>_.
     bnd (expect (drive E now None)) (\<lambda>effects. finish_call E () effects [])))))))) s"
proof -
  have loc: "ip_port loc \<noteq> 0"
    using inv_record(2) [OF inv conjunct1 [OF tcp_record_Inr [OF r(1)]]] r(2,3) by (simp add: record_ok_def)
  have pos: "1 \<le> LISTENER_POOL_MAX" by (simp add: LISTENER_POOL_MAX_def)
  show ?thesis
  proof (rule listen_pool_spec [OF inv r(1,2) _ room])
    fix hs s'
    assume s': "length hs = min bl LISTENER_POOL_MAX - 1" "tcp_records s' = tcp_records s" "tcp_listeners s' = tcp_listeners s"
      "id_counters s' = id_counters s" "held_inv (in_hand (tr_rcvbuf r) (tr_sndbuf r) (tr_handle r # hs)) {#} {}
        (s'\<lparr>tcp_records := bt_remove (si_id i) (tcp_records s)\<rparr>)"
    from inv_held [OF s'(5), of "tr_handle r"] obtain sk where sk: "ss_get_tcp (socket_set s') (tr_handle r) = Some sk" by auto
    have "Suc (length hs) = min bl LISTENER_POOL_MAX" using s'(1) bl pos by auto
    note inv' = become_listener [OF inv r(1) new bl loc _ s'(5,2-4) this refl, where listen = listen and ep = ep and
        nd = "\<not> nagle sk" and ka = "keep_alive sk \<noteq> None"]
    let ?l = "(ListenerRecord_new i ep listen loc bl (tr_handle r # hs) (tr_rcvbuf r) (tr_sndbuf r))
        \<lparr>lr_nodelay := \<not> nagle sk, lr_keepalive := keep_alive sk \<noteq> None\<rparr>"
    have "good I0 (bnd (expect (drive E now None)) (\<lambda>effects. finish_call E () effects []))
      (request_listener_scan (forgotten r s'\<lparr>tcp_listeners := bt_insert (si_id i) ?l (tcp_listeners (forgotten r s'))\<rparr>))"
      using inv' port loc by (auto intro!: good_intros eng)
    then show "good I0 (bnd (get_tcp (tr_handle r)) (\<lambda>sk.
      let l = (ListenerRecord_new i ep listen loc bl (tr_handle r # hs) (tr_rcvbuf r) (tr_sndbuf r))
               \<lparr>lr_nodelay := \<not> nagle sk, lr_keepalive := keep_alive sk \<noteq> None\<rparr> in
      bnd (remove_tcp_record r) (\<lambda>_.
      bnd (modify (\<lambda>s. s\<lparr>tcp_listeners := bt_insert (si_id i) l (tcp_listeners s)\<rparr>)) (\<lambda>_.
      bnd (modify request_listener_scan) (\<lambda>_.
      bnd (expect (drive E now None)) (\<lambda>effects. finish_call E () effects [])))))) s'"
      using paired_ends_held [OF inv conjunct1 [OF tcp_record_Inr [OF r(1)]]] by (simp add: good_def wp_simps sk Let_def)
  qed (use port loc in simp)
qed

lemma tcp_listen_keeps:
  assumes "engine_ok E"
  shows "keeps I0 (tcp_listen E i bl now)"
  unfolding tcp_listen_def
  by (rule keeps_good)
    ((rule good_intros, assumption?)+, rule tcp_listen_good [OF assms],
      auto simp: ok_or_def dest: concrete_port split: option.splits)


section \<open>Accepting\<close>

lemma any_tcp_spec:
  "\<forall>h \<in> set hs. \<exists>sk. ss_get_tcp (socket_set s) h = Some sk \<Longrightarrow> wp (any_tcp P hs) (\<lambda>_ s'. s' = s) (\<lambda>_ _. False) s"
  by (induction hs) (auto simp: wp_simps)

lemma register_pool_spec:
  assumes "held_inv x y K s" and "bt_get (tcp_listeners s) k = Some l"
  shows "wp (each (\<lambda>h. upd_tcp h (register_recv_waker key)) (pool l))
    (\<lambda>_ s'. held_inv x y K s' \<and> bt_get (tcp_listeners s') k = Some l) (\<lambda>_ _. False) s"
proof (rule wp_each)
  fix h s' assume h: "h \<in> set (pool l)" and s': "held_inv x y K s' \<and> bt_get (tcp_listeners s') k = Some l"
  from inv_listener_socket [of x y K s' k l h] s' h obtain sk where sk: "ss_get_tcp (socket_set s') h = Some sk" by auto
  have "held_inv x y K (s'\<lparr>socket_set := ss_put h (NTcp (register_recv_waker key sk)) (socket_set s')\<rparr>)"
    using s' h sk by (intro inv_put_pool [of x y K s' k l h sk]) (simp_all add: socket_simps)
  then show "wp (upd_tcp h (register_recv_waker key)) (\<lambda>_ s'. held_inv x y K s' \<and> bt_get (tcp_listeners s') k = Some l) (\<lambda>_ _. False) s'"
    using s' sk by (simp add: wp_simps)
qed (use assms in simp)

lemma arm_listener_keeps: "keeps I0 (arm_listener_waiter i p rf)"
  unfolding arm_listener_waiter_def
proof (rule keeps_good, intro good_gets good_case_option good_if good_raise)
  fix s l assume inv: "I0 s" and l: "bt_get (tcp_listeners s) (si_id i) = Some l"
  let ?P = "\<lambda>sk. state sk \<in> {S_Established, S_CloseWait}"
  let ?rest = "\<lambda>now_ready. bnd (ask (\<lambda>s. ready_flag (socket_table s) i Tcp Read)) (\<lambda>key.
           bnd (on_table (install_waiter (registration i Tcp Accept Read p rf))) (\<lambda>_.
           bnd (each (\<lambda>h. upd_tcp h (register_recv_waker key)) (pool l)) (\<lambda>_.
           guarded now_ready (wake [key]))))"
  have rest: "good I0 (?rest b) s" for b
  proof (rule good_ask, rule inv, rule good_on_table [OF sig_install inv], assumption, assumption)
    fix key v t assume i1: "I0 (s\<lparr>socket_table := t\<rparr>)"
    have "bt_get (tcp_listeners (s\<lparr>socket_table := t\<rparr>)) (si_id i) = Some l" using l by simp
    note pool = register_pool_spec [OF i1 this]
    show "good I0 (bnd (each (\<lambda>h. upd_tcp h (register_recv_waker key)) (pool l)) (\<lambda>_. guarded b (wake [key]))) (s\<lparr>socket_table := t\<rparr>)"
      by (rule good_bnd_wp, rule wp_mono [OF pool]) (auto simp: good_def wp_simps)
  qed
  have "wp (any_tcp ?P (pool l)) (\<lambda>b. good I0 (?rest b)) (\<lambda>f s. f \<noteq> Panic \<and> I0 s) s"
    by (rule wp_mono [OF any_tcp_spec]) (use inv_listener_socket [OF inv l] rest in auto)
  then show "good I0 (bnd (if accept_queue l \<noteq> [] then ret True else any_tcp ?P (pool l)) ?rest) s"
    using rest by (auto intro!: good_bnd_wp simp: wp_simps)
qed

lemma pop_accepted:
  assumes "I0 s" and "bt_get (tcp_listeners s) k = Some l" and "accept_queue l = c # cs"
  shows "I0 (s\<lparr>tcp_listeners := bt_insert k (l\<lparr>accept_queue := cs\<rparr>) (tcp_listeners s)\<rparr>)"
  using inv_remove_listener(2) [OF assms(1,2)] assms(3)
  by (intro inv_update_listener [OF assms(1,2)]) (auto simp: listener_held_def listener_ok_def)

lemma good_ret [good_intros]: "I s \<Longrightarrow> good I (ret x) s"
  by (simp add: good_def wp_simps)

lemma good_act: "(\<And>x s'. f s = (x, s') \<Longrightarrow> good I (k x) s') \<Longrightarrow> good I (bnd (act f) k) s"
  by (cases "f s") (simp add: good_def wp_simps)

lemma tcp_accept_keeps:
  assumes "engine_ok E"
  shows "keeps I0 (tcp_accept E i p rf now)"
proof (rule keeps_good)
  fix s assume inv: "I0 s"
  show "good I0 (tcp_accept E i p rf now) s"
    unfolding tcp_accept_def
    by (auto intro!: good_intros inv assms good_modify good_bnd_keeps [OF runs_keeps [OF refresh_listeners_runs]] good_act
        good_upd_tcp good_bnd_assoc good_bnd_keeps [OF arm_listener_keeps] pop_accepted
        split: option.splits list.splits)
qed


section \<open>Closing\<close>

lemma inv_drop: "held_inv x y K s \<Longrightarrow> held_inv x y {} s"
  by (simp add: held_inv_def keep_at_def)

lemma inv_keep:
  "held_inv x y {} s \<Longrightarrow> bt_get (tcp_records s) k = Some r \<Longrightarrow> k \<notin> set (closing_tcp s) \<Longrightarrow> held_inv x y {(k, record_sig r)} s"
  by (simp add: held_inv_def keep_at_def)

lemma validated_close:
  assumes "held_inv x y K s" and "validate (socket_table s) i kd = Inr e"
  shows "\<exists>ws t. table_close i (socket_table s) = (Inr ws, t) \<and> si_id i \<notin> ids t \<and> si_id i \<notin> set (closing_tcp s) \<and>
     card (ids t) + length (closing_tcp s) < sockets (limits s) \<and> si_id i < next_socket_id (id_counters s)"
proof -
  obtain ws t where run: "table_close i (socket_table s) = (Inr ws, t)"
    using assms(2) by (auto simp: validate_def table_close_def Let_def split: option.splits if_splits)
  note close = table_close_ids [OF run inv_wf [OF assms(1)]]
  note at = invD(2) [OF assms(1), unfolded ids_at_def table_sig_def, simplified]
  have here: "si_id i \<in> ids (socket_table s)" by (rule close(2)) simp
  have "ids t = ids (socket_table s) - {si_id i}" using close(1) by (simp add: table_sig_def)
  then have "Suc (card (ids t)) = card (ids (socket_table s))" 
    using card.remove [OF _ here] at by simp
  then show ?thesis using run here at \<open>ids t = _\<close> by auto
qed

lemma inv_closing_insert:
  assumes "held_inv x y {} s" and "k \<notin> ids (socket_table s)" and "k \<notin> set (closing_tcp s)"
    and "card (ids (socket_table s)) + length (closing_tcp s) < sockets (limits s)" and "k < next_socket_id (id_counters s)"
  shows "held_inv x y {} (s\<lparr>closing_tcp := bs_insert k (closing_tcp s)\<rparr>)"
proof -
  note at = invD(2) [OF assms(1)]
  have len: "length (bs_insert k (closing_tcp s)) = Suc (length (closing_tcp s))" using assms(3) by (simp add: bs_insert_def)
  have "ids_at (limits s) (table_sig (socket_table s)) (id_counters s)
      (keys (tcp_records s) (tcp_listeners s) (udp_records s)) (bs_insert k (closing_tcp s))"
    using at assms len by (auto simp: ids_at_def table_sig_def)
  then show ?thesis using assms(1) by (simp add: held_inv_def keep_at_def)
qed

lemma ids_woken [simp]: "ids (socket_table (woken ws s)) = ids (socket_table s)"
  using woken_frame(9) [of ws s] by (simp add: table_sig_def)

text \<open>A time at which the deadline of a close can be computed: always, in a build without overflow checks.\<close>

definition close_in_time :: "Env \<Rightarrow> instant \<Rightarrow> bool" where
  "close_in_time E now \<longleftrightarrow> instant_add (e_overflow_checks E) now (Duration_from_millis CLOSE_TIMEOUT_MILLIS) \<noteq> None"

lemma begin_graceful_close_spec:
  assumes ok: "close_in_time E now" and inv: "I0 s" and r: "tcp_record i s = Inr r" "phase r = Connected" and k: "si_id i \<notin> ids (socket_table s)"
    "si_id i \<notin> set (closing_tcp s)" "card (ids (socket_table s)) + length (closing_tcp s) < sockets (limits s)"
    "si_id i < next_socket_id (id_counters s)"
  shows "wp (begin_graceful_close E i r now) (\<lambda>_. I0) (\<lambda>_ _. False) s"
proof -
  obtain dl where dl: "instant_add (e_overflow_checks E) now (Duration_from_millis CLOSE_TIMEOUT_MILLIS) = Some dl"
    using ok by (auto simp: close_in_time_def)
  note get = conjunct1 [OF tcp_record_Inr [OF r(1)]]
  obtain sk where sk: "ss_get_tcp (socket_set s) (tr_handle r) = Some sk" using record_socket [OF inv r(1)] by auto
  let ?s1 = "woken (snd (sk_close sk)) (s\<lparr>socket_set := ss_put (tr_handle r) (NTcp (fst (sk_close sk))) (socket_set s)\<rparr>)"
  let ?r = "r\<lparr>close_deadline := Some dl\<rparr>"
  have i1: "I0 ?s1" using record_put [OF inv r(1) sk] by (simp add: socket_simps)
  have get1: "bt_get (tcp_records ?s1) (si_id i) = Some r" using get by simp
  have i2: "I0 (?s1\<lparr>tcp_records := bt_insert (si_id i) ?r (tcp_records ?s1)\<rparr>)"
    using inv_record(2) [OF i1 get1] r(2)
    by (intro inv_update_record [OF i1 get1]) (simp_all add: record_sig_def record_held_def record_ok_def early_def)
  have "I0 (?s1\<lparr>tcp_records := bt_insert (si_id i) ?r (tcp_records ?s1), closing_tcp := bs_insert (si_id i) (closing_tcp s)\<rparr>)"
    using inv_closing_insert [OF i2, of "si_id i"] k by simp
  then show ?thesis
    using r(1) by (simp add: begin_graceful_close_def wp_simps sk Let_def tcp_record_mut_def instant_plus_def dl)
qed


lemma abort_close_good:
  assumes eng: "engine_ok E" and inv: "I0 s" and r: "tcp_record i s = Inr r" and k: "si_id i \<notin> set (closing_tcp s)"
  shows "good I0 (bnd (wake_tcp (tr_handle r) sk_abort) (\<lambda>_.
     bnd (expect (drive E now None)) (\<lambda>effects.
     bnd (remove_tcp_socket r) (\<lambda>_. finish_call E () effects aborts)))) s"
proof -
  let ?K = "{(si_id i, record_sig r)}"
  have i1: "held_inv {#} {#} ?K s" by (rule inv_keep [OF inv conjunct1 [OF tcp_record_Inr [OF r]] k])
  have last: "good I0 (bnd (remove_tcp_socket r) (\<lambda>_. finish_call E () effects aborts)) s'" if kept: "held_inv {#} {#} ?K s'" for effects s'
  proof (rule good_bnd_wp)
    obtain r' where r': "bt_get (tcp_records s') (si_id i) = Some r'" "record_sig r' = record_sig r"
      using invD(3) [OF kept] by (auto simp: keep_at_def)
    have id: "tr_identity r = i" using tcp_record_Inr [OF r] by simp
    show "wp (remove_tcp_socket r) (\<lambda>_. good I0 (finish_call E () effects aborts)) (\<lambda>f s. f \<noteq> Panic \<and> I0 s) s'"
      by (rule wp_mono [OF remove_tcp_socket_spec [OF inv_drop [OF kept], of r r']])
        (use r' paired_ends_held [OF inv conjunct1 [OF tcp_record_Inr [OF r]]] in
          \<open>auto simp: record_sig_def id intro: good_finish\<close>)
  qed
  have drive: "good I0 (bnd (expect (drive E now None)) (\<lambda>effects.
     bnd (remove_tcp_socket r) (\<lambda>_. finish_call E () effects aborts))) s'" if "held_inv {#} {#} ?K s'" for s'
    by (rule good_bnd_wp, rule keeps_wp [OF keeps_expect [OF drive_runs [OF eng]] that]) (auto intro: last inv_drop)
  show ?thesis by (rule good_wake_tcp [OF i1 r]) (simp_all add: drive)
qed

lemma graceful_close_good:
  assumes eng: "engine_ok E" and time: "close_in_time E now" and "I0 s" and "tcp_record i s = Inr r" and "phase r = Connected" and "si_id i \<notin> ids (socket_table s)"
    "si_id i \<notin> set (closing_tcp s)" "card (ids (socket_table s)) + length (closing_tcp s) < sockets (limits s)"
    "si_id i < next_socket_id (id_counters s)"
  shows "good I0 (bnd (begin_graceful_close E i r now) (\<lambda>_.
     bnd (expect (drive E now None)) (\<lambda>effects. finish_call E () effects aborts))) s"
  by (rule good_bnd_wp, rule wp_mono [OF begin_graceful_close_spec [OF assms(2-9)]]) (auto intro!: good_intros eng)

lemma close_children_runs: "runs (held_inv x y {}) (close_children cs :: (NativeStack, 'e, PendingNotification list) prog)"
proof (induction cs)
  case (Cons c cs)
  have one: "wp (bnd (act (\<lambda>s. case table_close c (socket_table s) of (r, t) \<Rightarrow> (r, s\<lparr>socket_table := t\<rparr>))) (\<lambda>closed.
     bnd (gets (tcp_record c)) (\<lambda>r.
     bnd (case r of Inl _ \<Rightarrow> ret () | Inr r \<Rightarrow> bnd (remove_socket (tr_handle r)) (\<lambda>_. remove_tcp_record r)) (\<lambda>_.
     k closed)))) Q E s"
    if inv: "held_inv x y {} s" and k: "\<And>closed s'. held_inv x y {} s' \<Longrightarrow> wp (k closed) Q E s'" for s and k :: "_ \<Rightarrow> (_, _, 'c) prog" and Q E
  proof -
    obtain res t where close: "table_close c (socket_table s) = (res, t)" by fastforce
    have i1: "held_inv x y {} (s\<lparr>socket_table := t\<rparr>)" by (rule inv_table_close [OF inv close])
    show ?thesis
    proof (cases "tcp_record c s")
      case (Inl e)
      then show ?thesis using k [OF i1] by (simp add: wp_simps close)
    next
      case (Inr r)
      note rec = tcp_record_Inr [OF Inr]
      have "held_inv (add_mset (record_held r) x) y {} (forgotten r (s\<lparr>socket_table := t\<rparr>))"
        using rec by (intro forgotten_inv [OF i1]) simp_all
      from inv_remove_tcp [OF this [unfolded record_held_def]]
      show ?thesis using Inr paired_ends_held [OF inv conjunct1 [OF rec]] by (auto simp: wp_simps close intro!: k)
    qed
  qed
  show ?case
    unfolding close_children.simps
  proof (intro runsI one)
    fix closed s' assume "held_inv x y {} s'"
    then show "wp (bnd (close_children cs) (\<lambda>aborts.
        ret ((case closed of Inl _ \<Rightarrow> [] | Inr waiters \<Rightarrow> map (pending_of c) waiters) @ aborts)))
        (\<lambda>_. held_inv x y {}) (\<lambda>(_ :: 'e fault) _. False) s'"
      using Cons.IH by (simp add: wp_simps runs_def)
  qed
qed (simp add: runs_intros)

lemma remove_pool_spec:
  "held_inv (in_hand a b hs + x) y K s \<Longrightarrow> wp (each remove_socket hs) (\<lambda>_. held_inv x y K) (\<lambda>_ _. False) s"
proof (induction hs arbitrary: s)
  case (Cons h hs)
  from Cons.prems have "held_inv (add_mset (h, a, b) (in_hand a b hs + x)) y K s" by simp
  from inv_remove_tcp [OF this] Cons.IH show ?case by (simp add: wp_simps)
qed (simp add: wp_simps)

lemma listener_close_good:
  assumes eng: "engine_ok E" and inv: "I0 s" and l: "is_listener i s" and v: "validate (socket_table s) i Tcp = Inr e"
  shows "good I0 (tcp_listener_close E i now) s"
proof -
  obtain l where get: "bt_get (tcp_listeners s) (si_id i) = Some l" "lr_identity l = i"
    using l by (auto simp: is_listener_def split: option.splits)
  obtain ws t where close: "table_close i (socket_table s) = (Inr ws, t)" using validated_close [OF inv v] by auto
  let ?s = "s\<lparr>tcp_listeners := bt_remove (si_id i) (tcp_listeners s)\<rparr>"
  have "held_inv (listener_held l) {#} {} ?s" using inv_remove_listener(1) [OF inv get(1)] by simp
  from inv_table_close [OF this, of i "Inr ws" t] close
  have i1: "held_inv (in_hand (lr_rcvbuf l) (lr_sndbuf l) (pool l) + {#}) {#} {} (?s\<lparr>socket_table := t\<rparr>)"
    by (simp add: listener_held_def)
  have rest: "good I0 (bnd (close_children (accept_queue l)) (\<lambda>aborts.
      bnd (modify (\<lambda>s. s\<lparr>listener_scan_cursor := None, listener_scan_pending := (tcp_listeners s \<noteq> []),
                         listener_scan_resweep := False\<rparr>)) (\<lambda>_.
      bnd (expect (drive E now None)) (\<lambda>effects.
      finish_call E () effects (map (pending_of i) ws @ aborts))))) s'" if "I0 s'" for s'
    using that by (auto intro!: good_bnd_keeps [OF runs_keeps [OF close_children_runs]] good_modify good_intros eng)
  from remove_pool_spec [OF i1]
  have "wp (each remove_socket (pool l)) (\<lambda>_. good I0 (bnd (close_children (accept_queue l)) (\<lambda>aborts.
      bnd (modify (\<lambda>s. s\<lparr>listener_scan_cursor := None, listener_scan_pending := (tcp_listeners s \<noteq> []),
                         listener_scan_resweep := False\<rparr>)) (\<lambda>_.
      bnd (expect (drive E now None)) (\<lambda>effects.
      finish_call E () effects (map (pending_of i) ws @ aborts)))))) (\<lambda>f s. f \<noteq> Panic \<and> I0 s) (?s\<lparr>socket_table := t\<rparr>)"
    by (rule wp_mono) (auto intro: rest)
  then show ?thesis
    by (simp add: tcp_listener_close_def good_def [abs_def] wp_simps get on_table_def close)
qed

lemma tcp_close_keeps:
  assumes eng: "engine_ok E" and time: "close_in_time E now"
  shows "keeps I0 (tcp_close E i now)"
proof (rule keeps_good)
  fix s assume inv: "I0 s"
  have main: "good I0 (bnd (on_table (table_close i)) (\<lambda>waiters.
       bnd (if phase r = Connected then begin_graceful_close E i r now else wake_tcp (tr_handle r) sk_abort) (\<lambda>_.
       bnd (expect (drive E now None)) (\<lambda>effects.
       bnd (guarded (phase r \<noteq> Connected) (remove_tcp_socket r)) (\<lambda>_.
       finish_call E () effects (map (pending_of i) waiters)))))) s"
    if v: "validate (socket_table s) i Tcp = Inr e" and r: "tcp_record i s = Inr r" for e r
  proof -
    obtain ws t where close: "table_close i (socket_table s) = (Inr ws, t)" "si_id i \<notin> ids t" "si_id i \<notin> set (closing_tcp s)"
      "card (ids t) + length (closing_tcp s) < sockets (limits s)" "si_id i < next_socket_id (id_counters s)"
      using validated_close [OF inv v] by auto
    have i1: "I0 (s\<lparr>socket_table := t\<rparr>)" by (rule inv_table_close [OF inv close(1)])
    show ?thesis
      using graceful_close_good [OF eng time i1, of i r "map (pending_of i) ws"]
        abort_close_good [OF eng i1, of i r now "map (pending_of i) ws"] close r
      by (auto simp: good_def on_table_def wp_simps guarded_def)
  qed
  show "good I0 (tcp_close E i now) s"
    unfolding tcp_close_def by (auto intro!: good_intros inv main listener_close_good eng)
qed

end
