(* ===== verification/Stack_Udp.thy ===== *)
theory Stack_Udp
  imports Stack_Stream
begin

text \<open>
  The UDP operations of a stack (\<open>udp_open\<close> to \<open>udp_close\<close> of \<open>stack.rs\<close>). A socket bound to the
  unspecified address has one native socket for each address of its family.
\<close>

definition udp_open :: "Env \<Rightarrow> AddressFamily \<Rightarrow> SocketIdentity Envelope op" where
  "udp_open E family =
     bnd (ask ensure_running) (\<lambda>_.
     bnd (ask ensure_logical_socket_capacity) (\<lambda>_.
     bnd (ask (ensure_native_socket_capacity 1 0)) (\<lambda>_.
     bnd (ask (ensure_socket_buffer_capacity BUFFER_BYTES)) (\<lambda>_.
     bnd (add_socket (NUdp udp_socket)) (\<lambda>h.
     bnd (insert_entry Udp) (\<lambda>r.
     case r of
       Inl e \<Rightarrow> bnd (remove_socket h) (\<lambda>_. raise (Err e))
     | Inr i \<Rightarrow>
         bnd (modify (\<lambda>s. s\<lparr>udp_records := bt_insert (si_id i) (UdpRecord_new i h family) (udp_records s)\<rparr>)) (\<lambda>_.
         finish_call E i Effects_empty [])))))))"

fun bind_error :: "UdpBindError \<Rightarrow> SocketError" where
  "bind_error BindInvalidState = SE_InvalidState"
| "bind_error BindUnaddressable = SE_InvalidAddress"

text \<open>The additional sockets are built and bound before any of them is added.\<close>

fun bind_additional :: "nat \<Rightarrow> IpAddress list \<Rightarrow> (SocketError, UdpSocket list) result" where
  "bind_additional port [] = Inr []"
| "bind_additional port (a # as) =
     (case u_bind \<lparr>le_addr = Some a, le_port = port\<rparr> udp_socket of
        (Inl e, _) \<Rightarrow> Inl (bind_error e)
      | (Inr _, sk, _) \<Rightarrow> bind_res (bind_additional port as) (\<lambda>sks. Inr (sk # sks)))"

fun add_all :: "NativeSocket list \<Rightarrow> (NativeStack, 'e, SocketHandle list) prog" where
  "add_all [] = ret []"
| "add_all (sk # sks) = bnd (add_socket sk) (\<lambda>h. bnd (add_all sks) (\<lambda>hs. ret (h # hs)))"

definition bind_addresses :: "UdpRecord \<Rightarrow> ValidatedEndpoint \<Rightarrow> NativeStack \<Rightarrow> IpAddress list" where
  "bind_addresses r ep s =
     (if is_unspecified (ve_address ep)
      then filter (\<lambda>a. family_matches (ur_family r) a \<and> \<not> is_unspecified a) (map cidr_address (ip_addrs s))
      else [ve_address ep])"

definition udp_bind :: "Env \<Rightarrow> SocketIdentity \<Rightarrow> TcpEndpoint \<Rightarrow> unit Envelope op" where
  "udp_bind E i endpoint =
     bnd (ask ensure_running) (\<lambda>_.
     bnd (ask (\<lambda>s. validate (socket_table s) i Udp)) (\<lambda>_.
     bnd (liftr (bind_endpoint endpoint)) (\<lambda>ep.
     bnd (ask (udp_record i)) (\<lambda>r.
     if ur_local r \<noteq> None then raise (Err SE_InvalidState)
     else if \<not> family_matches (ur_family r) (ve_address ep) then raise (Err SE_InvalidAddress)
     else
       bnd (gets (has_ip_address (ve_address ep))) (\<lambda>have.
       if \<not> is_unspecified (ve_address ep) \<and> \<not> have then raise (Err SE_AddressNotAvailable)
       else
         bnd (if ve_port ep = 0 then allocate_udp_ephemeral_port (ur_family r)
              else
                bnd (gets (udp_port_in_use (ve_port ep) (ur_family r) (Some i))) (\<lambda>in_use.
                if in_use then raise (Err SE_AddressInUse) else ret (ve_port ep))) (\<lambda>port.
         let ep = ep\<lparr>ve_port := port\<rparr> in
         bnd (gets (bind_addresses r ep)) (\<lambda>addresses.
         case addresses of
           [] \<Rightarrow> raise (Err SE_AddressNotAvailable)
         | a # as \<Rightarrow>
             bnd (debug_assert (length (ur_handles r) = 1)) (\<lambda>_.
             bnd (unwrap (primary_handle r)) (\<lambda>primary.
             bnd (ask (ensure_native_socket_capacity (length as) 0)) (\<lambda>_.
             bnd (ask (ensure_socket_buffer_capacity (length as * BUFFER_BYTES))) (\<lambda>_.
             bnd (liftr (bind_additional port as)) (\<lambda>additional.
             bnd (on_udp primary (u_bind \<lparr>le_addr = Some a, le_port = port\<rparr>)) (\<lambda>bound.
             case bound of
               Inl e \<Rightarrow> raise (Err (bind_error e))
             | Inr _ \<Rightarrow>
                 bnd (add_all (map NUdp additional)) (\<lambda>hs.
                 bnd (gets (\<lambda>s. ss_count (socket_set s) \<le> sockets (limits s))) (\<lambda>within.
                 bnd (debug_assert within) (\<lambda>_.
                 bnd (udp_record_mut i (\<lambda>r. r\<lparr>ur_handles := primary # hs,
                        ur_local := Some ep, receive_cursor := 0\<rparr>)) (\<lambda>_.
                 finish_call E () Effects_empty [])))))))))))))))))"

definition udp_connect :: "Env \<Rightarrow> SocketIdentity \<Rightarrow> TcpEndpoint \<Rightarrow> unit Envelope op" where
  "udp_connect E i endpoint =
     bnd (ask ensure_running) (\<lambda>_.
     bnd (ask (\<lambda>s. validate (socket_table s) i Udp)) (\<lambda>_.
     bnd (liftr (remote_endpoint endpoint)) (\<lambda>rem.
     bnd (ask (udp_record i)) (\<lambda>r.
     if ur_local r = None then raise (Err SE_NotBound)
     else if \<not> family_matches (ur_family r) (ve_address rem) then raise (Err SE_InvalidAddress)
     else
       bnd (gets (reachable (ve_address rem))) (\<lambda>reach.
       if \<not> reach then raise (Err SE_NetworkUnreachable)
       else
         bnd (udp_record_mut i (\<lambda>r. r\<lparr>peer := Some rem\<rparr>)) (\<lambda>_.
         finish_call E () Effects_empty []))))))"

definition arm_udp_waiter ::
    "SocketIdentity \<Rightarrow> SocketHandle list \<Rightarrow> Direction \<Rightarrow> Operation \<Rightarrow> pid \<Rightarrow> reference \<Rightarrow> bool \<Rightarrow> unit op" where
  "arm_udp_waiter i handles dir operation p rf immediately_ready =
     bnd (ask (\<lambda>s. ready_flag (socket_table s) i Udp dir)) (\<lambda>key.
     bnd (on_table (install_waiter (registration i Udp operation dir p rf))) (\<lambda>_.
     bnd (each (\<lambda>h. on_udp h (\<lambda>sk. ((),
            case dir of Read \<Rightarrow> u_register_recv_waker key sk | Write \<Rightarrow> u_register_send_waker key sk, []))) handles) (\<lambda>_.
     guarded immediately_ready (wake [key]))))"

definition udp_sendto ::
    "Env \<Rightarrow> SocketIdentity \<Rightarrow> TcpEndpoint \<Rightarrow> bytes \<Rightarrow> pid \<Rightarrow> reference \<Rightarrow> instant \<Rightarrow> Answer Envelope op" where
  "udp_sendto E i endpoint data p rf now =
     bnd (ask ensure_running) (\<lambda>_.
     bnd (ask (\<lambda>s. validate (socket_table s) i Udp)) (\<lambda>_.
     bnd (ask (\<lambda>s. has_waiter (socket_table s) i Udp Write)) (\<lambda>waiting.
     if waiting then raise (Err SE_Busy)
     else
       bnd (liftr (remote_endpoint endpoint)) (\<lambda>rem.
       bnd (ask (udp_record i)) (\<lambda>r.
       case ur_local r of
         None \<Rightarrow> raise (Err SE_NotBound)
       | Some loc \<Rightarrow>
           if \<not> family_matches (ur_family r) (ve_address rem) then raise (Err SE_InvalidAddress)
           else if (case peer r of None \<Rightarrow> False | Some pr \<Rightarrow> pr \<noteq> rem) then raise (Err SE_InvalidState)
           else
             bnd (gets (\<lambda>s. s)) (\<lambda>s.
             if \<not> reachable (ve_address rem) s then raise (Err SE_NetworkUnreachable)
             else if max_datagram_bytes (mtu s) (ur_family r) < length data then raise (Err SE_MessageTooLarge)
             else
               bnd (if is_unspecified (ve_address loc)
                    then liftr (ok_or SE_NetworkUnreachable
                           (case e_source E (ip_addrs s) (ve_address rem) of
                              None \<Rightarrow> None
                            | Some a \<Rightarrow> if family_matches (ur_family r) a then Some a else None))
                    else ret (ve_address loc)) (\<lambda>source.
               bnd (unwrap (primary_handle r)) (\<lambda>primary.
               bnd (on_udp primary (\<lambda>sk.
                      case u_send_slice data \<lparr>um_endpoint = ip_endpoint rem, um_local_address = Some source\<rparr> sk of
                        (res, sk) \<Rightarrow> (res, sk, []))) (\<lambda>res.
               case res of
                 Inr _ \<Rightarrow>
                   bnd (expect (drive E now (Some (length data)))) (\<lambda>effects.
                   finish_call E A_ok effects [])
               | Inl SendBufferFull \<Rightarrow>
                   bnd (arm_udp_waiter i [primary] Write Sendto p rf False) (\<lambda>_.
                   bnd (expect (drive E now None)) (\<lambda>effects.
                   finish_call E (A_select Sendto rf) effects []))
               | Inl SendUnaddressable \<Rightarrow> raise (Err SE_InvalidAddress))))))))))"

section \<open>Receiving\<close>

type_synonym Datagram = "bytes \<times> EncodedEndpoint \<times> EncodedEndpoint \<times> bool \<times> nat"

definition accept_datagram ::
    "UdpRecord \<Rightarrow> ValidatedEndpoint \<Rightarrow> nat \<Rightarrow> UdpMetadata \<Rightarrow> bytes \<Rightarrow> Datagram option" where
  "accept_datagram r loc len m payload =
     (let destination = (case um_local_address m of None \<Rightarrow> ve_address loc | Some a \<Rightarrow> a);
          matching_family = (family_matches (ur_family r) (ip_addr (um_endpoint m)) \<and>
                             family_matches (ur_family r) destination);
          matching_peer = (case peer r of None \<Rightarrow> True | Some pr \<Rightarrow> ip_endpoint pr = um_endpoint m)
      in if matching_family \<and> matching_peer then
           let copied = (if len = 0 then length payload else min len (length payload))
           in Some (take copied payload,
                    EncodedEndpoint_new (um_endpoint m) (ve_scope_id loc),
                    EncodedEndpoint_new \<lparr>ip_addr = destination, ip_port = ve_port loc\<rparr> (ve_scope_id loc),
                    copied < length payload, copied)
         else None)"

text \<open>Datagrams of one native socket are inspected until one is accepted, none is left or the limit
  is reached; \<open>n\<close> is what the limit leaves.\<close>

fun receive_from ::
    "UdpRecord \<Rightarrow> ValidatedEndpoint \<Rightarrow> nat \<Rightarrow> SocketHandle \<Rightarrow> nat \<Rightarrow> (NativeStack, 'e, Datagram option \<times> nat) prog" where
  "receive_from r loc len h 0 = ret (None, 0)"
| "receive_from r loc len h (Suc n) =
     bnd (on_udp h (\<lambda>sk. case u_recv sk of (res, sk) \<Rightarrow> (res, sk, []))) (\<lambda>res.
     case res of
       Inl Panic \<Rightarrow> raise Panic
     | Inl (Err _) \<Rightarrow> ret (None, Suc n)
     | Inr (m, payload) \<Rightarrow>
         (case accept_datagram r loc len m payload of
            Some d \<Rightarrow> ret (Some d, n)
          | None \<Rightarrow> receive_from r loc len h n))"

text \<open>The native sockets are visited from the receive cursor on. The result is the datagram and the
  next cursor.\<close>

fun receive_loop ::
    "UdpRecord \<Rightarrow> ValidatedEndpoint \<Rightarrow> nat \<Rightarrow> nat \<Rightarrow> nat list \<Rightarrow> nat \<Rightarrow> (NativeStack, 'e, Datagram option \<times> nat) prog" where
  "receive_loop r loc len cursor [] n = ret (None, cursor)"
| "receive_loop r loc len cursor (idx # idxs) n =
     bnd (receive_from r loc len (ur_handles r ! idx) n) (\<lambda>(d, n).
     if d \<noteq> None \<or> n = 0 then ret (d, (idx + 1) mod length (ur_handles r))
     else receive_loop r loc len cursor idxs n)"

fun any_udp :: "(UdpSocket \<Rightarrow> bool) \<Rightarrow> SocketHandle list \<Rightarrow> (NativeStack, 'e, bool) prog" where
  "any_udp P [] = ret False"
| "any_udp P (h # hs) = bnd (get_udp h) (\<lambda>sk. if P sk then ret True else any_udp P hs)"

definition udp_recvfrom :: "Env \<Rightarrow> SocketIdentity \<Rightarrow> nat \<Rightarrow> pid \<Rightarrow> reference \<Rightarrow> instant \<Rightarrow> Answer Envelope op" where
  "udp_recvfrom E i len p rf now =
     bnd (ask ensure_running) (\<lambda>_.
     bnd (ask (\<lambda>s. validate (socket_table s) i Udp)) (\<lambda>_.
     bnd (ask (\<lambda>s. has_waiter (socket_table s) i Udp Read)) (\<lambda>waiting.
     if waiting then raise (Err SE_Busy)
     else
       bnd (ask (udp_record i)) (\<lambda>r.
       bnd (liftr (ok_or SE_NotBound (ur_local r))) (\<lambda>loc.
       let count = length (ur_handles r); first = receive_cursor r mod count in
       bnd (if count = 0 then raise Panic else ret ()) (\<lambda>_.
       bnd (receive_loop r loc len first (map (\<lambda>offset. (first + offset) mod count) [0..<count]) PACKET_CAPACITY)
         (\<lambda>(received, cursor).
       bnd (udp_record_mut i (\<lambda>r. r\<lparr>receive_cursor := cursor\<rparr>)) (\<lambda>_.
       case received of
         Some (data, source, destination, truncated, copied) \<Rightarrow>
           bnd (expect (drive E now (Some copied))) (\<lambda>effects.
           finish_call E (A_datagram source destination data truncated) effects [])
       | None \<Rightarrow>
           bnd (any_udp u_can_recv (ur_handles r)) (\<lambda>immediately_ready.
           bnd (arm_udp_waiter i (ur_handles r) Read Recvfrom p rf immediately_ready) (\<lambda>_.
           bnd (expect (drive E now None)) (\<lambda>effects.
           finish_call E (A_select Recvfrom rf) effects [])))))))))))"

section \<open>Names and closing\<close>

definition udp_sockname :: "Env \<Rightarrow> SocketIdentity \<Rightarrow> EncodedEndpoint Envelope op" where
  "udp_sockname E i =
     bnd (ask ensure_running) (\<lambda>_.
     bnd (ask (\<lambda>s. validate (socket_table s) i Udp)) (\<lambda>_.
     bnd (ask (udp_record i)) (\<lambda>r.
     bnd (liftr (ok_or SE_NotBound (ur_local r))) (\<lambda>loc.
     finish_call E (EncodedEndpoint_new (ip_endpoint loc) (ve_scope_id loc)) Effects_empty []))))"

definition udp_peername :: "Env \<Rightarrow> SocketIdentity \<Rightarrow> EncodedEndpoint Envelope op" where
  "udp_peername E i =
     bnd (ask ensure_running) (\<lambda>_.
     bnd (ask (\<lambda>s. validate (socket_table s) i Udp)) (\<lambda>_.
     bnd (ask (udp_record i)) (\<lambda>r.
     bnd (liftr (ok_or SE_NotConnected (peer r))) (\<lambda>pr.
     finish_call E (EncodedEndpoint_new (ip_endpoint pr) (ve_scope_id pr)) Effects_empty []))))"

definition udp_close :: "Env \<Rightarrow> SocketIdentity \<Rightarrow> instant \<Rightarrow> unit Envelope op" where
  "udp_close E i now =
     bnd (ask ensure_running) (\<lambda>_.
     bnd (ask (\<lambda>s. validate (socket_table s) i Udp)) (\<lambda>_.
     bnd (ask (udp_record i)) (\<lambda>r.
     bnd (on_table (table_close i)) (\<lambda>waiters.
     bnd (each remove_socket (ur_handles r)) (\<lambda>_.
     bnd (modify (\<lambda>s. s\<lparr>udp_records := bt_remove (si_id i) (udp_records s)\<rparr>)) (\<lambda>_.
     bnd (expect (drive E now None)) (\<lambda>effects.
     finish_call E () effects (map (pending_of i) waiters))))))))"

end
