(* ===== verification/Udp_Invariant.thy ===== *)
theory Udp_Invariant
  imports Tcp_Lifecycle Stack_Udp
begin

text \<open>
  The UDP operations keep the invariant and never panic: the datagram buffers stay well formed through
  sends and receives, the native sockets of a bound socket are owned by its record, and a failed bind
  leaves nothing behind.
\<close>

section \<open>Statements on the sockets of a record\<close>

definition keeps_udp :: "(UdpSocket \<Rightarrow> UdpSocket) \<Rightarrow> bool" where
  "keeps_udp f \<longleftrightarrow> (\<forall>sk. native_wf (NUdp sk) \<longrightarrow> native_wf (NUdp (f sk)))"

lemma keeps_udp_register [simp]: "keeps_udp (u_register_recv_waker key)" "keeps_udp (u_register_send_waker key)"
  by (simp_all add: keeps_udp_def native_wf.simps u_register_recv_waker_def u_register_send_waker_def)

lemma keeps_udp_bind [simp]: "keeps_udp (\<lambda>sk. fst (snd (u_bind ep sk)))"
  by (simp add: keeps_udp_def native_wf.simps u_bind_def)

lemma keeps_udp_send [simp]: "keeps_udp (\<lambda>sk. snd (u_send_slice data m sk))"
proof -
  have "native_wf (NUdp (snd (u_send_slice data m sk)))" if wf: "native_wf (NUdp sk)" for sk
  proof -
    obtain ok b where run: "pb_enqueue data m (u_tx_buffer sk) = (ok, b)" by fastforce
    then show ?thesis
      using pb_enqueue_spec [OF _ run] wf by (cases ok) (simp_all add: u_send_slice_def native_wf.simps)
  qed
  then show ?thesis by (simp add: keeps_udp_def)
qed

lemma keeps_udp_recv [simp]: "keeps_udp (\<lambda>sk. snd (u_recv sk))"
proof -
  have "native_wf (NUdp (snd (u_recv sk)))" if wf: "native_wf (NUdp sk)" for sk
  proof -
    obtain r b where run: "pb_dequeue (u_rx_buffer sk) = (r, b)" by fastforce
    then show ?thesis
      using pb_dequeue_spec [OF _ run] wf by (simp add: u_recv_def native_wf.simps)
  qed
  then show ?thesis by (simp add: keeps_udp_def)
qed

lemma u_recv_no_panic: "native_wf (NUdp sk) \<Longrightarrow> fst (u_recv sk) \<noteq> Inl Panic"
proof -
  assume wf: "native_wf (NUdp sk)"
  obtain r b where run: "pb_dequeue (u_rx_buffer sk) = (r, b)" by fastforce
  then show ?thesis
    using pb_dequeue_spec [OF _ run] wf by (auto simp: u_recv_def native_wf.simps split: list.splits)
qed

lemma udp_socket_wf: "native_wf (NUdp udp_socket)"
  using pb_new_spec(1) by (simp add: udp_socket_def UdpSocket_new_def native_wf.simps Let_def pb_size_def PacketBuffer_new_def RingBuffer_new_def capacity_def)

lemma udp_record_Inr: "udp_record i s = Inr u \<Longrightarrow> bt_get (udp_records s) (si_id i) = Some u \<and> ur_identity u = i"
  by (auto simp: udp_record_def split: if_splits option.splits)

lemma udp_record_frame [simp]:
  "udp_record i (woken ws s) = udp_record i s" "udp_record i (s\<lparr>socket_set := ss\<rparr>) = udp_record i s"
  "udp_record i (s\<lparr>socket_table := t\<rparr>) = udp_record i s" "udp_record i (s\<lparr>next_udp_ephemeral_port := n\<rparr>) = udp_record i s"
  by (simp_all add: udp_record_def)

lemma udp_handles:
  assumes "held_inv x y K s" and "udp_record i s = Inr u"
  shows "udp_ok (si_id i) u" and "\<exists>h. primary_handle u = Some h \<and> h \<in> set (ur_handles u)" and "0 < length (ur_handles u)"
    and "h \<in> set (ur_handles u) \<Longrightarrow> \<exists>sk. ss_get_udp (socket_set s) h = Some sk \<and> native_wf (NUdp sk)"
  using inv_udp [OF assms(1) conjunct1 [OF udp_record_Inr [OF assms(2)]]]
  by (auto simp: udp_ok_def primary_handle_def split: list.splits)

lemma good_primary:
  assumes "I0 s" and "udp_record i s = Inr u"
    and "\<And>h. primary_handle u = Some h \<Longrightarrow> h \<in> set (ur_handles u) \<Longrightarrow> good I0 (k h) s"
  shows "good I0 (bnd (unwrap (primary_handle u)) k) s"
  using udp_handles(2) [OF assms(1,2)] assms(3) by (auto simp: good_def wp_simps)

lemma good_debug_assert: "c \<Longrightarrow> good I (k ()) s \<Longrightarrow> good I (bnd (debug_assert c) k) s"
  by (simp add: good_def wp_simps)

lemma good_one_handle:
  assumes "I0 s" and "udp_record i s = Inr u" and "ur_local u = None" and "good I0 (k ()) s"
  shows "good I0 (bnd (debug_assert (length (ur_handles u) = 1)) k) s"
  using udp_handles(1) [OF assms(1,2)] assms(3,4) by (intro good_debug_assert) (simp_all add: udp_ok_def)

lemma inv_count: "held_inv x y K s \<Longrightarrow> ss_count (socket_set s) \<le> sockets (limits s)"
  by (simp add: held_inv_def own_at_def)

text \<open>A statement on a socket of the record: the state is of the invariant and has the record still.\<close>

abbreviation with_udp :: "SocketIdentity \<Rightarrow> UdpRecord \<Rightarrow> NativeStack \<Rightarrow> bool" where
  "with_udp i u s \<equiv> I0 s \<and> udp_record i s = Inr u"

lemma wp_on_udp_kept:
  assumes "with_udp i u s" and "h \<in> set (ur_handles u)" and "keeps_udp (\<lambda>sk. fst (snd (f sk)))"
    and "\<And>sk s'. native_wf (NUdp sk) \<Longrightarrow> with_udp i u s' \<Longrightarrow> Q (fst (f sk)) s'"
  shows "wp (on_udp h f) Q E s"
proof -
  obtain sk where sk: "ss_get_udp (socket_set s) h = Some sk" "native_wf (NUdp sk)"
    using udp_handles(4) [of "{#}" "{#}" "{}" s i u h] assms(1,2) by auto
  obtain r sk' ws where f: "f sk = (r, sk', ws)" by (metis surj_pair)
  have "native_wf (NUdp sk')" using assms(3) sk(2) f by (auto simp: keeps_udp_def dest: spec [of _ sk])
  then have "I0 (s\<lparr>socket_set := ss_put h (NUdp sk') (socket_set s)\<rparr>)"
    using assms(1) sk by (intro inv_put_udp) auto
  then show ?thesis using assms(1) assms(4) [OF sk(2)] f by (simp add: wp_simps sk(1))
qed

lemma good_on_udp:
  assumes "I0 s" and "udp_record i s = Inr u" and "h \<in> set (ur_handles u)" and "keeps_udp (\<lambda>sk. fst (snd (f sk)))"
    and "\<And>sk s'. I0 s' \<Longrightarrow> udp_record i s' = Inr u \<Longrightarrow> good I0 (k (fst (f sk))) s'"
  shows "good I0 (bnd (on_udp h f) k) s"
  using assms by (intro good_bnd_wp wp_on_udp_kept [where i = i and u = u]) auto

lemma good_udp_mut:
  assumes "I0 s" and "udp_record i s = Inr u" and "ur_handles (f u) = ur_handles u" and "ur_identity (f u) = ur_identity u"
    and "ur_local (f u) = None \<longrightarrow> ur_local u = None" and "\<And>s'. I0 s' \<Longrightarrow> udp_record i s' = Inr (f u) \<Longrightarrow> good I0 (k ()) s'"
  shows "good I0 (bnd (udp_record_mut i f) k) s"
proof -
  note get = udp_record_Inr [OF assms(2)]
  let ?s = "s\<lparr>udp_records := bt_insert (si_id i) (f u) (udp_records s)\<rparr>"
  have "udp_ok (si_id i) (f u)" using udp_handles(1) [OF assms(1,2)] assms(3-5) by (simp add: udp_ok_def)
  then have "I0 ?s"
    by (intro inv_update_udp [where y' = "{#}" and y = "{#}", OF _ conjunct1 [OF get]]) (use assms(1,3) in simp_all)
  moreover have "udp_record i ?s = Inr (f u)" using get assms(4) invD(7) [OF assms(1)] by (simp add: udp_record_def)
  ultimately show ?thesis using assms(2,6) by (simp add: good_def wp_simps udp_record_mut_def)
qed

lemma good_arm_udp:
  assumes inv: "I0 s" and u: "udp_record i s = Inr u" and hs: "set hs \<subseteq> set (ur_handles u)"
    and k: "\<And>s'. I0 s' \<Longrightarrow> udp_record i s' = Inr u \<Longrightarrow> good I0 (k ()) s'"
  shows "good I0 (bnd (arm_udp_waiter i hs dir op p rf b) k) s"
  unfolding arm_udp_waiter_def
proof (intro good_bnd_assoc good_ask, rule inv, rule good_on_table [OF sig_install inv], assumption, assumption)
  fix key v t assume "I0 (s\<lparr>socket_table := t\<rparr>)"
  then have start: "with_udp i u (s\<lparr>socket_table := t\<rparr>)" using u by simp
  let ?f = "\<lambda>h. on_udp h (\<lambda>sk. ((), case dir of Read \<Rightarrow> u_register_recv_waker key sk | Write \<Rightarrow> u_register_send_waker key sk, []))"
  have step: "wp (?f h) (\<lambda>_. with_udp i u) (\<lambda>_ _. False) s'" if "h \<in> set hs" "with_udp i u s'" for h s'
    using that hs by (intro wp_on_udp_kept [where i = i and u = u]) (auto, cases dir, simp_all)
  have "wp (each ?f hs) (\<lambda>_ s'. good I0 (bnd (guarded b (wake [key])) k) s') (\<lambda>f s. f \<noteq> Panic \<and> I0 s) (s\<lparr>socket_table := t\<rparr>)"
  proof (rule wp_mono [OF wp_each [OF start step]])
    fix s' assume "with_udp i u s'"
    then show "good I0 (bnd (guarded b (wake [key])) k) s'"
      using k [of s'] k [of "woken [key] s'"] by (simp add: good_def wp_simps)
  qed simp_all
  then show "good I0 (bnd (bnd (each ?f hs) (\<lambda>_. guarded b (wake [key]))) k) (s\<lparr>socket_table := t\<rparr>)"
    by (intro good_bnd_assoc good_bnd_wp)
qed

section \<open>Opening and binding\<close>

lemma udp_open_keeps: "keeps I0 (udp_open E fam)"
proof (rule keeps_good)
  fix s assume inv: "I0 s"
  have main: "good I0 (bnd (add_socket (NUdp udp_socket)) (\<lambda>h. bnd (insert_entry Udp) (\<lambda>r.
       case r of
         Inl e \<Rightarrow> bnd (remove_socket h) (\<lambda>_. raise (Err e))
       | Inr i \<Rightarrow>
           bnd (modify (\<lambda>s. s\<lparr>udp_records := bt_insert (si_id i) (UdpRecord_new i h fam) (udp_records s)\<rparr>)) (\<lambda>_.
           finish_call E i Effects_empty [])))) s"
    if room: "ensure_logical_socket_capacity s = Inr u1" "ensure_native_socket_capacity 1 0 s = Inr u2"
      "ensure_socket_buffer_capacity BUFFER_BYTES s = Inr u3" for u1 u2 u3
  proof -
    obtain h ss where add: "ss_add (NUdp udp_socket) (socket_set s) = (h, ss)" by fastforce
    have i1: "held_inv {#} {#h#} {} (s\<lparr>socket_set := ss\<rparr>)"
      using inv_add_udp [OF inv add udp_socket_wf] ensure_native_Inr [OF room(2)] ensure_buffer_Inr [OF room(3)]
        native_bytes_inv [OF inv] by simp
    show ?thesis
    proof (rule good_bnd_wp, simp only: wp_add_socket add prod.case, rule good_bnd_wp,
        rule wp_mono [OF insert_entry_spec [OF i1]], goal_cases)
      case 1
      then show ?case using ensure_logical_Inr [OF room(1)] by simp
    next
      case (2 r s1)
      then obtain t c where s1: "s1 = s\<lparr>socket_set := ss, socket_table := t, id_counters := c\<rparr>" and i2: "held_inv {#} {#h#} {} s1"
        by auto
      show ?case
      proof (cases r)
        case (Inl e)
        then show ?thesis using inv_remove_udp_socket [OF i2] by (simp add: good_def wp_simps)
      next
        case (Inr i)
        have id: "si_id i = next_socket_id (id_counters s)" "si_id i < next_socket_id (id_counters s1)" using 2 Inr by auto
        have "held_inv {#} {#} {} (s1\<lparr>udp_records := bt_insert (si_id i) (UdpRecord_new i h fam) (udp_records s1)\<rparr>)"
          using inv_fresh_id(3) [OF inv] id i2
          by (intro inv_insert_udp) (auto simp: s1 UdpRecord_new_def udp_ok_def)
        then show ?thesis using Inr by (auto intro!: good_modify good_intros)
      qed
    qed simp
  qed
  show "good I0 (udp_open E fam) s"
    unfolding udp_open_def using inv by (auto intro!: good_intros main)
qed

lemma bind_additional_wf:
  "bind_additional port as = Inr sks \<Longrightarrow> length sks = length as \<and> (\<forall>sk \<in> set sks. native_wf (NUdp sk))"
proof (induction as arbitrary: sks)
  case (Cons a as)
  obtain r sk ws where bind: "u_bind \<lparr>le_addr = Some a, le_port = port\<rparr> udp_socket = (r, sk, ws)" by (metis surj_pair)
  have "native_wf (NUdp sk)"
    using keeps_udp_bind [unfolded keeps_udp_def, rule_format, OF udp_socket_wf, of "\<lparr>le_addr = Some a, le_port = port\<rparr>"] bind by simp
  then show ?case
    using Cons.prems Cons.IH bind by (auto simp: bind_res_def split: sum.splits)
qed simp

lemma add_all_udp_spec:
  assumes "held_inv x y K s" and "\<forall>sk \<in> set sks. native_wf (NUdp sk)" and "ss_count (socket_set s) + length sks \<le> sockets (limits s)"
    and "native_bytes (socket_set s) + length sks * BUFFER_BYTES \<le> MAX_SOCKET_BUFFER_BYTES"
  shows "wp (add_all (map NUdp sks) :: (NativeStack, 'e, SocketHandle list) prog)
    (\<lambda>hs s'. length hs = length sks \<and> held_inv x (mset hs + y) K s' \<and> (\<exists>ss. s' = s\<lparr>socket_set := ss\<rparr>)) (\<lambda>_ _. False) s"
  using assms
proof (induction sks arbitrary: s y)
  case Nil
  then show ?case by (auto simp: wp_simps intro: exI [of _ "socket_set s"])
next
  case (Cons sk sks)
  obtain h ss where add: "ss_add (NUdp sk) (socket_set s) = (h, ss)" by fastforce
  let ?s = "s\<lparr>socket_set := ss\<rparr>"
  have i1: "held_inv x (add_mset h y) K ?s"
    using Cons.prems by (intro inv_add_udp [OF Cons.prems(1) add]) simp_all
  have more: "ss_count ss = Suc (ss_count (socket_set s))" "native_bytes ss = BUFFER_BYTES + native_bytes (socket_set s)"
    using live_add_udp [OF add] by (simp_all add: ss_count_live native_bytes_def)
  have "wp (add_all (map NUdp sks) :: (NativeStack, 'e, SocketHandle list) prog)
    (\<lambda>hs s'. length hs = length sks \<and> held_inv x (mset hs + add_mset h y) K s' \<and> (\<exists>ss. s' = ?s\<lparr>socket_set := ss\<rparr>)) (\<lambda>(_ :: 'e fault) _. False) ?s"
    using Cons.prems more by (intro Cons.IH i1) simp_all
  then have "wp (add_all (map NUdp sks) :: (NativeStack, 'e, SocketHandle list) prog)
    (\<lambda>hs s'. length (h # hs) = length (sk # sks) \<and> held_inv x (mset (h # hs) + y) K s' \<and> (\<exists>ss. s' = s\<lparr>socket_set := ss\<rparr>)) (\<lambda>(_ :: 'e fault) _. False) ?s"
    by (rule wp_mono) auto
  then show ?case by (simp add: wp_simps add)
qed


lemma udp_bind_good:
  assumes inv: "I0 s" and u: "udp_record i s = Inr u" and loc: "ur_local u = None"
    and prim: "primary_handle u = Some primary"
    and room: "ensure_native_socket_capacity (length as) 0 s = Inr u1"
      "ensure_socket_buffer_capacity (length as * BUFFER_BYTES) s = Inr u2"
    and more: "bind_additional port as = Inr sks"
  shows "good I0 (bnd (on_udp (primary) (u_bind ep)) (\<lambda>bound.
     case bound of
       Inl e \<Rightarrow> raise (Err (bind_error e))
     | Inr _ \<Rightarrow>
         bnd (add_all (map NUdp sks)) (\<lambda>hs.
         bnd (gets (\<lambda>s. ss_count (socket_set s) \<le> sockets (limits s))) (\<lambda>within.
         bnd (debug_assert within) (\<lambda>_.
         bnd (udp_record_mut i (\<lambda>r. r\<lparr>ur_handles := primary # hs,
                ur_local := Some loc', receive_cursor := 0\<rparr>)) (\<lambda>_.
         finish_call E () Effects_empty [])))))) s"
proof -
  note sks = bind_additional_wf [OF more]
  obtain sk where sk: "ss_get_udp (socket_set s) (primary) = Some sk" "native_wf (NUdp sk)"
    using udp_handles(2,4) [OF inv u] prim by auto
  obtain b sk' ws where bind: "u_bind ep sk = (b, sk', ws)" by (metis surj_pair)
  have wf': "native_wf (NUdp sk')" using keeps_udp_bind [unfolded keeps_udp_def, rule_format, OF sk(2), of ep] bind by simp
  let ?s = "woken ws (s\<lparr>socket_set := ss_put (primary) (NUdp sk') (socket_set s)\<rparr>)"
  have i1: "I0 ?s" using inv_put_udp [OF inv sk(1) wf'] by simp
  have bytes: "native_bytes (socket_set ?s) = native_bytes (socket_set s)" "ss_count (socket_set ?s) = ss_count (socket_set s)"
    using live_udp_put [OF sk(1), of sk'] by (simp_all add: native_bytes_def ss_count_live)
  have pool: "wp (add_all (map NUdp sks))
    (\<lambda>hs s'. length hs = length sks \<and> held_inv {#} (mset hs + {#}) {} s' \<and> (\<exists>ss. s' = ?s\<lparr>socket_set := ss\<rparr>)) (\<lambda>_ _. False) ?s"
    using sks ensure_native_Inr [OF room(1)] ensure_buffer_Inr [OF room(2)] native_bytes_inv [OF inv] bytes
    by (intro add_all_udp_spec [OF i1]) simp_all
  have last: "good I0 (bnd (udp_record_mut i (\<lambda>r. r\<lparr>ur_handles := primary # hs,
      ur_local := Some loc', receive_cursor := 0\<rparr>)) (\<lambda>_. finish_call E () Effects_empty [])) s'"
    if s': "held_inv {#} (mset hs) {} s'" "s' = ?s\<lparr>socket_set := ss\<rparr>" for hs s' ss
  proof -
    let ?u = "u\<lparr>ur_handles := primary # hs, ur_local := Some loc', receive_cursor := 0\<rparr>"
    note get = udp_record_Inr [OF u]
    have one: "ur_handles u = [primary]"
      using udp_handles(1) [OF inv u] loc prim by (auto simp: udp_ok_def primary_handle_def length_Suc_conv)
    have "udp_record i s' = Inr u" "udp_records s' = udp_records s" using u by (simp_all add: s'(2))
    moreover have "I0 (s'\<lparr>udp_records := bt_insert (si_id i) ?u (udp_records s')\<rparr>)"
      using s'(1) get one by (intro inv_update_udp [where y' = "mset hs" and y = "{#}" and u = u])
        (simp_all add: s'(2) udp_ok_def)
    ultimately show ?thesis
      by (simp add: udp_record_mut_def good_def wp_simps keeps_wp [OF keeps_finish])
  qed
  have ok: "good I0 (bnd (add_all (map NUdp sks)) (\<lambda>hs.
         bnd (gets (\<lambda>s. ss_count (socket_set s) \<le> sockets (limits s))) (\<lambda>within.
         bnd (debug_assert within) (\<lambda>_.
         bnd (udp_record_mut i (\<lambda>r. r\<lparr>ur_handles := primary # hs,
                ur_local := Some loc', receive_cursor := 0\<rparr>)) (\<lambda>_.
         finish_call E () Effects_empty []))))) ?s"
    by (rule good_bnd_wp, rule wp_mono [OF pool]) (auto intro!: good_intros good_debug_assert last dest: inv_count)
  then show ?thesis
    using i1 by (cases b) (simp_all add: good_def wp_simps sk(1) bind)
qed



lemma good_udp_port:
  assumes "I0 s" and "udp_record i s = Inr u"
    and "\<And>port s'. I0 s' \<Longrightarrow> udp_record i s' = Inr u \<Longrightarrow> good I0 (k port) s'"
  shows "good I0 (bnd (allocate_udp_ephemeral_port fam) k) s"
  unfolding allocate_udp_ephemeral_port_def
  by (intro good_bnd_assoc good_ask good_modify good_bnd_ret) (use assms in auto)

lemma good_case_list [good_intros]:
  "(xs = [] \<Longrightarrow> good I m s) \<Longrightarrow> (\<And>y ys. xs = y # ys \<Longrightarrow> good I (n y ys) s) \<Longrightarrow> good I (case xs of [] \<Rightarrow> m | y # ys \<Rightarrow> n y ys) s"
  by (cases xs) simp_all

lemma udp_bind_keeps: "keeps I0 (udp_bind E i ep)"
  unfolding udp_bind_def
  by (rule keeps_good) (auto intro!: good_intros good_udp_port good_one_handle good_primary udp_bind_good)

lemma udp_connect_keeps: "keeps I0 (udp_connect E i ep)"
  unfolding udp_connect_def
  by (rule keeps_good) (auto intro!: good_intros good_udp_mut)

section \<open>Sending and receiving\<close>

lemma udp_sendto_keeps:
  assumes "engine_ok E"
  shows "keeps I0 (udp_sendto E i ep data p rf now)"
  unfolding udp_sendto_def
  by (rule keeps_good)
    (auto intro!: good_intros good_primary good_on_udp good_arm_udp assms simp: case_prod_beta split: UdpSendError.splits)

lemma receive_from_spec:
  assumes "with_udp i u s" and "h \<in> set (ur_handles u)"
  shows "wp (receive_from u loc len h n :: (NativeStack, 'e, Datagram option \<times> nat) prog) (\<lambda>_. with_udp i u) (\<lambda>_ _. False) s"
  using assms(1)
proof (induction n arbitrary: s)
  case (Suc n)
  have "wp (on_udp h (\<lambda>sk. case u_recv sk of (res, sk) \<Rightarrow> (res, sk, [])) :: (NativeStack, 'e, _) prog)
    (\<lambda>res. wp (case res of
       Inl Panic \<Rightarrow> raise Panic
     | Inl (Err _) \<Rightarrow> ret (None, Suc n)
     | Inr (m, payload) \<Rightarrow>
         (case accept_datagram u loc len m payload of
            Some d \<Rightarrow> ret (Some d, n)
          | None \<Rightarrow> receive_from u loc len h n)) (\<lambda>_. with_udp i u) (\<lambda>(_ :: 'e fault) _. False)) (\<lambda>_ _. False) s"
  proof (rule wp_on_udp_kept [OF Suc.prems assms(2)], goal_cases)
    case (2 sk s')
    then show ?case
      using u_recv_no_panic [of sk] Suc.IH [of s']
      by (auto simp: case_prod_beta wp_simps split: sum.splits fault.splits option.splits)
  qed (simp add: case_prod_beta)
  then show ?case by (simp add: wp_simps)
qed (simp add: wp_simps)

lemma receive_loop_spec:
  assumes "with_udp i u s" and "\<forall>idx \<in> set idxs. idx < length (ur_handles u)"
  shows "wp (receive_loop u loc len cursor idxs n :: (NativeStack, 'e, Datagram option \<times> nat) prog) (\<lambda>_. with_udp i u) (\<lambda>_ _. False) s"
  using assms
proof (induction idxs arbitrary: s n)
  case (Cons idx idxs)
  have "wp (receive_from u loc len (ur_handles u ! idx) n :: (NativeStack, 'e, _) prog) (\<lambda>r. wp (case r of (d, n) \<Rightarrow>
     if d \<noteq> None \<or> n = 0 then ret (d, (idx + 1) mod length (ur_handles u))
     else receive_loop u loc len cursor idxs n) (\<lambda>_. with_udp i u) (\<lambda>(_ :: 'e fault) _. False)) (\<lambda>_ _. False) s"
    by (rule wp_mono [OF receive_from_spec [OF Cons.prems(1)]]) (use Cons in \<open>auto simp: wp_simps\<close>)
  then show ?case by (simp add: wp_simps)
qed (simp add: wp_simps)

lemma any_udp_spec:
  "\<forall>h \<in> set hs. \<exists>sk. ss_get_udp (socket_set s) h = Some sk \<Longrightarrow> wp (any_udp P hs) (\<lambda>_ s'. s' = s) (\<lambda>_ _. False) s"
  by (induction hs) (auto simp: wp_simps)

lemma good_any_udp:
  assumes "I0 s" and "udp_record i s = Inr u" and "set hs \<subseteq> set (ur_handles u)" and "\<And>b. good I0 (k b) s"
  shows "good I0 (bnd (any_udp P hs) k) s"
  by (rule good_bnd_wp, rule wp_mono [OF any_udp_spec]) (use assms udp_handles(4) [OF assms(1,2)] in blast)+

lemma good_receive_loop:
  assumes "I0 s" and "udp_record i s = Inr u" and "\<forall>idx \<in> set idxs. idx < length (ur_handles u)"
    and "\<And>r s'. I0 s' \<Longrightarrow> udp_record i s' = Inr u \<Longrightarrow> good I0 (k r) s'"
  shows "good I0 (bnd (receive_loop u loc len cursor idxs n) k) s"
  by (rule good_bnd_wp, rule wp_mono [OF receive_loop_spec [where i = i]]) (use assms in auto)

lemma udp_recvfrom_keeps:
  assumes "engine_ok E"
  shows "keeps I0 (udp_recvfrom E i len p rf now)"
  unfolding udp_recvfrom_def
  by (rule keeps_good)
    (auto intro!: good_intros good_receive_loop good_udp_mut good_any_udp good_arm_udp assms dest: udp_handles(3))

section \<open>Names and closing\<close>

lemma udp_sockname_keeps: "keeps I0 (udp_sockname E i)"
  unfolding udp_sockname_def by (rule keeps_good) (auto intro!: good_intros)

lemma udp_peername_keeps: "keeps I0 (udp_peername E i)"
  unfolding udp_peername_def by (rule keeps_good) (auto intro!: good_intros)

lemma remove_udp_sockets_spec:
  "held_inv x (mset hs + y) K (s\<lparr>udp_records := us\<rparr>) \<Longrightarrow>
     wp (each remove_socket hs) (\<lambda>_ s'. held_inv x y K (s'\<lparr>udp_records := us\<rparr>) \<and> udp_records s' = udp_records s) (\<lambda>_ _. False) s"
proof (induction hs arbitrary: s)
  case (Cons h hs)
  from Cons.prems have "held_inv x (add_mset h (mset hs + y)) K (s\<lparr>udp_records := us\<rparr>)" by simp
  note gone = inv_remove_udp_socket [OF this]
  have "held_inv x (mset hs + y) K ((s\<lparr>socket_set := ss_remove h (socket_set s)\<rparr>)\<lparr>udp_records := us\<rparr>)"
    using gone(1) by (simp add: held_inv_def)
  from Cons.IH [OF this] gone(2) show ?case by (simp add: wp_simps)
qed (simp add: wp_simps)

lemma udp_close_good:
  assumes eng: "engine_ok E" and inv: "I0 s" and u: "udp_record i s = Inr u" and v: "validate (socket_table s) i Udp = Inr e"
  shows "good I0 (bnd (on_table (table_close i)) (\<lambda>waiters.
     bnd (each remove_socket (ur_handles u)) (\<lambda>_.
     bnd (modify (\<lambda>s. s\<lparr>udp_records := bt_remove (si_id i) (udp_records s)\<rparr>)) (\<lambda>_.
     bnd (expect (drive E now None)) (\<lambda>effects.
     finish_call E () effects (map (pending_of i) waiters)))))) s"
proof -
  obtain ws t where close: "table_close i (socket_table s) = (Inr ws, t)" using validated_close [OF inv v] by auto
  let ?us = "bt_remove (si_id i) (udp_records s)"
  have "I0 (s\<lparr>socket_table := t\<rparr>)" by (rule inv_table_close [OF inv close])
  from inv_remove_udp [OF this, of "si_id i" u] udp_record_Inr [OF u]
  have "held_inv {#} (mset (ur_handles u) + {#}) {} ((s\<lparr>socket_table := t\<rparr>)\<lparr>udp_records := ?us\<rparr>)" by simp
  note gone = remove_udp_sockets_spec [OF this]
  have "wp (each remove_socket (ur_handles u)) (\<lambda>_. good I0
     (bnd (modify (\<lambda>s. s\<lparr>udp_records := bt_remove (si_id i) (udp_records s)\<rparr>)) (\<lambda>_.
     bnd (expect (drive E now None)) (\<lambda>effects.
     finish_call E () effects (map (pending_of i) ws))))) (\<lambda>f s. f \<noteq> Panic \<and> I0 s) (s\<lparr>socket_table := t\<rparr>)"
    by (rule wp_mono [OF gone]) (auto intro!: good_modify good_intros eng)
  then show ?thesis by (simp add: good_def [abs_def] wp_simps on_table_def close)
qed

lemma udp_close_keeps: "engine_ok E \<Longrightarrow> keeps I0 (udp_close E i now)"
  unfolding udp_close_def by (rule keeps_good) (auto intro!: good_intros udp_close_good)

end
