(* ===== verification/Stack_Shutdown.thy ===== *)
theory Stack_Shutdown
  imports Stack_Udp
begin

text \<open>
  Shutting a stack down (\<open>shutdown\<close>, \<open>continue_shutdown\<close> and \<open>shutdown_work\<close> of \<open>stack.rs\<close>): sockets,
  records, indexes and queued packets are removed a bounded number at a time, their waiters are
  aborted, and later polls continue until nothing is left.
\<close>

section \<open>Definitions\<close>

definition shutdown_structures_pending :: "NativeStack \<Rightarrow> bool" where
  "shutdown_structures_pending s \<longleftrightarrow>
     0 < table_len (socket_table s) \<or> tcp_records s \<noteq> [] \<or> tcp_listeners s \<noteq> [] \<or> udp_records s \<noteq> [] \<or>
     tcp_connections s \<noteq> [] \<or> closing_tcp s \<noteq> [] \<or> closing_deadlines s \<noteq> [] \<or>
     queued_packets (dev s) \<noteq> (0, 0)"

definition shutdown_pending :: "NativeStack \<Rightarrow> bool" where
  "shutdown_pending s \<longleftrightarrow> shutdown_structures_pending s \<or> readiness_remains s"

text \<open>One turn of the loop: \<open>False\<close> when nothing is left to remove.\<close>

definition shutdown_step :: "(NativeStack, 'e, bool) prog" where
  "shutdown_step =
     bnd (act (\<lambda>s. case close_next (socket_table s) of (r, t) \<Rightarrow> (r, s\<lparr>socket_table := t\<rparr>))) (\<lambda>r.
     bnd (unwrap r) (\<lambda>closed.
     case closed of
       Some (i, waiters) \<Rightarrow>
         bnd (modify (\<lambda>s. s\<lparr>pending_notifications := pending_notifications s @ map (pending_of i) waiters\<rparr>)) (\<lambda>_.
         ret True)
     | None \<Rightarrow>
         bnd (gets (\<lambda>s. s)) (\<lambda>s.
         case tcp_records s of
           (sid, r) # rs \<Rightarrow>
             bnd (modify (\<lambda>s. s\<lparr>tcp_records := rs\<rparr>)) (\<lambda>_.
             bnd (remove_socket (tr_handle r)) (\<lambda>_.
             bnd (modify (\<lambda>s.
               let s = s\<lparr>closing_tcp := bs_remove sid (closing_tcp s)\<rparr>
               in case close_deadline r of
                    None \<Rightarrow> s
                  | Some dl \<Rightarrow> s\<lparr>closing_deadlines := bs_remove (dl, sid) (closing_deadlines s)\<rparr>)) (\<lambda>_.
             bnd (remove_connection r) (\<lambda>_. ret True))))
         | [] \<Rightarrow>
             (case tcp_listeners s of
                (_, l) # ls \<Rightarrow>
                  bnd (modify (\<lambda>s. s\<lparr>tcp_listeners := ls\<rparr>)) (\<lambda>_.
                  bnd (each remove_socket (pool l)) (\<lambda>_. ret True))
              | [] \<Rightarrow>
                  (case udp_records s of
                     (_, u) # us \<Rightarrow>
                       bnd (modify (\<lambda>s. s\<lparr>udp_records := us\<rparr>)) (\<lambda>_.
                       bnd (each remove_socket (ur_handles u)) (\<lambda>_. ret True))
                   | [] \<Rightarrow>
                       (case tcp_connections s of
                          _ # cs \<Rightarrow> bnd (modify (\<lambda>s. s\<lparr>tcp_connections := cs\<rparr>)) (\<lambda>_. ret True)
                        | [] \<Rightarrow>
                            (case closing_tcp s of
                               _ # cs \<Rightarrow> bnd (modify (\<lambda>s. s\<lparr>closing_tcp := cs\<rparr>)) (\<lambda>_. ret True)
                             | [] \<Rightarrow>
                                 (case closing_deadlines s of
                                    _ # cs \<Rightarrow> bnd (modify (\<lambda>s. s\<lparr>closing_deadlines := cs\<rparr>)) (\<lambda>_. ret True)
                                  | [] \<Rightarrow> act (\<lambda>s. case discard_one (dev s) of
                                       (ok, d) \<Rightarrow> (ok, s\<lparr>dev := d\<rparr>))))))))))"

fun shutdown_loop :: "Env \<Rightarrow> nat \<Rightarrow> nat \<Rightarrow> nat \<Rightarrow> (NativeStack, 'e, nat) prog" where
  "shutdown_loop E 0 work uncharged = ret work"
| "shutdown_loop E (Suc n) work uncharged =
     bnd (within_budget E) (\<lambda>ok.
     if \<not> ok then ret work
     else
       bnd shutdown_step (\<lambda>progress.
       if \<not> progress then ret work
       else
         bnd (charge_chunk E (uncharged + 1) False) (\<lambda>uncharged.
         shutdown_loop E n (work + 1) uncharged)))"

definition shutdown_work :: "Env \<Rightarrow> (NativeStack, 'e, Effects) prog" where
  "shutdown_work E =
     bnd (gets (\<lambda>s. maintenance_work (limits s))) (\<lambda>limit.
     bnd (shutdown_loop E limit 0 0) (\<lambda>work.
     bnd (modify (\<lambda>s. s\<lparr>counters := observe (Work_default\<lparr>w_maintenance_work := work\<rparr>) (counters s)\<rparr>)) (\<lambda>_.
     bnd (gets shutdown_structures_pending) (\<lambda>pending.
     ret \<lparr>eff_output = [], eff_poll_at = None, eff_more = pending, eff_maintenance_work = work\<rparr>))))"

definition finish_shutdown :: "NativeStack \<Rightarrow> NativeStack" where
  "finish_shutdown s = s\<lparr>st_lifecycle := Shutdown, closing_sweep_cursor := None,
     closing_cleanup_pending := False, closing_cleanup_resweep := False, listener_scan_cursor := None,
     listener_scan_pending := False, listener_scan_resweep := False, ready_sweep := False,
     ready_sweep_cursor := None, ready_sweep_resweep := False, ready_sweep_pending := []\<rparr>"

definition continue_shutdown :: "Env \<Rightarrow> (NativeStack, 'e, unit Envelope) prog" where
  "continue_shutdown E =
     bnd (gets pending_notifications) (\<lambda>ns.
     bnd (if ns = [] then shutdown_work E else ret Effects_empty) (\<lambda>effects.
     bnd (finish_call E () effects []) (\<lambda>envelope.
     bnd (gets shutdown_pending) (\<lambda>pending.
     if pending then ret (envelope\<lparr>env_more := True, env_poll_at := None\<rparr>)
     else bnd (modify finish_shutdown) (\<lambda>_. ret (envelope\<lparr>env_more := False\<rparr>))))))"

definition shutdown :: "Env \<Rightarrow> AbortReason \<Rightarrow> (NativeStack, 'e, unit Envelope) prog" where
  "shutdown E reason =
     bnd (gets st_lifecycle) (\<lambda>lc.
     if lc = Shutdown then ret (Envelope_empty ())
     else
       bnd (modify (\<lambda>s. s\<lparr>shutdown_reason := reason, st_lifecycle := ShuttingDown, ready_sweep := False,
              ready_sweep_cursor := None, ready_sweep_resweep := False, ready_sweep_pending := []\<rparr>)) (\<lambda>_.
       continue_shutdown E))"

definition poll_call :: "Env \<Rightarrow> instant \<Rightarrow> (NativeStack, 'e, unit Envelope) prog" where
  "poll_call E now =
     bnd (gets st_lifecycle) (\<lambda>lc.
     case lc of
       Running \<Rightarrow> bnd (poll E now) (\<lambda>effects. finish_call E () effects [])
     | ShuttingDown \<Rightarrow> continue_shutdown E
     | Shutdown \<Rightarrow> ret (Envelope_empty ()))"

end
