(* ===== verification/Shutdown_Invariant.thy ===== *)
theory Shutdown_Invariant
  imports Udp_Invariant Stack_Shutdown
begin

text \<open>
  Shutting down keeps the invariant and makes progress. \<open>load\<close> weighs what is left to remove or to
  announce; a turn of the shutdown loop lowers it, and so does every continued shutdown call whose
  first checkpoints are within the budget.
\<close>

section \<open>One turn of the loop\<close>

definition structure_load :: "NativeStack \<Rightarrow> nat" where
  "structure_load s = 3 * table_len (socket_table s) + length (tcp_records s) + length (tcp_listeners s) + length (udp_records s) +
     length (tcp_connections s) + length (closing_tcp s) + length (closing_deadlines s) +
     length (receive (dev s)) + length (transmit (dev s)) + length (pending_notifications s)"

definition settled :: "NativeStack \<Rightarrow> ReadyState \<times> ReadyKey list \<times> bool \<times> Lifecycle \<times> Limits \<times> meter" where
  "settled s = (ready s, ready_sweep_pending s, ready_sweep s, st_lifecycle s, limits s, call_budget s)"

lemma bt_Cons:
  assumes "bt_ok ((k, v) # m)"
  shows "bt_get ((k, v) # m) k = Some v" and "bt_remove k ((k, v) # m) = m"
proof -
  show "bt_get ((k, v) # m) k = Some v" by (simp add: bt_get_Cons)
  have "filter (\<lambda>(k', _). k' \<noteq> k) m = m" using assms by (intro filter_True) (auto simp: bt_ok_def)
  then show "bt_remove k ((k, v) # m) = m" by (simp add: bt_remove_def)
qed

lemma length_bs_remove: "length (bs_remove k xs) \<le> length xs"
  by (simp add: bs_remove_def)

lemma length_bt_remove: "length (bt_remove k xs) \<le> length xs"
  by (simp add: bt_remove_def)

lemma entry_waiters_two: "length (entry_waiters e) \<le> 2"
  by (auto simp: entry_waiters_def split: option.splits)

lemma close_next_cases:
  assumes run: "close_next t = (c, t')" and wf: "table_wf t"
  shows "c = Some None \<and> t' = t \<and> table_len t = 0 \<or>
    (\<exists>i ws. c = Some (Some (i, ws)) \<and> table_close i t = (Inr ws, t') \<and> Suc (table_len t') = table_len t \<and> length ws \<le> 2)"
proof (cases "entries t")
  case Nil
  then show ?thesis using run close_next_Nil [of t] by (simp add: table_len_def)
next
  case (Cons x xs)
  obtain sid g e where x: "x = (sid, g, e)" by (metis surj_pair)
  note head = close_next_Cons [of t sid g e xs, OF Cons [unfolded x]]
  have "bt_remove sid (entries t) = xs"
    using wf bt_Cons(2) [of sid "(g, e)" xs] Cons x by (simp add: table_wf_def)
  then have "entries (snd (table_close (SocketIdentity sid g) t)) = xs"
    by (simp add: table_close_def Cons x bt_get_Cons Let_def)
  then show ?thesis
    using head run entry_waiters_two [of e] by (auto simp: table_len_def Cons)
qed

definition step_done :: "NativeStack \<Rightarrow> bool \<Rightarrow> NativeStack \<Rightarrow> bool" where
  "step_done s progress s' \<longleftrightarrow> I0 s' \<and> settled s' = settled s \<and>
     (if progress then structure_load s' < structure_load s else s' = s \<and> \<not> shutdown_structures_pending s)"

lemma shutdown_entry:
  assumes inv: "I0 s" and close: "table_close i (socket_table s) = (Inr ws, t)" "Suc (table_len t) = table_len (socket_table s)" "length ws \<le> 2"
  shows "step_done s True (s\<lparr>socket_table := t, pending_notifications := pending_notifications s @ map (pending_of i) ws\<rparr>)"
  using inv_table_close [OF inv close(1)] close(2,3) by (simp add: step_done_def settled_def structure_load_def)

lemma shutdown_record:
  assumes inv: "I0 s" and r: "tcp_records s = (sid, r) # rs"
  shows "wp (bnd (modify (\<lambda>s. s\<lparr>tcp_records := rs\<rparr>)) (\<lambda>_.
     bnd (remove_socket (tr_handle r)) (\<lambda>_.
     bnd (modify (\<lambda>s.
       let s = s\<lparr>closing_tcp := bs_remove sid (closing_tcp s)\<rparr>
       in case close_deadline r of
            None \<Rightarrow> s
          | Some dl \<Rightarrow> s\<lparr>closing_deadlines := bs_remove (dl, sid) (closing_deadlines s)\<rparr>)) (\<lambda>_.
     bnd (remove_connection r) (\<lambda>_. ret True))))) (step_done s) (\<lambda>_ _. False) s"
proof -
  have ok: "bt_ok ((sid, r) # rs)" using invD(5) [OF inv] r by simp
  from inv_remove_record [OF inv, of sid r] bt_Cons [OF ok] r
  have "held_inv {#(tr_handle r, tr_rcvbuf r, tr_sndbuf r)#} {#} {} (s\<lparr>tcp_records := rs\<rparr>)" by (simp add: record_held_def)
  note gone = inv_remove_tcp [OF this]
  note c = inv_closing_remove [OF gone(1), of sid]
  have "bt_get (tcp_records s) sid = Some r" using bt_Cons(1) [OF ok] r by simp
  from paired_ends_held [OF inv this] show ?thesis
    using gone(2) c r length_bs_remove [of sid "closing_tcp s"]
    by (auto simp: wp_simps remove_connection_def connection_key_def paired_ends_def Let_def step_done_def settled_def structure_load_def
        intro!: le_imp_less_Suc add_mono length_bs_remove length_bt_remove split: option.splits)
qed


lemma wp_both: "wp m P E s \<Longrightarrow> wp m Q F s \<Longrightarrow> wp m (\<lambda>x s. P x s \<and> Q x s) (\<lambda>f s. E f s \<and> F f s) s"
  by (auto simp: wp_def split: sum.splits)

lemma remove_sockets_frame:
  "wp (each remove_socket hs) (\<lambda>_ s'. s' = s\<lparr>socket_set := socket_set s'\<rparr>) (\<lambda>_ _. True) s"
proof (induction hs arbitrary: s)
  case (Cons h hs)
  show ?case
    by (auto simp: wp_simps intro!: wp_mono [OF Cons.IH] dest: sym)
qed (simp add: wp_simps)

lemma shutdown_listener:
  assumes inv: "I0 s" and l: "tcp_listeners s = (k, l) # ls"
  shows "wp (bnd (modify (\<lambda>s. s\<lparr>tcp_listeners := ls\<rparr>)) (\<lambda>_.
     bnd (each remove_socket (pool l)) (\<lambda>_. ret True))) (step_done s) (\<lambda>_ _. False) s"
proof -
  have ok: "bt_ok ((k, l) # ls)" using invD(6) [OF inv] l by simp
  from inv_remove_listener(1) [OF inv, of k l] bt_Cons [OF ok] l
  have "held_inv (in_hand (lr_rcvbuf l) (lr_sndbuf l) (pool l) + {#}) {#} {} (s\<lparr>tcp_listeners := ls\<rparr>)"
    by (simp add: listener_held_def)
  note loop = wp_both [OF remove_pool_spec [OF this] remove_sockets_frame]
  have "wp (each remove_socket (pool l)) (\<lambda>_. step_done s True) (\<lambda>_ _. False) (s\<lparr>tcp_listeners := ls\<rparr>)"
  proof (rule wp_mono [OF loop])
    fix s' assume s': "I0 s' \<and> s' = s\<lparr>tcp_listeners := ls\<rparr>\<lparr>socket_set := socket_set s'\<rparr>"
    define ss where "ss = socket_set s'"
    show "step_done s True s'"
      using s' l unfolding ss_def [symmetric] by (auto simp: step_done_def settled_def structure_load_def)
  qed simp
  then show ?thesis by (simp add: wp_simps)
qed

lemma shutdown_udp:
  assumes inv: "I0 s" and u: "udp_records s = (k, u) # us"
  shows "wp (bnd (modify (\<lambda>s. s\<lparr>udp_records := us\<rparr>)) (\<lambda>_.
     bnd (each remove_socket (ur_handles u)) (\<lambda>_. ret True))) (step_done s) (\<lambda>_ _. False) s"
proof -
  have ok: "bt_ok ((k, u) # us)" using invD(7) [OF inv] u by simp
  from inv_remove_udp [OF inv, of k u] bt_Cons [OF ok] u
  have "held_inv {#} (mset (ur_handles u) + {#}) {} ((s\<lparr>udp_records := us\<rparr>)\<lparr>udp_records := us\<rparr>)" by simp
  note loop = wp_both [OF remove_udp_sockets_spec [OF this] remove_sockets_frame]
  have "wp (each remove_socket (ur_handles u)) (\<lambda>_. step_done s True) (\<lambda>_ _. False) (s\<lparr>udp_records := us\<rparr>)"
  proof (rule wp_mono [OF loop])
    fix s' assume s': "(I0 (s'\<lparr>udp_records := us\<rparr>) \<and> udp_records s' = udp_records (s\<lparr>udp_records := us\<rparr>)) \<and>
      s' = s\<lparr>udp_records := us\<rparr>\<lparr>socket_set := socket_set s'\<rparr>"
    define ss where "ss = socket_set s'"
    have "s' = s\<lparr>udp_records := us\<rparr>\<lparr>socket_set := ss\<rparr>" using s' by (simp add: ss_def)
    moreover from this have "I0 s'" using s' by (simp add: held_inv_def)
    ultimately show "step_done s True s'"
      using u by (simp add: step_done_def settled_def structure_load_def)
  qed simp
  then show ?thesis by (simp add: wp_simps)
qed

lemma inv_discard: "I0 s \<Longrightarrow> I0 (s\<lparr>dev := snd (discard_one (dev s))\<rparr>)"
  by (simp add: held_inv_def device_wf_discard)

lemma inv_closing_tail:
  assumes "I0 s" and "closing_tcp s = k # ks"
  shows "I0 (s\<lparr>closing_tcp := ks\<rparr>)"
proof -
  have "bs_ok (k # ks)" using invD(2) [OF assms(1)] assms(2) by (auto simp: ids_at_def split: prod.splits)
  then have "bs_remove k (k # ks) = ks" by (auto simp: bs_remove_def bs_ok_def filter_id_conv)
  then show ?thesis using inv_closing_remove [OF assms(1), of k] assms(2) by simp
qed

lemma shutdown_step_spec:
  assumes inv: "I0 s"
  shows "wp shutdown_step (step_done s) (\<lambda>_ _. False) s"
proof -
  obtain c t where next_entry: "close_next (socket_table s) = (c, t)" by fastforce
  from close_next_cases [OF next_entry inv_wf [OF inv]] show ?thesis
  proof (elim disjE exE conjE)
    fix i ws assume "c = Some (Some (i, ws))" "table_close i (socket_table s) = (Inr ws, t)"
      "Suc (table_len t) = table_len (socket_table s)" "length ws \<le> 2"
    then show ?thesis using shutdown_entry [OF inv, of i ws t] by (simp add: shutdown_step_def wp_simps next_entry)
  next
    assume none: "c = Some None" "t = socket_table s" "table_len (socket_table s) = 0"
    have closing: "wp (case closing_tcp s of
        _ # cs \<Rightarrow> bnd (modify (\<lambda>s. s\<lparr>closing_tcp := cs\<rparr>)) (\<lambda>_. ret True)
      | [] \<Rightarrow>
          (case closing_deadlines s of
             _ # cs \<Rightarrow> bnd (modify (\<lambda>s. s\<lparr>closing_deadlines := cs\<rparr>)) (\<lambda>_. ret True)
           | [] \<Rightarrow> act (\<lambda>s. case discard_one (dev s) of (ok, d) \<Rightarrow> (ok, s\<lparr>dev := d\<rparr>))))
      (step_done s) (\<lambda>_ _. False) s"
      if "tcp_records s = []" "tcp_listeners s = []" "udp_records s = []" "tcp_connections s = []"
      using that inv none(3) inv_closing_tail [OF inv] inv_discard [OF inv]
      by (auto simp: wp_simps step_done_def settled_def structure_load_def shutdown_structures_pending_def discard_one_def
          queued_packets_def split: list.splits)
    have same: "s\<lparr>socket_table := t\<rparr> = s" using none(2) by simp
    consider sid r rs where "tcp_records s = (sid, r) # rs"
      | k l ls where "tcp_records s = []" "tcp_listeners s = (k, l) # ls"
      | k u us where "tcp_records s = []" "tcp_listeners s = []" "udp_records s = (k, u) # us"
      | c cs where "tcp_records s = []" "tcp_listeners s = []" "udp_records s = []" "tcp_connections s = c # cs"
      | "tcp_records s = []" "tcp_listeners s = []" "udp_records s = []" "tcp_connections s = []"
      by (metis list.exhaust surj_pair)
    then show ?thesis
    proof cases
      case 1
      then show ?thesis using shutdown_record [OF inv 1] by (simp add: shutdown_step_def wp_simps next_entry none(1) same)
    next
      case 2
      then show ?thesis using shutdown_listener [OF inv 2(2)] by (simp add: shutdown_step_def wp_simps next_entry none(1) same)
    next
      case 3
      then show ?thesis using shutdown_udp [OF inv 3(3)] by (simp add: shutdown_step_def wp_simps next_entry none(1) same)
    next
      case 4
      then show ?thesis
        using inv by (simp add: shutdown_step_def wp_simps next_entry none(1) same step_done_def settled_def structure_load_def)
    next
      case 5
      then show ?thesis using closing [OF 5] by (simp add: shutdown_step_def wp_bnd wp_act wp_gets wp_unwrap next_entry none(1) same)
    qed
  qed
qed


section \<open>Calls keep the invariant\<close>

lemma shutdown_step_runs [runs_intros]: "runs I0 shutdown_step"
  by (rule runsI, rule wp_mono [OF shutdown_step_spec]) (auto simp: step_done_def)

lemma shutdown_loop_runs [runs_intros]: "runs I0 (shutdown_loop E n w u)"
  by (induction E n w u rule: shutdown_loop.induct) (auto intro!: runs_intros)

lemma shutdown_work_runs [runs_intros]: "runs I0 (shutdown_work E)"
  unfolding shutdown_work_def by (auto intro!: runs_intros)

lemma continue_shutdown_runs [runs_intros]: "runs I0 (continue_shutdown E)"
  unfolding continue_shutdown_def finish_shutdown_def by (auto intro!: runs_intros)

lemma shutdown_runs: "runs I0 (shutdown E reason)"
  unfolding shutdown_def by (auto intro!: runs_intros)

lemma poll_call_runs:
  assumes "engine_ok E"
  shows "runs I0 (poll_call E now)"
  unfolding poll_call_def by (auto intro!: runs_intros poll_runs [OF assms] split: Lifecycle.splits)

section \<open>Progress\<close>

text \<open>The next \<open>n\<close> checkpoints of the meter succeed.\<close>

definition affords :: "clock \<Rightarrow> nat \<Rightarrow> meter \<Rightarrow> bool" where
  "affords clock n m \<longleftrightarrow> forced_checkpoints (fst m) = None \<and> \<not> slice_exhausted (fst m) \<and>
     (\<forall>j < n. clock (snd m + j) < deadline (fst m))"

lemma checkpoint_affords:
  assumes "affords clock (Suc n) m" and "checkpoint_at clock m = (ok, m')"
  shows "ok \<and> affords clock n m'"
proof -
  have now: "clock (snd m) < deadline (fst m)" using assms(1) by (force simp: affords_def)
  have "m' = (fst m\<lparr>yielded := yielded (fst m)\<rparr>, Suc (snd m)) \<and> ok"
    using assms now by (auto simp: affords_def checkpoint_at_def checkpoint_def split: prod.splits)
  moreover have "clock (Suc (snd m) + j) < deadline (fst m)" if "j < n" for j
    using assms(1) that by (auto simp: affords_def dest: spec [of _ "Suc j"])
  ultimately show ?thesis using assms(1) by (auto simp: affords_def)
qed

definition calm :: "NativeStack \<Rightarrow> ReadyState \<times> ReadyKey list \<times> bool \<times> Lifecycle \<times> Limits" where
  "calm s = (ready s, ready_sweep_pending s, ready_sweep s, st_lifecycle s, limits s)"

lemma calm_budget [simp]: "calm (s\<lparr>call_budget := m\<rparr>) = calm s" "structure_load (s\<lparr>call_budget := m\<rparr>) = structure_load s"
  by (simp_all add: calm_def structure_load_def)

lemma calm_settled: "settled s' = settled s \<Longrightarrow> calm s' = calm s \<and> call_budget s' = call_budget s"
  by (simp add: settled_def calm_def)

text \<open>What a part of a call may do: lower the load, and leave the readiness state alone.\<close>

definition eased :: "ReadyState \<times> ReadyKey list \<times> bool \<times> Lifecycle \<times> Limits \<Rightarrow> nat \<Rightarrow> NativeStack \<Rightarrow> bool" where
  "eased c b s \<longleftrightarrow> I0 s \<and> calm s = c \<and> structure_load s \<le> b"

lemma eased_budget [simp]: "eased c b (s\<lparr>call_budget := m\<rparr>) = eased c b s"
  by (simp add: eased_def)

lemma eased_step [runs_intros]: "runs (eased c b) shutdown_step"
  by (rule runsI, rule wp_mono [OF shutdown_step_spec])
    (auto simp: eased_def step_done_def dest: calm_settled split: if_splits)

lemma eased_loop [runs_intros]: "runs (eased c b) (shutdown_loop E n w u)"
  by (induction E n w u rule: shutdown_loop.induct) (auto intro!: runs_intros)

lemma shutdown_loop_progress:
  assumes inv: "I0 s" and n: "0 < n" and aff: "affords (e_clock E) (Suc j) (call_budget s)"
  shows "wp (shutdown_loop E n w u :: (NativeStack, 'e, nat) prog) (\<lambda>_ s'. eased (calm s) (structure_load s) s' \<and>
     (structure_load s' < structure_load s \<or> \<not> shutdown_structures_pending s' \<and> pending_notifications s' = pending_notifications s \<and>
        affords (e_clock E) j (call_budget s'))) (\<lambda>_ _. False) s"
proof -
  obtain n' where n': "n = Suc n'" using n by (cases n) auto
  obtain ok m where m: "checkpoint_at (e_clock E) (call_budget s) = (ok, m)" by (rule prod.exhaust)
  note afford = checkpoint_affords [OF aff m]
  let ?s = "s\<lparr>call_budget := m\<rparr>"
  have inv': "I0 ?s" using inv by simp
  let ?Q = "\<lambda>_ s'. eased (calm s) (structure_load s) s' \<and>
     (structure_load s' < structure_load s \<or> \<not> shutdown_structures_pending s' \<and> pending_notifications s' = pending_notifications s \<and>
        affords (e_clock E) j (call_budget s'))"
  have later: "wp (bnd (charge_chunk E (u + 1) False) (\<lambda>u. shutdown_loop E n' (w + 1) u)) ?Q (\<lambda>(_ :: 'e fault) _. False) s'"
    if "eased (calm s) (structure_load s - 1) s'" "structure_load s' < structure_load s" for s'
  proof -
    have "runs (eased (calm s) (structure_load s - 1))
      (bnd (charge_chunk E (u + 1) False) (\<lambda>u. shutdown_loop E n' (w + 1) u) :: (NativeStack, 'e, nat) prog)"
      by (auto intro!: runs_intros)
    then show ?thesis by (rule runs_wp) (use that in \<open>auto simp: eased_def\<close>)
  qed
  have "wp shutdown_step (\<lambda>p. wp (if \<not> p then ret w else bnd (charge_chunk E (u + 1) False) (\<lambda>u. shutdown_loop E n' (w + 1) u)) ?Q (\<lambda>(_ :: 'e fault) _. False))
    (\<lambda>_ _. False) ?s"
  proof (rule wp_mono [OF shutdown_step_spec [OF inv']])
    fix p s' assume s': "step_done ?s p s'"
    show "wp (if \<not> p then ret w else bnd (charge_chunk E (u + 1) False) (\<lambda>u. shutdown_loop E n' (w + 1) u)) ?Q (\<lambda>(_ :: 'e fault) _. False) s'"
    proof (cases p)
      case True
      then have "eased (calm s) (structure_load s - 1) s'" "structure_load s' < structure_load s"
        using s' calm_settled [of s' ?s] by (auto simp: step_done_def eased_def)
      then show ?thesis using later True by simp
    next
      case False
      then have "s' = ?s" "\<not> shutdown_structures_pending ?s" using s' by (auto simp: step_done_def)
      then show ?thesis using False inv' afford by (simp add: wp_simps eased_def)
    qed
  qed simp
  then show ?thesis using afford by (simp add: n' wp_simps within_budget_def m)
qed


lemma abort_send_frame [simp]:
  "calm (send_abort E x s) = calm s" "structure_load (send_abort E x s) = structure_load s"
  "call_budget (send_abort E x s) = call_budget s" "I0 (send_abort E x s) = I0 s" "eased c b (send_abort E x s) = eased c b s"
  by (simp_all add: send_abort_def send_message_def observe_notification_def calm_def structure_load_def eased_def Let_def)

lemma wp_within_budget:
  assumes "checkpoint_at (e_clock E) (call_budget s) = (ok, m)"
  shows "wp (within_budget E) Q F s = Q ok (s\<lparr>call_budget := m\<rparr>)"
  by (simp add: within_budget_def wp_simps assms)

lemma runs_then: "runs I m \<Longrightarrow> I s \<Longrightarrow> (\<And>x s'. I s' \<Longrightarrow> wp (k x) Q E s') \<Longrightarrow> wp (bnd m k) Q E s"
  by (simp add: wp_bnd runs_wp)

lemma eased_abort:
  "eased c b s \<Longrightarrow> wp (abort_loop E n w u :: (NativeStack, 'e, nat \<times> nat) prog) (\<lambda>_. eased c b) (\<lambda>_ _. False) s"
proof (induction n arbitrary: w u s)
  case (Suc n)
  obtain ok m where m: "checkpoint_at (e_clock E) (call_budget s) = (ok, m)" by (rule prod.exhaust)
  show ?case
  proof (cases "pending_notifications s")
    case (Cons x xs)
    let ?s = "send_abort E x (s\<lparr>call_budget := m, pending_notifications := xs\<rparr>)"
    have "eased c b ?s"
      unfolding abort_send_frame using Suc.prems Cons by (simp add: eased_def calm_def structure_load_def)
    then have "wp (bnd (charge_chunk E (u + 1) False) (\<lambda>u. abort_loop E n (w + 1) u)) (\<lambda>_. eased c b) (\<lambda>(_ :: 'e fault) _. False) ?s"
      by (rule runs_then [where I = "eased c b", OF runs_charge_chunk, rotated]) (auto intro: Suc.IH)
    then show ?thesis using Suc.prems by (simp add: Cons wp_simps wp_within_budget [OF m])
  qed (use Suc.prems in \<open>simp add: wp_simps\<close>)
qed (simp add: wp_simps)

lemma abort_progress:
  assumes "eased c b s" and "0 < n" and "pending_notifications s \<noteq> []" and aff: "affords (e_clock E) (Suc j) (call_budget s)"
  shows "wp (abort_loop E n w u :: (NativeStack, 'e, nat \<times> nat) prog) (\<lambda>_. eased c (b - 1)) (\<lambda>_ _. False) s"
proof -
  obtain n' where n': "n = Suc n'" using assms(2) by (cases n) auto
  obtain x xs where xs: "pending_notifications s = x # xs" using assms(3) by (cases "pending_notifications s") auto
  obtain ok m where m: "checkpoint_at (e_clock E) (call_budget s) = (ok, m)" by (rule prod.exhaust)
  let ?s = "send_abort E x (s\<lparr>call_budget := m, pending_notifications := xs\<rparr>)"
  have "eased c (b - 1) ?s"
    unfolding abort_send_frame using assms(1) xs by (auto simp: eased_def calm_def structure_load_def)
  then have "wp (bnd (charge_chunk E (u + 1) False) (\<lambda>u. abort_loop E n' (w + 1) u)) (\<lambda>_. eased c (b - 1)) (\<lambda>(_ :: 'e fault) _. False) ?s"
    by (rule runs_then [where I = "eased c (b - 1)", OF runs_charge_chunk, rotated]) (auto intro: eased_abort)
  then show ?thesis using checkpoint_affords [OF aff m] by (simp add: n' xs wp_simps wp_within_budget [OF m])
qed


section \<open>The end of a call during shutdown\<close>

definition load :: "NativeStack \<Rightarrow> nat" where
  "load s = structure_load s + 2 * length (ready_entries (ready s)) + length (ready_sweep_pending s)"

definition winding :: "Limits \<Rightarrow> nat \<Rightarrow> NativeStack \<Rightarrow> bool" where
  "winding l b s \<longleftrightarrow> I0 s \<and> st_lifecycle s = ShuttingDown \<and> \<not> ready_sweep s \<and> lock (ready s) \<noteq> Held \<and> limits s = l \<and> load s \<le> b"

lemma eased_winding:
  assumes "winding l b s" and "eased (calm s) (structure_load s - n) s'" and "n \<le> structure_load s"
  shows "winding l (b - n) s'"
  using assms by (auto simp: winding_def eased_def calm_def load_def)

lemma winding_frame [simp]:
  "winding l b (s\<lparr>call_budget := m\<rparr>) = winding l b s" "winding l b (s\<lparr>counters := c\<rparr>) = winding l b s"
  "winding l b (s\<lparr>scheduled_poll_at := p\<rparr>) = winding l b s" "winding l b (drop_readiness s) = winding l b s"
  by (simp_all add: winding_def load_def structure_load_def drop_readiness_def)

lemma winding_deliver [simp]: "winding l b s \<Longrightarrow> winding l b (deliver_or_discard_ready E k s)"
  by (simp add: deliver_or_discard_ready_def) (simp add: winding_def)

lemma start_sweep_winding:
  "winding l b s \<Longrightarrow> winding l b (start_sweep s) \<and> \<not> overflow (ready (start_sweep s)) \<and>
     call_budget (start_sweep s) = call_budget s \<and> pending_notifications (start_sweep s) = pending_notifications s \<and>
     ready_entries (ready (start_sweep s)) = ready_entries (ready s) \<and> ready_sweep_pending (start_sweep s) = ready_sweep_pending s"
  by (simp add: start_sweep_def take_overflow_def winding_def load_def structure_load_def)

definition rested :: "Limits \<Rightarrow> nat \<Rightarrow> NativeStack \<Rightarrow> bool" where
  "rested l b s \<longleftrightarrow> winding l b s \<and> \<not> overflow (ready s)"

lemma rested_frame [simp]:
  "rested l b (s\<lparr>call_budget := m\<rparr>) = rested l b s" "rested l b (s\<lparr>counters := c\<rparr>) = rested l b s"
  "rested l b (s\<lparr>scheduled_poll_at := p\<rparr>) = rested l b s"
  by (simp_all add: rested_def)

lemma rested_deliver [simp]: "rested l b s \<Longrightarrow> rested l b (deliver_or_discard_ready E k s)"
  by (simp add: rested_def, simp add: deliver_or_discard_ready_def winding_def drop_readiness_def)

lemma rested_queue [simp]: "rested l b s \<Longrightarrow> rested l (Suc b) (s\<lparr>ready_sweep_pending := ready_sweep_pending s @ [k]\<rparr>)"
  by (simp add: rested_def winding_def load_def structure_load_def)

lemma rested_mono: "rested l b s \<Longrightarrow> b \<le> b' \<Longrightarrow> rested l b' s"
  by (simp add: rested_def winding_def)

lemma queued_rested:
  "rested l b s \<Longrightarrow> wp (queued_loop E ks w u :: (NativeStack, 'e, nat \<times> nat) prog) (\<lambda>_. rested l (b + length ks)) (\<lambda>_ _. False) s"
proof (induction ks arbitrary: w u s b)
  case (Cons k ks)
  obtain ok m where m: "checkpoint_at (e_clock E) (call_budget s) = (ok, m)" by (rule prod.exhaust)
  let ?s = "deliver_or_discard_ready E k (s\<lparr>call_budget := m\<rparr>)"
  have "wp (bnd (charge_chunk E (u + 1) False) (\<lambda>u. queued_loop E ks (w + 1) u)) (\<lambda>_. rested l (b + length (k # ks))) (\<lambda>(_ :: 'e fault) _. False) ?s"
    using Cons.prems
    by (intro runs_then [where I = "rested l b", OF runs_charge_chunk] wp_mono [OF Cons.IH]) (auto intro: rested_mono)
  moreover have "wp (queued_loop E ks w u) (\<lambda>_. rested l (b + length (k # ks))) (\<lambda>(_ :: 'e fault) _. False)
      (s\<lparr>call_budget := m, ready_sweep_pending := ready_sweep_pending s @ [k]\<rparr>)"
    using Cons.IH [of "Suc b" "s\<lparr>call_budget := m, ready_sweep_pending := ready_sweep_pending s @ [k]\<rparr>"]
      rested_queue [of l b "s\<lparr>call_budget := m\<rparr>" k] Cons.prems by simp
  ultimately show ?case by (simp add: wp_simps wp_within_budget [OF m])
qed (simp add: wp_simps)

lemma pending_rested:
  "rested l b s \<Longrightarrow> wp (pending_loop E n w u :: (NativeStack, 'e, nat \<times> nat) prog) (\<lambda>_. rested l b) (\<lambda>_ _. False) s"
proof (induction n arbitrary: w u s)
  case (Suc n)
  obtain ok m where m: "checkpoint_at (e_clock E) (call_budget s) = (ok, m)" by (rule prod.exhaust)
  show ?case
  proof (cases "ready_sweep_pending s")
    case (Cons k ks)
    let ?s = "deliver_or_discard_ready E k (s\<lparr>call_budget := m, ready_sweep_pending := ks\<rparr>)"
    have "rested l b (s\<lparr>call_budget := m, ready_sweep_pending := ks\<rparr>)"
      using Suc.prems Cons by (simp add: rested_def winding_def load_def structure_load_def)
    then have "wp (bnd (charge_chunk E (u + 1) False) (\<lambda>u. pending_loop E n (w + 1) u)) (\<lambda>_. rested l b) (\<lambda>(_ :: 'e fault) _. False) ?s"
      by (intro runs_then [where I = "rested l b", OF runs_charge_chunk]) (auto intro: Suc.IH)
    then show ?thesis using Suc.prems by (simp add: Cons wp_simps wp_within_budget [OF m])
  qed (use Suc.prems in \<open>simp add: wp_simps\<close>)
qed (simp add: wp_simps)

lemma pending_progress:
  assumes "rested l b s" and "0 < n" and "ready_sweep_pending s \<noteq> []" and aff: "affords (e_clock E) (Suc j) (call_budget s)"
  shows "wp (pending_loop E n w u :: (NativeStack, 'e, nat \<times> nat) prog) (\<lambda>_. rested l (b - 1)) (\<lambda>_ _. False) s"
proof -
  obtain n' where n': "n = Suc n'" using assms(2) by (cases n) auto
  obtain k ks where ks: "ready_sweep_pending s = k # ks" using assms(3) by (cases "ready_sweep_pending s") auto
  obtain ok m where m: "checkpoint_at (e_clock E) (call_budget s) = (ok, m)" by (rule prod.exhaust)
  let ?s = "deliver_or_discard_ready E k (s\<lparr>call_budget := m, ready_sweep_pending := ks\<rparr>)"
  have "rested l (b - 1) (s\<lparr>call_budget := m, ready_sweep_pending := ks\<rparr>)"
    using assms(1) ks by (auto simp: rested_def winding_def load_def structure_load_def)
  then have "wp (bnd (charge_chunk E (u + 1) False) (\<lambda>u. pending_loop E n' (w + 1) u)) (\<lambda>_. rested l (b - 1)) (\<lambda>(_ :: 'e fault) _. False) ?s"
    by (intro runs_then [where I = "rested l (b - 1)", OF runs_charge_chunk]) (auto intro: pending_rested)
  then show ?thesis using checkpoint_affords [OF aff m] by (simp add: n' ks wp_simps wp_within_budget [OF m])
qed


lemma drain_rested:
  assumes "rested l b s" and "drain_while (e_clock E) n (call_budget s) (ready s) = (ks, q, m)"
  shows "rested l (b - 2 * length ks) (s\<lparr>ready := q, call_budget := m\<rparr>)" and "2 * length ks \<le> b"
proof -
  note spec = drain_while_spec [OF assms(2)]
  have "overflow q = overflow (ready s)"
    using assms by (auto simp: drain_while_def rested_def winding_def split: if_splits prod.splits bool.splits)
  then show "rested l (b - 2 * length ks) (s\<lparr>ready := q, call_budget := m\<rparr>)" "2 * length ks \<le> b"
    using assms(1) spec(2,4) by (auto simp: rested_def winding_def load_def structure_load_def)
qed

lemma drain_progress:
  assumes "drain_while clock n m q = (ks, q', m')" and "0 < n" and "affords clock (Suc j) m" and "lock q \<noteq> Held"
  shows "ready_entries q \<noteq> [] \<Longrightarrow> ks \<noteq> []" and "ready_entries q = [] \<Longrightarrow> ks = [] \<and> affords clock j m'"
proof -
  obtain ok m1 where m1: "checkpoint_at clock m = (ok, m1)" by (rule prod.exhaust)
  note aff = checkpoint_affords [OF assms(3) m1]
  obtain es ks1 m2 where loop: "drain_loop clock n (ready_entries q) [] m1 = (es, ks1, m2)" by (metis surj_pair)
  have eq: "ks = ks1" "m' = m2" using assms(1,2,4) aff m1 loop by (auto simp: drain_while_def)
  show "ready_entries q \<noteq> [] \<Longrightarrow> ks \<noteq> []" using drain_loop_spec [OF loop] assms(2) eq(1) by auto
  show "ready_entries q = [] \<Longrightarrow> ks = [] \<and> affords clock j m'" using loop aff eq by simp
qed

definition settle_rest :: "Env \<Rightarrow> 'a \<Rightarrow> Effects \<Rightarrow> nat \<Rightarrow> nat \<Rightarrow> nat \<Rightarrow> (NativeStack, 'e, 'a Envelope) prog" where
  "settle_rest E res effects limit work uncharged =
     bnd (modify start_sweep) (\<lambda>_.
     bnd (drain_ready E (limit - work)) (\<lambda>queued.
     bnd (queued_loop E queued work uncharged) (\<lambda>(work, uncharged).
     bnd (pending_loop E (limit - work) work uncharged) (\<lambda>(work, uncharged).
     bnd (sweep_step E work uncharged) (\<lambda>(work, uncharged).
     bnd (gets (\<lambda>s. eff_more effects \<or> readiness_remains s)) (\<lambda>more.
     bnd (modify (\<lambda>s. s\<lparr>counters := observe (Work_default\<lparr>w_ready_events := work,
            w_maintenance_work := eff_maintenance_work effects\<rparr>) (counters s)\<rparr>)) (\<lambda>_.
     bnd (charge_chunk E uncharged True) (\<lambda>_.
     bnd (modify (\<lambda>s. case eff_poll_at effects of
            Some millis \<Rightarrow> if \<not> more then s\<lparr>scheduled_poll_at := Some (Instant_from_millis millis)\<rparr> else s
          | None \<Rightarrow> s)) (\<lambda>_.
     ret \<lparr>env_result = res, env_output = eff_output effects, env_poll_at = eff_poll_at effects,
           env_more = more\<rparr>)))))))))"

lemma finish_call_eq:
  "finish_call E res effects aborts =
     bnd (modify (\<lambda>s. s\<lparr>pending_notifications := pending_notifications s @ aborts\<rparr>)) (\<lambda>_.
     bnd (gets (\<lambda>s. ready_events (limits s))) (\<lambda>limit.
     bnd (abort_loop E limit 0 0) (\<lambda>(work, uncharged). settle_rest E res effects limit work uncharged)))"
  by (simp add: finish_call_def settle_rest_def)

lemma sweep_rested: "rested l b s \<Longrightarrow> wp (sweep_step E w u) Q F s = Q (w, u) s"
  by (simp add: sweep_step_def wp_simps rested_def winding_def)

text \<open>The statements after the swept keys leave the state at rest.\<close>

lemma close_rested:
  assumes "rested l b s"
  shows "wp (bnd (sweep_step E work uncharged) (\<lambda>(work, uncharged).
     bnd (gets (\<lambda>s. eff_more effects \<or> readiness_remains s)) (\<lambda>more.
     bnd (modify (\<lambda>s. s\<lparr>counters := observe (Work_default\<lparr>w_ready_events := work,
            w_maintenance_work := eff_maintenance_work effects\<rparr>) (counters s)\<rparr>)) (\<lambda>_.
     bnd (charge_chunk E uncharged True) (\<lambda>_.
     bnd (modify (\<lambda>s. case eff_poll_at effects of
            Some millis \<Rightarrow> if \<not> more then s\<lparr>scheduled_poll_at := Some (Instant_from_millis millis)\<rparr> else s
          | None \<Rightarrow> s)) (\<lambda>_.
     ret \<lparr>env_result = res, env_output = eff_output effects, env_poll_at = eff_poll_at effects,
           env_more = more\<rparr>)))))) (\<lambda>_. rested l b) (\<lambda>_ _. False) s"
  using assms
  by (auto simp: wp_simps sweep_rested charge_chunk_def charge_now_def split: option.splits prod.splits)

lemma settle_rest_winding:
  assumes "winding l b s"
  shows "wp (settle_rest E res effects limit work uncharged :: (NativeStack, 'e, 'a Envelope) prog) (\<lambda>_. rested l b) (\<lambda>_ _. False) s"
proof -
  let ?s = "start_sweep s"
  have r0: "rested l b ?s" using start_sweep_winding [OF assms] by (simp add: rested_def)
  obtain ks q m where d: "drain_while (e_clock E) (limit - work) (call_budget ?s) (ready ?s) = (ks, q, m)" by (metis surj_pair)
  note r1 = drain_rested [OF r0 d]
  have queued: "wp (queued_loop E ks work uncharged) (\<lambda>_. rested l b) (\<lambda>(_ :: 'e fault) _. False) (?s\<lparr>ready := q, call_budget := m\<rparr>)"
    by (rule wp_mono [OF queued_rested [OF r1(1)]]) (use r1(2) in \<open>auto intro: rested_mono\<close>)
  show ?thesis
    unfolding settle_rest_def wp_bnd wp_modify drain_ready_def wp_act d prod.case
    by (rule wp_mono [OF queued]) (auto intro!: wp_mono [OF pending_rested] close_rested [unfolded wp_bnd] simp: wp_bnd)
qed


lemma settle_rest_progress:
  assumes w: "winding l b s" and limit: "0 < limit" and aff: "affords (e_clock E) (Suc (Suc j)) (call_budget s)"
    and left: "ready_entries (ready s) \<noteq> [] \<or> ready_sweep_pending s \<noteq> []"
  shows "wp (settle_rest E res effects limit 0 0 :: (NativeStack, 'e, 'a Envelope) prog) (\<lambda>_. rested l (b - 1)) (\<lambda>_ _. False) s"
proof -
  let ?s = "start_sweep s"
  note st = start_sweep_winding [OF w]
  have r0: "rested l b ?s" using st by (simp add: rested_def)
  obtain ks q m where d: "drain_while (e_clock E) limit (call_budget ?s) (ready ?s) = (ks, q, m)" by (metis surj_pair)
  note r1 = drain_rested [OF r0 d]
  have free: "lock (ready ?s) \<noteq> Held" using r0 by (simp add: rested_def winding_def)
  note prog = drain_progress [OF d limit _ free, of "Suc j"]
  let ?s1 = "?s\<lparr>ready := q, call_budget := m\<rparr>"
  have queued: "wp (queued_loop E ks 0 0) (\<lambda>(work, uncharged). wp (pending_loop E (limit - work) work uncharged)
      (\<lambda>_. rested l (b - 1)) (\<lambda>(_ :: 'e fault) _. False)) (\<lambda>(_ :: 'e fault) _. False) ?s1"
  proof (cases "ready_entries (ready s) = []")
    case True
    then have ks: "ks = []" "affords (e_clock E) (Suc j) m" using prog(2) st aff by auto
    have "ready_sweep_pending ?s1 \<noteq> []" using left True st by simp
    moreover have "rested l b ?s1" using r1(1) ks(1) by simp
    ultimately show ?thesis using pending_progress [of l b ?s1 limit E j] ks limit by (simp add: wp_simps)
  next
    case False
    then have "ks \<noteq> []" using prog(1) st aff by auto
    then have "b - 2 * length ks + length ks \<le> b - 1" using r1(2) by (cases ks) auto
    then show ?thesis
      by (intro wp_mono [OF queued_rested [OF r1(1)]]) (auto intro!: pending_rested intro: rested_mono)
  qed
  show ?thesis
    unfolding settle_rest_def wp_bnd wp_modify drain_ready_def wp_act minus_nat.diff_0 d prod.case
    by (rule wp_mono [OF queued])
      (auto elim!: wp_mono intro!: close_rested [unfolded wp_bnd] simp: wp_bnd)
qed

lemma readiness_frame [simp]:
  "readiness_remains (s\<lparr>call_budget := m\<rparr>) = readiness_remains s" "readiness_remains (s\<lparr>counters := c\<rparr>) = readiness_remains s"
  "readiness_remains (s\<lparr>scheduled_poll_at := p\<rparr>) = readiness_remains s"
  by (simp_all add: readiness_remains_def)

lemma pending_loop_idle: "ready_sweep_pending s = [] \<Longrightarrow> wp (pending_loop E n w u) Q F s = Q (w, u) s"
  by (cases n) (simp_all add: wp_simps)

lemma settle_rest_idle:
  assumes w: "winding l b s" and "pending_notifications s = []" and "ready_entries (ready s) = []" and "ready_sweep_pending s = []"
  shows "wp (settle_rest E res effects limit work uncharged) (\<lambda>_ s'. rested l b s' \<and> \<not> readiness_remains s') (\<lambda>_ _. False) s"
proof -
  let ?s = "start_sweep s"
  note st = start_sweep_winding [OF w]
  have r0: "rested l b ?s" using st by (simp add: rested_def)
  obtain ks q m where d: "drain_while (e_clock E) (limit - work) (call_budget ?s) (ready ?s) = (ks, q, m)" by (metis surj_pair)
  note spec = drain_while_spec [OF d]
  have empty: "ks = []" "ready_entries q = []" using spec(2) st assms(3) by auto
  have r1: "rested l b (?s\<lparr>ready := q, call_budget := m\<rparr>)" using drain_rested(1) [OF r0 d] empty by simp
  then have idle: "\<not> readiness_remains (?s\<lparr>ready := q, call_budget := m\<rparr>)"
    using st assms(2-4) empty(2) by (simp add: readiness_remains_def rested_def winding_def has_pending_def)
  show ?thesis
    using r1 idle st assms(4)
    unfolding settle_rest_def wp_bnd wp_modify drain_ready_def wp_act d prod.case empty(1) queued_loop.simps wp_ret
    by (simp add: pending_loop_idle wp_bnd sweep_rested wp_simps charge_chunk_def charge_now_def split: option.splits prod.splits)
qed

lemma finish_winding:
  assumes w: "winding l b s"
  shows "wp (finish_call E res effects [] :: (NativeStack, 'e, 'a Envelope) prog) (\<lambda>_. rested l b) (\<lambda>_ _. False) s"
proof -
  have "eased (calm s) (structure_load s - 0) s" using w by (simp add: eased_def winding_def)
  then have "wp (abort_loop E (ready_events (limits s)) 0 0)
      (\<lambda>x. wp (settle_rest E res effects (ready_events (limits s)) (fst x) (snd x)) (\<lambda>_. rested l b) (\<lambda>(_ :: 'e fault) _. False))
      (\<lambda>(_ :: 'e fault) _. False) s"
    by (intro wp_mono [OF eased_abort]) (auto dest: eased_winding [OF w, of 0, simplified] intro: settle_rest_winding)
  then show ?thesis by (simp add: finish_call_eq wp_simps case_prod_beta)
qed

definition something_left :: "NativeStack \<Rightarrow> bool" where
  "something_left s \<longleftrightarrow> pending_notifications s \<noteq> [] \<or> ready_entries (ready s) \<noteq> [] \<or> ready_sweep_pending s \<noteq> []"

lemma something_left_load: "something_left s \<Longrightarrow> 0 < load s"
  by (auto simp: something_left_def load_def structure_load_def simp flip: length_greater_0_conv)

lemma abort_loop_idle: "pending_notifications s = [] \<Longrightarrow> wp (abort_loop E n w u) Q F s = Q (w, u) s"
  by (cases n) (simp_all add: wp_simps)

lemma finish_progress:
  assumes w: "winding l b s" and limit: "0 < ready_events l" and aff: "affords (e_clock E) (Suc (Suc j)) (call_budget s)"
    and left: "something_left s"
  shows "wp (finish_call E res effects [] :: (NativeStack, 'e, 'a Envelope) prog) (\<lambda>_. rested l (b - 1)) (\<lambda>_ _. False) s"
proof -
  have lim: "ready_events (limits s) = ready_events l" using w by (simp add: winding_def)
  have "wp (abort_loop E (ready_events l) 0 0)
      (\<lambda>x. wp (settle_rest E res effects (ready_events l) (fst x) (snd x)) (\<lambda>_. rested l (b - 1)) (\<lambda>(_ :: 'e fault) _. False))
      (\<lambda>(_ :: 'e fault) _. False) s"
  proof (cases "pending_notifications s = []")
    case False
    have e: "eased (calm s) (structure_load s) s" using w by (simp add: eased_def winding_def)
    have "1 \<le> structure_load s" using False by (cases "pending_notifications s") (auto simp: structure_load_def)
    note wind = eased_winding [OF w _ this]
    show ?thesis
      by (intro wp_mono [OF abort_progress [OF e limit False aff]]) (auto intro: settle_rest_winding [OF wind, unfolded One_nat_def])
  next
    case True
    then show ?thesis
      using settle_rest_progress [OF w limit aff] left by (simp add: abort_loop_idle something_left_def)
  qed
  then show ?thesis by (simp add: finish_call_eq wp_simps case_prod_beta lim)
qed

lemma finish_idle:
  assumes w: "winding l b s" and "\<not> something_left s"
  shows "wp (finish_call E res effects []) (\<lambda>_ s'. rested l b s' \<and> \<not> readiness_remains s') (\<lambda>_ _. False) s"
  using assms(2) settle_rest_idle [OF w]
  by (simp add: something_left_def finish_call_eq wp_simps abort_loop_idle)

section \<open>Shutdown completes\<close>

lemma structures_done: "structure_load s = 0 \<longleftrightarrow> \<not> shutdown_structures_pending s \<and> pending_notifications s = []"
  by (auto simp: shutdown_structures_pending_def structure_load_def queued_packets_def)

lemma shutdown_work_progress:
  assumes w: "winding l b s" and limit: "0 < maintenance_work l" and none: "pending_notifications s = []"
    and aff: "affords (e_clock E) (Suc j) (call_budget s)" and b: "load s \<le> b"
  shows "wp (shutdown_work E :: (NativeStack, 'e, Effects) prog) (\<lambda>_ s'. winding l (b - 1) s' \<and> 0 < b \<or>
     winding l b s' \<and> \<not> shutdown_structures_pending s' \<and> affords (e_clock E) j (call_budget s')) (\<lambda>_ _. False) s"
proof -
  have inv: "I0 s" "limits s = l" using w by (simp_all add: winding_def)
  have "wp (shutdown_loop E (maintenance_work l) 0 0) (\<lambda>_ s'. winding l (b - 1) s' \<and> 0 < b \<or>
     winding l b s' \<and> \<not> shutdown_structures_pending s' \<and> affords (e_clock E) j (call_budget s')) (\<lambda>(_ :: 'e fault) _. False) s"
  proof (rule wp_mono [OF shutdown_loop_progress [OF inv(1) limit aff]])
    fix s' assume s': "eased (calm s) (structure_load s) s' \<and>
      (structure_load s' < structure_load s \<or> \<not> shutdown_structures_pending s' \<and> pending_notifications s' = pending_notifications s \<and>
        affords (e_clock E) j (call_budget s'))"
    then have "winding l b s'" using eased_winding [OF w, of 0] by simp
    moreover have "winding l (b - 1) s' \<and> 0 < b" if less: "structure_load s' < structure_load s"
      using eased_winding [OF w, of 1 s'] less s' b by (auto simp: eased_def load_def)
    ultimately show "winding l (b - 1) s' \<and> 0 < b \<or>
       winding l b s' \<and> \<not> shutdown_structures_pending s' \<and> affords (e_clock E) j (call_budget s')"
      using s' by auto
  qed simp
  then show ?thesis
    unfolding shutdown_work_def wp_bnd wp_gets wp_modify wp_ret inv(2)
    by (rule wp_mono) (auto simp: shutdown_structures_pending_def)
qed

definition shut_down :: "Limits \<Rightarrow> nat \<Rightarrow> 'a Envelope \<Rightarrow> NativeStack \<Rightarrow> bool" where
  "shut_down l b v s \<longleftrightarrow> I0 s \<and> limits s = l \<and>
     (if env_more v then winding l (b - 1) s \<and> 0 < b else st_lifecycle s = Shutdown \<and> \<not> shutdown_pending s)"


lemma continue_end:
  assumes "rested l b s" and "shutdown_pending s \<Longrightarrow> winding l (c - 1) s \<and> 0 < c"
  shows "wp (bnd (gets shutdown_pending) (\<lambda>pending.
     if pending then ret (v\<lparr>env_more := True, env_poll_at := None\<rparr>)
     else bnd (modify finish_shutdown) (\<lambda>_. ret (v\<lparr>env_more := False\<rparr>)))) (shut_down l c) (\<lambda>_ _. False) s"
  using assms
  by (auto simp: wp_simps shut_down_def finish_shutdown_def rested_def winding_def shutdown_pending_def
      shutdown_structures_pending_def readiness_remains_def)

lemma continue_progress:
  assumes w: "winding l b s" and limit: "0 < maintenance_work l" "0 < ready_events l"
    and aff: "affords (e_clock E) 3 (call_budget s)" and b: "load s \<le> b"
  shows "wp (continue_shutdown E :: (NativeStack, 'e, unit Envelope) prog) (shut_down l b) (\<lambda>_ _. False) s"
proof -
  have three: "3 = Suc (Suc (Suc 0))" by simp
  let ?rest = "\<lambda>effects. bnd (finish_call E () effects []) (\<lambda>envelope.
     bnd (gets shutdown_pending) (\<lambda>pending.
     if pending then ret (envelope\<lparr>env_more := True, env_poll_at := None\<rparr>)
     else bnd (modify finish_shutdown) (\<lambda>_. ret (envelope\<lparr>env_more := False\<rparr>))))"
  have easy: "wp (?rest effects) (shut_down l b) (\<lambda>(_ :: 'e fault) _. False) s'" if "winding l (b - 1) s'" "0 < b" for effects s'
    unfolding wp_bnd [of "finish_call E () effects []"]
    by (rule wp_mono [OF finish_winding [OF that(1)]]) (use that(2) in \<open>auto intro!: continue_end simp: rested_def\<close>)
  have last: "wp (?rest effects) (shut_down l b) (\<lambda>(_ :: 'e fault) _. False) s'"
    if s': "winding l b s'" "affords (e_clock E) 2 (call_budget s')" "\<not> shutdown_structures_pending s' \<or> pending_notifications s' \<noteq> []"
      for effects s'
  proof (cases "something_left s'")
    case True
    then have "0 < b" using s'(1) something_left_load [of s'] by (simp add: winding_def)
    then show ?thesis
      unfolding wp_bnd [of "finish_call E () effects []"]
      by (intro wp_mono [OF finish_progress [OF s'(1) limit(2) s'(2) [unfolded numeral_2_eq_2] True]])
        (auto intro!: continue_end simp: rested_def)
  next
    case False
    then have "structure_load s' = 0" using s'(3) by (simp add: structures_done something_left_def)
    then have none: "load s' = 0" using False by (simp add: load_def something_left_def)
    then have "winding l 0 s'" using s'(1) by (simp add: winding_def)
    note idle = finish_idle [OF this False]
    show ?thesis
      unfolding wp_bnd [of "finish_call E () effects []"]
    proof (rule wp_mono [OF idle])
      fix x s1 assume s1: "rested l 0 s1 \<and> \<not> readiness_remains s1"
      then have "structure_load s1 = 0" by (simp add: rested_def winding_def load_def)
      then have "\<not> shutdown_pending s1" using s1 by (simp add: structures_done shutdown_pending_def)
      then show "wp (bnd (gets shutdown_pending) (\<lambda>pending.
         if pending then ret (x\<lparr>env_more := True, env_poll_at := None\<rparr>)
         else bnd (modify finish_shutdown) (\<lambda>_. ret (x\<lparr>env_more := False\<rparr>)))) (shut_down l b) (\<lambda>(_ :: 'e fault) _. False) s1"
        using s1 by (intro continue_end) auto
    qed simp
  qed
  show ?thesis
  proof (cases "pending_notifications s = []")
    case True
    have "wp (shutdown_work E) (\<lambda>effects. wp (?rest effects) (shut_down l b) (\<lambda>(_ :: 'e fault) _. False)) (\<lambda>(_ :: 'e fault) _. False) s"
      by (rule wp_mono [OF shutdown_work_progress [OF w limit(1) True aff [unfolded three] b]]) (auto intro: easy last simp: numeral_2_eq_2)
    then show ?thesis by (simp add: continue_shutdown_def wp_simps True)
  next
    case False
    have "wp (?rest Effects_empty) (shut_down l b) (\<lambda>(_ :: 'e fault) _. False) s"
      by (rule last) (use w aff False in \<open>auto simp: affords_def\<close>)
    then show ?thesis by (simp add: continue_shutdown_def wp_simps False)
  qed
qed

end
