(* ===== verification/Stack_Frame.thy ===== *)
theory Stack_Frame
  imports Stack_Shutdown
begin

text \<open>
  What no operation changes. The configuration of a stack, its limits, addresses, routes, timers and
  MTU, is set by \<open>NativeStack::new\<close> and only read afterwards; the lifecycle moves in \<open>shutdown\<close> and
  \<open>continue_shutdown\<close> alone.

  \<open>frames F m\<close> says that \<open>m\<close> leaves \<open>F\<close> of the state alone, whatever it returns and also when it panics.
\<close>

section \<open>Frames\<close>

definition frames :: "('s \<Rightarrow> 'f) \<Rightarrow> ('s, 'e, 'a) prog \<Rightarrow> bool" where
  "frames F m \<longleftrightarrow> (\<forall>s. F (snd (m s)) = F s)"

named_theorems frame_intros

lemma framesD: "frames F m \<Longrightarrow> m s = (v, s') \<Longrightarrow> F s' = F s"
  by (metis frames_def snd_conv)

lemma frames_basic [frame_intros]:
  "frames F (ret x)" "frames F (raise f)" "frames F (gets g)" "frames F (unwrap v)" "frames F (ask a)" "frames F (liftr r)"
  "frames F (debug_assert c)"
  by (auto simp: frames_def ret_def raise_def gets_def unwrap_def ask_def liftr_def debug_assert_def split: option.splits sum.splits)

lemma frames_bnd [frame_intros]: "frames F m \<Longrightarrow> (\<And>x. frames F (k x)) \<Longrightarrow> frames F (bnd m k)"
proof -
  assume m: "frames F m" and k: "\<And>x. frames F (k x)"
  show ?thesis
    unfolding frames_def
  proof
    fix s
    obtain v s' where run: "m s = (v, s')" by (rule prod.exhaust)
    show "F (snd (bnd m k s)) = F s"
      using framesD [OF m run] k by (cases v) (simp_all add: bnd_def run frames_def)
  qed
qed

lemma frames_modify [frame_intros]: "(\<And>s. F (f s) = F s) \<Longrightarrow> frames F (modify f)"
  by (simp add: frames_def modify_def)

lemma frames_act [frame_intros]: "(\<And>s. F (snd (f s)) = F s) \<Longrightarrow> frames F (act f)"
  by (simp add: frames_def act_def case_prod_beta)

lemma frames_expect [frame_intros]: "frames F m \<Longrightarrow> frames F (expect m)"
  by (auto simp: frames_def expect_def split: prod.splits sum.splits) (metis snd_conv)+

lemma frames_guarded [frame_intros]: "(c \<Longrightarrow> frames F m) \<Longrightarrow> frames F (guarded c m)"
  by (simp add: guarded_def frames_basic)

lemma frames_each [frame_intros]: "(\<And>x. frames F (f x)) \<Longrightarrow> frames F (each f xs)"
  by (induction xs) (auto intro: frame_intros)

lemma frames_cases [frame_intros]:
  "(c \<Longrightarrow> frames F m) \<Longrightarrow> (\<not> c \<Longrightarrow> frames F n) \<Longrightarrow> frames F (if c then m else n)"
  "frames F m \<Longrightarrow> (\<And>x. frames F (f x)) \<Longrightarrow> frames F (case v of None \<Rightarrow> m | Some x \<Rightarrow> f x)"
  "(\<And>x y. frames F (g x y)) \<Longrightarrow> frames F (case p of (x, y) \<Rightarrow> g x y)"
  "(\<And>e. frames F (h e)) \<Longrightarrow> (\<And>x. frames F (f x)) \<Longrightarrow> frames F (case r of Inl e \<Rightarrow> h e | Inr x \<Rightarrow> f x)"
  "frames F m \<Longrightarrow> (\<And>x xs. frames F (g x xs)) \<Longrightarrow> frames F (case l of [] \<Rightarrow> m | x # xs \<Rightarrow> g x xs)"
  "frames F m \<Longrightarrow> (\<And>e. frames F (h e)) \<Longrightarrow> frames F (case ft of Err e \<Rightarrow> h e | Panic \<Rightarrow> m)"
  by (auto split: option.splits prod.splits sum.splits list.splits fault.splits)

section \<open>The configuration\<close>

type_synonym config = "nat \<times> Limits \<times> nat \<times> TcpTimers \<times> IpCidr list \<times> Route list \<times> IpCidr list \<times> nat option \<times> LockState"

definition config :: "NativeStack \<Rightarrow> config" where
  "config s = (stack_id s, limits s, mtu s, tcp_timers s, ip_addrs s, iface_routes s, route_prefixes s,
     next_forced_budget_checkpoints s, lock (ready s))"

definition fixed :: "NativeStack \<Rightarrow> config \<times> Lifecycle" where
  "fixed s = (config s, st_lifecycle s)"

lemma fixed_frame [simp]:
  "fixed (s\<lparr>engine_calls := a0\<rparr>) = fixed s" "fixed (s\<lparr>socket_set := a1\<rparr>) = fixed s"
  "fixed (s\<lparr>dev := a2\<rparr>) = fixed s" "fixed (s\<lparr>socket_table := a3\<rparr>) = fixed s"
  "fixed (s\<lparr>id_counters := a4\<rparr>) = fixed s" "fixed (s\<lparr>tcp_records := a5\<rparr>) = fixed s"
  "fixed (s\<lparr>tcp_listeners := a6\<rparr>) = fixed s" "fixed (s\<lparr>tcp_connections := a7\<rparr>) = fixed s"
  "fixed (s\<lparr>udp_records := a8\<rparr>) = fixed s" "fixed (s\<lparr>closing_tcp := a9\<rparr>) = fixed s"
  "fixed (s\<lparr>closing_deadlines := a10\<rparr>) = fixed s" "fixed (s\<lparr>closing_sweep_cursor := a11\<rparr>) = fixed s"
  "fixed (s\<lparr>closing_cleanup_pending := a12\<rparr>) = fixed s" "fixed (s\<lparr>closing_cleanup_resweep := a13\<rparr>) = fixed s"
  "fixed (s\<lparr>maintenance_cleanup_turn := a14\<rparr>) = fixed s" "fixed (s\<lparr>scheduled_poll_at := a15\<rparr>) = fixed s"
  "fixed (s\<lparr>next_ephemeral_port := a16\<rparr>) = fixed s" "fixed (s\<lparr>next_udp_ephemeral_port := a17\<rparr>) = fixed s"
  "fixed (s\<lparr>listener_scan_cursor := a18\<rparr>) = fixed s" "fixed (s\<lparr>listener_scan_pending := a19\<rparr>) = fixed s"
  "fixed (s\<lparr>listener_scan_resweep := a20\<rparr>) = fixed s" "fixed (s\<lparr>listener_maintenance_turn := a21\<rparr>) = fixed s"
  "fixed (s\<lparr>ready_sweep := a22\<rparr>) = fixed s" "fixed (s\<lparr>ready_sweep_cursor := a23\<rparr>) = fixed s"
  "fixed (s\<lparr>ready_sweep_resweep := a24\<rparr>) = fixed s" "fixed (s\<lparr>ready_sweep_pending := a25\<rparr>) = fixed s"
  "fixed (s\<lparr>counters := a26\<rparr>) = fixed s" "fixed (s\<lparr>call_budget := a27\<rparr>) = fixed s"
  "fixed (s\<lparr>pending_notifications := a28\<rparr>) = fixed s" "fixed (s\<lparr>shutdown_reason := a29\<rparr>) = fixed s"
  "fixed (s\<lparr>outbox := a30\<rparr>) = fixed s"
  by (simp_all add: fixed_def config_def)

lemma fixed_ready [simp]: "lock q = lock (ready s) \<Longrightarrow> fixed (s\<lparr>ready := q\<rparr>) = fixed s"
  by (simp add: fixed_def config_def)

lemma lock_mark [simp]: "lock (fst (fold mark_ready ks qf)) = lock (fst qf)"
  by (induction ks arbitrary: qf) (auto simp: mark_ready_def Let_def split: prod.splits)

lemma fixed_wake [simp]:
  "fold mark_ready ks (ready s, f) = (q, f') \<Longrightarrow> fixed (s\<lparr>ready := q\<rparr>) = fixed s"
  by (metis fixed_ready fst_conv lock_mark)

lemma fixed_drain [simp]: "drain_while clock n m (ready s) = (ks, q, m') \<Longrightarrow> fixed (s\<lparr>ready := q\<rparr>) = fixed s"
  by (simp add: drain_while_spec(4))

lemma fixed_functions [simp]:
  "fixed (charge_now E s) = fixed s" "fixed (request_listener_scan s) = fixed s"
  "fixed (request_closing_cleanup s) = fixed s" "fixed (send_abort E n s) = fixed s" "fixed (deliver_or_discard_ready E k s) = fixed s"
  "fixed (start_sweep s) = fixed s" "fixed (after_scan scan s) = fixed s" "fixed (clear_closing_sweep s) = fixed s"
  "fixed (snd (allocate_child l s)) = fixed s" "fixed (reject_packet s) = fixed s"
  by (auto simp: charge_now_def request_listener_scan_def request_closing_cleanup_def send_abort_def
      send_message_def observe_notification_def deliver_or_discard_ready_def deliver_ready_def drop_readiness_def start_sweep_def
      take_overflow_def after_scan_def clear_closing_sweep_def allocate_child_def reject_packet_def check_def Let_def
      split: prod.splits option.splits ReadyResult.splits sum.splits)

section \<open>Programs\<close>

text \<open>The operations by depth: each group calls only the ones before it.\<close>

lemmas frame_splits = option.splits bool.splits list.splits prod.splits ConnectPhase.splits State.splits
  ListenError.splits ConnectError.splits UdpSendError.splits

lemma frames_connection_key [frame_intros]: "frames F (connection_key loc rem)"
  unfolding connection_key_def by (intro frame_intros)

lemma frames_1 [frame_intros]:
  "frames fixed (charge_chunk E x0 x1)" "frames fixed (within_budget E)" "frames fixed (wake x2)"
  "frames fixed (get_tcp x3)" "frames fixed (get_udp x4)" "frames fixed (put_socket x5 x6)"
  "frames fixed (add_socket x7)" "frames fixed (remove_socket x8)" "frames fixed (tcp_record_mut x9 x10)"
  "frames fixed (udp_record_mut x11 x12)" "frames fixed (allocate_ephemeral_port x13)"
  "frames fixed (allocate_udp_ephemeral_port x14)" "frames fixed (engine_poll_at E x15)" "frames fixed (instant_plus E x16a x16b)"
  "frames fixed (drain_ready E x16)" "frames fixed (run_scan E x17)" "frames fixed take_held"
  "frames fixed (return_held x18)" "frames fixed (take_output E x19 x20)" "frames fixed (hold_unprocessed x21)"
  "frames fixed (validate_packet x25)" "frames fixed (on_table x26)"
  "frames fixed (insert_entry x27)" "frames fixed (remove_connection x28)"
  unfolding charge_chunk_def within_budget_def wake_def get_tcp_def get_udp_def put_socket_def add_socket_def
    remove_socket_def tcp_record_mut_def udp_record_mut_def allocate_ephemeral_port_def
    allocate_udp_ephemeral_port_def engine_poll_at_def instant_plus_def drain_ready_def run_scan_def take_held_def return_held_def
    take_output_def hold_unprocessed_def validate_packet_def on_table_def insert_entry_def remove_connection_def Let_def
  by ((intro frame_intros)?; auto intro!: frame_intros split: frame_splits)+

lemma frames_remove_tcp_record [frame_intros]: "frames fixed (remove_tcp_record r)"
  unfolding remove_tcp_record_def by (intro frame_intros) simp

lemma frames_2 [frame_intros]:
  "frames fixed (on_tcp x0 x1)" "frames fixed (on_udp x2 x3)" "frames fixed (remove_tcp_socket x4)"
  "frames fixed (ensure_connected x5)" "frames fixed (mark_listener_ready x6)" "frames fixed (inbound_reset x7)"
  "frames fixed (record_inbound_reset x8)" "frames fixed (engine_ingress E x9 x10)"
  "frames fixed (engine_egress E x11)" "frames fixed shutdown_step" "frames fixed (current_effects E x12)"
  "frames fixed (next_poll E x22 x23 x24)"
  unfolding on_tcp_def on_udp_def remove_tcp_socket_def ensure_connected_def mark_listener_ready_def inbound_reset_def
    record_inbound_reset_def engine_ingress_def engine_egress_def shutdown_step_def current_effects_def next_poll_def Let_def
  by ((intro frame_intros)?; auto intro!: frame_intros split: frame_splits)+

lemma frames_abort_loop [frame_intros]: "frames fixed (abort_loop a0 a1 a2 a3)"
  by (induction a1 arbitrary: a0 a2 a3) (auto simp: Let_def intro!: frame_intros split: prod.splits)

lemma frames_queued_loop [frame_intros]: "frames fixed (queued_loop a0 a1 a2 a3)"
  by (induction a1 arbitrary: a0 a2 a3) (auto simp: Let_def intro!: frame_intros split: prod.splits)

lemma frames_pending_loop [frame_intros]: "frames fixed (pending_loop a0 a1 a2 a3)"
  by (induction a1 arbitrary: a0 a2 a3) (auto simp: Let_def intro!: frame_intros split: prod.splits)

lemma frames_scan_keys_loop [frame_intros]: "frames fixed (scan_keys_loop a0 a1 a2)"
  by (induction a1 arbitrary: a0 a2) (auto simp: Let_def intro!: frame_intros split: prod.splits)

lemma frames_validate_batch [frame_intros]: "frames fixed (validate_batch a0 a1)"
  by (induction a0 arbitrary: a1) (auto simp: Let_def intro!: frame_intros split: prod.splits)

lemma frames_any_tcp [frame_intros]: "frames fixed (any_tcp a0 a1)"
  by (induction a1 arbitrary: a0) (auto simp: Let_def intro!: frame_intros split: prod.splits)

lemma frames_add_pool [frame_intros]: "frames fixed (add_pool a0 a1 a2)"
  by (induction a0 arbitrary: a1 a2) (auto simp: Let_def intro!: frame_intros split: prod.splits)

lemma frames_take_waiters [frame_intros]: "frames fixed (take_waiters a0 a1)"
  by (induction a1 arbitrary: a0) (auto simp: Let_def intro!: frame_intros split: prod.splits)

lemma frames_close_children [frame_intros]: "frames fixed (close_children a0)"
  by (induction a0) (auto simp: Let_def intro!: frame_intros split: prod.splits)

lemma frames_add_all [frame_intros]: "frames fixed (add_all a0)"
  by (induction a0) (auto simp: Let_def intro!: frame_intros split: prod.splits)

lemma frames_any_udp [frame_intros]: "frames fixed (any_udp a0 a1)"
  by (induction a1 arbitrary: a0) (auto simp: Let_def intro!: frame_intros split: prod.splits)

lemma frames_3 [frame_intros]:
  "frames fixed (upd_tcp x0 x1)" "frames fixed (wake_tcp x2 x3)" "frames fixed (sweep_step E x4 x5)"
  "frames fixed (arm_udp_waiter x6 x7 x8 x9 x10 x11 x12)"
  unfolding upd_tcp_def wake_tcp_def sweep_step_def arm_udp_waiter_def Let_def
  by ((intro frame_intros)?; auto intro!: frame_intros split: frame_splits)+

lemma frames_egress_loop [frame_intros]: "frames fixed (egress_loop a0 a1 a2 a3 a4 a5)"
  by (induction a2 arbitrary: a0 a1 a3 a4 a5) (auto simp: Let_def intro!: frame_intros split: prod.splits)

lemma frames_receive_from [frame_intros]: "frames fixed (receive_from a0 a1 a2 a3 a4)"
  by (induction a4 arbitrary: a0 a1 a2 a3) (auto simp: Let_def intro!: frame_intros split: prod.splits)

lemma frames_shutdown_loop [frame_intros]: "frames fixed (shutdown_loop a0 a1 a2 a3)"
  by (induction a1 arbitrary: a0 a2 a3) (auto simp: Let_def intro!: frame_intros split: prod.splits)

lemma frames_4 [frame_intros]:
  "frames fixed (finish_call E x0 x1 x2)" "frames fixed (add_listener_member x3)" "frames fixed (reap_one x4 x5)"
  "frames fixed (retarget_socket x6 x7)" "frames fixed (arm_tcp_waiter x8 x9 x10 x11 x12 x13 x14)"
  "frames fixed (arm_listener_waiter x15 x16 x17)" "frames fixed (listen_socket x18 x19)"
  "frames fixed (begin_graceful_close E x20 x21 x22)" "frames fixed (shutdown_work E)"
  unfolding finish_call_def add_listener_member_def reap_one_def retarget_socket_def arm_tcp_waiter_def
    arm_listener_waiter_def listen_socket_def begin_graceful_close_def shutdown_work_def Let_def
  by ((intro frame_intros)?; auto intro!: frame_intros split: frame_splits)+

lemma frames_receive_loop [frame_intros]: "frames fixed (receive_loop a0 a1 a2 a3 a4 a5)"
  by (induction a4 arbitrary: a0 a1 a2 a3 a5) (auto simp: Let_def intro!: frame_intros split: prod.splits)

lemma frames_5 [frame_intros]:
  "frames fixed (recycle_listener_member x0 x1)" "frames fixed (promote_listener_member x2 x3 x4 x5 x6)"
  "frames fixed (retarget_wildcard_listener x7)" "frames fixed (arm_connect x8 x9 x10 x11)"
  "frames fixed (tcp_open E x12 x13 x14)" "frames fixed (socket_validate E x15)" "frames fixed (tcp_bind E x16 x17)"
  "frames fixed (tcp_sockname E x18)" "frames fixed (tcp_nodelay E x19)" "frames fixed (tcp_keepalive E x20)"
  "frames fixed (tcp_peername E x21)" "frames fixed (cancel_call E x22 x23 x24)" "frames fixed (udp_open E x25)"
  "frames fixed (udp_bind E x26 x27)" "frames fixed (udp_connect E x28 x29)" "frames fixed (udp_sockname E x30)"
  "frames fixed (udp_peername E x31)"
  unfolding recycle_listener_member_def promote_listener_member_def retarget_wildcard_listener_def arm_connect_def
    tcp_open_def socket_validate_def tcp_bind_def tcp_sockname_def tcp_nodelay_def tcp_keepalive_def tcp_peername_def
    cancel_call_def udp_open_def udp_bind_def udp_connect_def udp_sockname_def udp_peername_def Let_def
  by ((intro frame_intros)?; auto intro!: frame_intros split: frame_splits)+

lemma frames_reap_loop [frame_intros]: "frames fixed (reap_loop a0 a1 a2 a3 a4)"
  by (induction a2 arbitrary: a0 a1 a3 a4) (auto simp: Let_def intro!: frame_intros split: prod.splits)

lemma frames_6 [frame_intros]:
  "frames fixed (refresh_member x0 x1)" "frames fixed (reap_closing_tcp E x2 x3)"
  unfolding refresh_member_def reap_closing_tcp_def Let_def
  by ((intro frame_intros)?; auto intro!: frame_intros split: frame_splits)+

lemma frames_ingress_loop [frame_intros]: "frames fixed (ingress_loop a0 a1 a2 a3 a4)"
  by (induction a2 arbitrary: a0 a1 a3 a4) (auto simp: Let_def intro!: frame_intros split: prod.splits)

lemma frames_7 [frame_intros]:
  "frames fixed (refresh_listener_member x0)" "frames fixed (first_cleanup E x1)"
  "frames fixed (last_cleanup E x2 x3 x4)"
  unfolding refresh_listener_member_def first_cleanup_def last_cleanup_def Let_def
  by ((intro frame_intros)?; auto intro!: frame_intros split: frame_splits)+

lemma frames_refresh_loop [frame_intros]: "frames fixed (refresh_loop a0 a1 a2 a3)"
  by (induction a1 arbitrary: a0 a2 a3) (auto simp: Let_def intro!: frame_intros split: prod.splits)

lemma frames_8 [frame_intros]:
  "frames fixed (refresh_listeners E x0)"
  unfolding refresh_listeners_def Let_def
  by ((intro frame_intros)?; auto intro!: frame_intros split: frame_splits)+

lemma frames_9 [frame_intros]:
  "frames fixed (first_refresh E x0)" "frames fixed (last_refresh E x1 x2)" "frames fixed (tcp_accept E x3 x4 x5 x6)"
  unfolding first_refresh_def last_refresh_def tcp_accept_def Let_def
  by ((intro frame_intros)?; auto intro!: frame_intros split: frame_splits)+

lemma frames_10 [frame_intros]:
  "frames fixed (drive_maintenance E x0 x1)"
  unfolding drive_maintenance_def Let_def
  by ((intro frame_intros)?; auto intro!: frame_intros split: frame_splits)+

lemma frames_11 [frame_intros]:
  "frames fixed (drive_batch E x0 x1 x2)"
  unfolding drive_batch_def Let_def
  by ((intro frame_intros)?; auto intro!: frame_intros split: frame_splits)+

lemma frames_12 [frame_intros]:
  "frames fixed (drive E x0 x1)" "frames fixed (ingress_batch E x2 x3)"
  unfolding drive_def ingress_batch_def Let_def
  by ((intro frame_intros)?; auto intro!: frame_intros split: frame_splits)+

lemma frames_13 [frame_intros]:
  "frames fixed (ingress E x0 x1)" "frames fixed (poll E x2)" "frames fixed (grant_egress_call E x3 x4 x5)"
  "frames fixed (tcp_listen E x6 x7 x8)" "frames fixed (finalize_or_arm_connect E x9 x10 x11 x12)"
  "frames fixed (start_connect E x13 x14 x15 x16 x17 x18)" "frames fixed (tcp_set_nodelay E x19 x20 x21)"
  "frames fixed (tcp_set_keepalive E x22 x23 x24)" "frames fixed (tcp_send E x25 x26 x27 x28 x29)"
  "frames fixed (tcp_recv E x30 x31 x32 x33 x34)" "frames fixed (tcp_shutdown E x35 x36 x37)"
  "frames fixed (tcp_listener_close E x38 x39)" "frames fixed (udp_sendto E x40 x41 x42 x43 x44 x45)"
  "frames fixed (udp_recvfrom E x46 x47 x48 x49 x50)" "frames fixed (udp_close E x51 x52)"
  unfolding ingress_def poll_def grant_egress_call_def tcp_listen_def finalize_or_arm_connect_def start_connect_def
    tcp_set_nodelay_def tcp_set_keepalive_def tcp_send_def tcp_recv_def tcp_shutdown_def tcp_listener_close_def
    udp_sendto_def udp_recvfrom_def udp_close_def Let_def
  by ((intro frame_intros)?; auto intro!: frame_intros split: frame_splits)+

lemma frames_14 [frame_intros]:
  "frames fixed (tcp_connect E x0 x1 x2 x3 x4)" "frames fixed (tcp_close E x5 x6)"
  unfolding tcp_connect_def tcp_close_def Let_def
  by ((intro frame_intros)?; auto intro!: frame_intros split: frame_splits)+

section \<open>The lifecycle\<close>

text \<open>A running stack may shut down and a stack shutting down may finish; there is no way back.\<close>

fun stage :: "Lifecycle \<Rightarrow> nat" where
  "stage Running = 0"
| "stage ShuttingDown = 1"
| "stage Shutdown = 2"

definition advances :: "(NativeStack, 'e, 'a) prog \<Rightarrow> bool" where
  "advances m \<longleftrightarrow> (\<forall>s. config (snd (m s)) = config s \<and> stage (st_lifecycle s) \<le> stage (st_lifecycle (snd (m s))))"

lemma advances_frames: "frames fixed m \<Longrightarrow> advances m"
  by (simp add: frames_def advances_def fixed_def)

lemma config_frame [simp]: "config (finish_shutdown s) = config s" "config (s\<lparr>shutdown_reason := a\<rparr>) = config s"
  "config (s\<lparr>st_lifecycle := b\<rparr>) = config s" "config (s\<lparr>ready_sweep := c\<rparr>) = config s"
  "config (s\<lparr>ready_sweep_cursor := d\<rparr>) = config s" "config (s\<lparr>ready_sweep_resweep := e\<rparr>) = config s"
  "config (s\<lparr>ready_sweep_pending := f\<rparr>) = config s"
  by (simp_all add: config_def finish_shutdown_def)

lemma advances_bnd: "advances m \<Longrightarrow> (\<And>x. advances (k x)) \<Longrightarrow> advances (bnd m k)"
proof -
  assume m: "advances m" and k: "\<And>x. advances (k x)"
  show ?thesis
    unfolding advances_def
  proof
    fix s
    obtain v s' where run: "m s = (v, s')" by (rule prod.exhaust)
    have m': "config s' = config s" "stage (st_lifecycle s) \<le> stage (st_lifecycle s')"
      using m run by (auto simp: advances_def dest: spec [of _ s])
    have k': "config (snd (k x s')) = config s'" "stage (st_lifecycle s') \<le> stage (st_lifecycle (snd (k x s')))" for x
      using k [of x] by (simp_all add: advances_def)
    show "config (snd (bnd m k s)) = config s \<and> stage (st_lifecycle s) \<le> stage (st_lifecycle (snd (bnd m k s)))"
      using m' k' by (cases v) (auto simp: bnd_def run intro: order_trans)
  qed
qed

lemma advances_if: "advances m \<Longrightarrow> advances n \<Longrightarrow> advances (if c then m else n)"
  by simp

lemma advances_modify: "(\<And>s. config (f s) = config s \<and> stage (st_lifecycle s) \<le> stage (st_lifecycle (f s))) \<Longrightarrow> advances (modify f)"
  by (simp add: advances_def modify_def)

lemma advances_finish: "advances (modify finish_shutdown)"
proof (rule advances_modify)
  fix s
  have "stage l \<le> 2" for l by (cases l) simp_all
  then show "config (finish_shutdown s) = config s \<and> stage (st_lifecycle s) \<le> stage (st_lifecycle (finish_shutdown s))"
    by simp (simp add: finish_shutdown_def)
qed

lemma advances_continue: "advances (continue_shutdown E)"
  unfolding continue_shutdown_def
  by (intro advances_bnd advances_if advances_finish) (auto intro!: advances_frames frame_intros)

lemma advances_shutdown: "advances (shutdown E reason :: (NativeStack, 'e, unit Envelope) prog)"
  unfolding advances_def
proof
  fix s :: NativeStack
  let ?s = "s\<lparr>shutdown_reason := reason, st_lifecycle := ShuttingDown, ready_sweep := False,
    ready_sweep_cursor := None, ready_sweep_resweep := False, ready_sweep_pending := []\<rparr>"
  let ?m = "continue_shutdown E :: (NativeStack, 'e, unit Envelope) prog"
  have "config (snd (?m ?s)) = config ?s \<and> stage (st_lifecycle ?s) \<le> stage (st_lifecycle (snd (?m ?s)))"
    using advances_continue unfolding advances_def by blast
  then show "config (snd (shutdown E reason s :: ('e fault, unit Envelope) result \<times> NativeStack)) = config s \<and>
      stage (st_lifecycle s) \<le> stage (st_lifecycle (snd (shutdown E reason s :: ('e fault, unit Envelope) result \<times> NativeStack)))"
    by (cases "st_lifecycle s") (auto simp: shutdown_def bnd_def gets_def modify_def ret_def)
qed

lemma advances_poll: "advances (poll_call E now)"
  unfolding poll_call_def
  by (rule advances_bnd)
    (auto intro!: advances_continue advances_frames frame_intros split: Lifecycle.splits)

end
