(* ===== verification/Stack_Inspect.thy ===== *)
theory Stack_Inspect
  imports Stack_Shutdown
begin

text \<open>
  Reading a stack (\<open>snapshot\<close> of \<open>stack.rs\<close>) and the hooks of debug builds that tests use to reach
  states ordinary calls do not reach (\<open>apply_bounded_work\<close> and the \<open>test_\<close> functions). The engine's
  path MTU statistics are an argument of \<open>snapshot\<close>.
\<close>

section \<open>Snapshot\<close>

record ReadinessCounters =
  rcnt_queued :: nat
  rcnt_coalesced :: nat
  rcnt_overflows :: nat

definition readiness_counters :: "ReadyState \<Rightarrow> ReadinessCounters" where
  "readiness_counters q = \<lparr>rcnt_queued = queued q, rcnt_coalesced = coalesced q, rcnt_overflows = overflows q\<rparr>"

record TcpSocketBufferBytes =
  sb_id :: nat
  sb_generation :: nat
  sb_rcvbuf :: nat
  sb_sndbuf :: nat

record TcpBufferBytes =
  default_rcvbuf :: nat
  default_sndbuf :: nat
  buffer_sockets :: "TcpSocketBufferBytes list"

record PathMtuStats =
  pm_received :: nat
  pm_rejected :: nat
  pm_reductions :: nat

text \<open>\<open>snap_counters\<close> and \<open>snap_path_mtu\<close> are the two parts of \<open>Counters::with_path_mtu\<close>.\<close>

record Snapshot =
  snap_id :: nat
  snap_limits :: Limits
  socket_count :: nat
  native_socket_count :: nat
  native_socket_capacity :: nat
  snap_socket_buffer_bytes :: nat
  socket_buffer_capacity :: nat
  tcp_socket_count :: nat
  tcp_listener_count :: nat
  udp_socket_count :: nat
  listener_pool_socket_count :: nat
  listener_pool_target_count :: nat
  accepted_queue_count :: nat
  listener_backlog_capacity :: nat
  closing_tcp_socket_count :: nat
  tcp_buffer_bytes :: TcpBufferBytes
  udp_packet_capacity :: nat
  udp_payload_bytes :: nat
  udp_max_datagram_bytes :: nat
  udp_ipv4_max_datagram_bytes :: nat
  snap_waiter_count :: nat
  read_waiter_count :: nat
  write_waiter_count :: nat
  sent_waiter_count :: nat
  read_sent_waiter_count :: nat
  write_sent_waiter_count :: nat
  ready_count :: nat
  ready_overflow_pending :: bool
  readiness :: ReadinessCounters
  receive_packets :: nat
  transmit_packets :: nat
  snap_egress_credit :: "EgressCredit option"
  snap_mtu :: nat
  ip_address_count :: nat
  snap_lifecycle :: Lifecycle
  call_target_nanoseconds :: nat
  work_budget_nanoseconds :: nat
  encoding_headroom_nanoseconds :: nat
  snap_counters :: Counters
  snap_path_mtu :: PathMtuStats

definition record_buffer_bytes :: "TcpRecord \<Rightarrow> TcpSocketBufferBytes" where
  "record_buffer_bytes r = \<lparr>sb_id = si_id (tr_identity r), sb_generation = generation (tr_identity r),
     sb_rcvbuf = tr_rcvbuf r, sb_sndbuf = tr_sndbuf r\<rparr>"

definition listener_buffer_bytes :: "ListenerRecord \<Rightarrow> TcpSocketBufferBytes" where
  "listener_buffer_bytes l = \<lparr>sb_id = si_id (lr_identity l), sb_generation = generation (lr_identity l),
     sb_rcvbuf = lr_rcvbuf l, sb_sndbuf = lr_sndbuf l\<rparr>"

definition snapshot :: "PathMtuStats \<Rightarrow> NativeStack \<Rightarrow> Snapshot Envelope" where
  "snapshot stats s =
     (let (rx, tx) = queued_packets (dev s);
          (read_waiters, write_waiters) = waiter_counts (socket_table s);
          (read_sent_waiters, write_sent_waiters) = sent_waiter_counts (socket_table s);
          ls = map snd (tcp_listeners s);
          buffers = sort_key sb_id (map (record_buffer_bytes \<circ> snd) (tcp_records s) @ map listener_buffer_bytes ls)
      in Envelope_empty
       \<lparr>snap_id = stack_id s,
        snap_limits = limits s,
        socket_count = table_len (socket_table s),
        native_socket_count = ss_count (socket_set s),
        native_socket_capacity = sockets (limits s),
        snap_socket_buffer_bytes = socket_buffer_bytes s,
        socket_buffer_capacity = MAX_SOCKET_BUFFER_BYTES,
        tcp_socket_count = length (tcp_records s),
        tcp_listener_count = length (tcp_listeners s),
        udp_socket_count = length (udp_records s),
        listener_pool_socket_count = sum_list (map (length \<circ> pool) ls),
        listener_pool_target_count = sum_list (map pool_target ls),
        accepted_queue_count = sum_list (map (length \<circ> accept_queue) ls),
        listener_backlog_capacity = sum_list (map backlog ls),
        closing_tcp_socket_count = length (closing_tcp s),
        tcp_buffer_bytes = \<lparr>default_rcvbuf = DEFAULT_BUFFER_BYTES, default_sndbuf = DEFAULT_BUFFER_BYTES,
                            buffer_sockets = buffers\<rparr>,
        udp_packet_capacity = PACKET_CAPACITY,
        udp_payload_bytes = PAYLOAD_BYTES,
        udp_max_datagram_bytes = max_datagram_bytes (mtu s) Inet6,
        udp_ipv4_max_datagram_bytes = max_datagram_bytes (mtu s) Inet,
        snap_waiter_count = waiter_count (socket_table s),
        read_waiter_count = read_waiters,
        write_waiter_count = write_waiters,
        sent_waiter_count = read_sent_waiters + write_sent_waiters,
        read_sent_waiter_count = read_sent_waiters,
        write_sent_waiter_count = write_sent_waiters,
        ready_count = ready_len (ready s) + length (ready_sweep_pending s),
        ready_overflow_pending = (ready_sweep s \<or> ready_sweep_pending s \<noteq> [] \<or> has_pending (ready s)),
        readiness = readiness_counters (ready s),
        receive_packets = rx,
        transmit_packets = tx,
        snap_egress_credit = credit (dev s),
        snap_mtu = mtu s,
        ip_address_count = length (ip_addrs s),
        snap_lifecycle = st_lifecycle s,
        call_target_nanoseconds = CALL_TARGET,
        work_budget_nanoseconds = WORK_BUDGET,
        encoding_headroom_nanoseconds = ENCODING_HEADROOM,
        snap_counters = counters s,
        snap_path_mtu = stats\<rparr>)"

section \<open>Hooks of debug builds\<close>

definition apply_bounded_work :: "Work \<Rightarrow> (NativeStack, 'e, Work Envelope) prog" where
  "apply_bounded_work requested =
     bnd (gets (\<lambda>s. constrain (limits s) requested)) (\<lambda>(completed, more).
     bnd (modify (\<lambda>s. s\<lparr>counters := observe completed (counters s)\<rparr>)) (\<lambda>_.
     ret ((Envelope_empty completed)\<lparr>env_more := more\<rparr>)))"

definition test_set_budget_checkpoints :: "nat \<Rightarrow> (NativeStack, 'e, unit Envelope) prog" where
  "test_set_budget_checkpoints n =
     bnd (modify (\<lambda>s. s\<lparr>next_forced_budget_checkpoints := Some n\<rparr>)) (\<lambda>_. ret (Envelope_empty ()))"

definition test_set_max_waiters :: "nat \<Rightarrow> SocketTable \<Rightarrow> SocketTable" where
  "test_set_max_waiters n t = t\<lparr>max_waiters := n\<rparr>"

definition test_set_waiter_capacity :: "nat \<Rightarrow> (NativeStack, 'e, unit Envelope) prog" where
  "test_set_waiter_capacity n =
     bnd (modify (\<lambda>s. s\<lparr>socket_table := test_set_max_waiters n (socket_table s)\<rparr>)) (\<lambda>_. ret (Envelope_empty ()))"

definition test_set_slice_exhaustion :: "nat \<Rightarrow> (NativeStack, 'e, unit Envelope) prog" where
  "test_set_slice_exhaustion n =
     bnd (modify (\<lambda>s. s\<lparr>next_forced_slice_exhaustion := Some n\<rparr>)) (\<lambda>_. ret (Envelope_empty ()))"

definition full_work :: "Limits \<Rightarrow> Work" where
  "full_work l = \<lparr>w_bytes_copied = bytes_copied l, w_input_packets = input_packets l, w_output_packets = output_packets l,
     w_ready_events = ready_events l, w_maintenance_work = maintenance_work l\<rparr>"

definition zeroed :: "(nat \<Rightarrow> bool) \<Rightarrow> nat \<Rightarrow> bytes option" where
  "zeroed alloc n = (if alloc n then Some (replicate n 0) else None)"

text \<open>The packets of a full call: \<open>bytes_copied\<close> split over \<open>output_packets\<close>, the first ones a byte
  larger. Dividing by zero packets panics, and so does a packet without a buffer; a created stack has at
  least one packet.\<close>

definition zeroed_output :: "(nat \<Rightarrow> bool) \<Rightarrow> Work \<Rightarrow> bytes list option" where
  "zeroed_output alloc w =
     (let packet_count = w_output_packets w;
          base_size = w_bytes_copied w div packet_count;
          larger_packets = w_bytes_copied w mod packet_count
      in those (map (\<lambda>i. zeroed alloc (base_size + of_bool (i < larger_packets))) [0..<packet_count]))"

definition take_zeroed :: "Env \<Rightarrow> Work \<Rightarrow> (NativeStack, 'e, bytes list) prog" where
  "take_zeroed E w =
     bnd (gets (\<lambda>s. zeroed_output (e_alloc E (engine_calls s)) w)) (\<lambda>output.
     case output of None \<Rightarrow> raise Panic | Some ps \<Rightarrow> ret ps)"

definition test_maximum_work :: "Env \<Rightarrow> (NativeStack, 'e, Work Envelope) prog" where
  "test_maximum_work E =
     bnd (gets (\<lambda>s. full_work (limits s))) (\<lambda>completed.
     if w_output_packets completed = 0 then raise Panic
     else
       bnd (take_zeroed E completed) (\<lambda>output.
       bnd (modify (\<lambda>s. s\<lparr>counters := observe completed (counters s)\<rparr>)) (\<lambda>_.
       ret ((Envelope_empty completed)\<lparr>env_output := output\<rparr>))))"

text \<open>A waker per key, each checked before any of them wakes.\<close>

fun check_keys :: "SocketKind option \<Rightarrow> ReadyKey list \<Rightarrow> SocketTable \<Rightarrow> (SocketError, ReadyKey list) result" where
  "check_keys kd [] t = Inr []"
| "check_keys kd (key # keys) t =
     bind_res (case kd of Some k \<Rightarrow> Inr k | None \<Rightarrow> bind_res (validate_any t (identity key)) (\<lambda>e. Inr (kind e))) (\<lambda>k.
     bind_res (ready_flag t (identity key) k (direction key)) (\<lambda>flag.
     bind_res (check_keys kd keys t) (\<lambda>flags. Inr (flag # flags))))"

definition test_combined_maximum_work ::
    "Env \<Rightarrow> ReadyKey list \<Rightarrow> instant \<Rightarrow> (NativeStack, SocketError, Work Envelope) prog" where
  "test_combined_maximum_work E keys now =
     bnd (gets limits) (\<lambda>l.
     if ready_events l < length keys then raise (Err SE_SystemLimit)
     else
       bnd (ask (\<lambda>s. check_keys (Some Synthetic) keys (socket_table s))) (\<lambda>flags.
       bnd (wake flags) (\<lambda>_.
       let completed = full_work l in
       bnd (if w_output_packets completed = 0 then raise Panic else ret ()) (\<lambda>_.
       bnd (poll E now) (\<lambda>effects.
       bnd (take_zeroed E completed) (\<lambda>output.
       bnd (modify (\<lambda>s. s\<lparr>counters := observe (Work_default\<lparr>w_bytes_copied := w_bytes_copied completed,
              w_output_packets := w_output_packets completed\<rparr>) (counters s)\<rparr>)) (\<lambda>_.
       finish_call E completed (effects\<lparr>eff_output := output\<rparr>) [])))))))"

definition PREPARED_BUFFER :: nat where
  "PREPARED_BUFFER = 64 * 1024"

definition prepare_one :: "instant \<Rightarrow> unit op" where
  "prepare_one dl =
     bnd (ask ensure_logical_socket_capacity) (\<lambda>_.
     bnd (ask (ensure_native_socket_capacity 1 0)) (\<lambda>_.
     bnd (ask (ensure_socket_buffer_capacity (2 * PREPARED_BUFFER))) (\<lambda>_.
     bnd (liftr (tcp_socket PREPARED_BUFFER PREPARED_BUFFER)) (\<lambda>sk.
     bnd (add_socket (NTcp sk)) (\<lambda>h.
     bnd (insert_entry Tcp) (\<lambda>r.
     case r of
       Inl e \<Rightarrow> bnd (remove_socket h) (\<lambda>_. raise (Err e))
     | Inr i \<Rightarrow>
         let record = (TcpRecord_new i h Inet6 PREPARED_BUFFER PREPARED_BUFFER)\<lparr>phase := Connected, close_deadline := Some dl\<rparr> in
         bnd (modify (\<lambda>s. s\<lparr>tcp_records := bt_insert (si_id i) record (tcp_records s)\<rparr>)) (\<lambda>_.
         bnd (on_table (table_close i)) (\<lambda>_.
         bnd (wake_tcp h sk_close) (\<lambda>_.
         modify (\<lambda>s. s\<lparr>closing_tcp := bs_insert (si_id i) (closing_tcp s),
                       closing_deadlines := bs_insert (dl, si_id i) (closing_deadlines s)\<rparr>))))))))))"

definition test_prepare_closing :: "Env \<Rightarrow> nat \<Rightarrow> unit Envelope op" where
  "test_prepare_closing E count =
     bnd (gets limits) (\<lambda>l.
     if sockets l < count then raise (Err SE_SystemLimit)
     else
       bnd (instant_plus E 0 (Duration_from_millis CLOSE_TIMEOUT_MILLIS)) (\<lambda>dl.
       bnd (each (\<lambda>_. prepare_one dl) [0..<count]) (\<lambda>_.
       bnd (modify (\<lambda>s. (request_closing_cleanup (s\<lparr>closing_sweep_cursor := None\<rparr>))\<lparr>maintenance_cleanup_turn := False\<rparr>)) (\<lambda>_.
       ret (Envelope_empty ())))))"

definition test_fill_transmit :: "(nat \<Rightarrow> bool) \<Rightarrow> nat \<Rightarrow> nat \<Rightarrow> BeamDevice \<Rightarrow> (bool \<times> BeamDevice) option" where
  "test_fill_transmit alloc packet_count packet_size d =
     (if transmit d \<noteq> [] then Some (False, d)
      else map_option (\<lambda>ps. (True, d\<lparr>transmit := ps, transmit_bytes := packet_count * packet_size\<rparr>))
             (those (replicate packet_count (zeroed alloc packet_size))))"

definition test_prepare_maximum_drop :: "Env \<Rightarrow> unit Envelope op" where
  "test_prepare_maximum_drop E =
     bnd (gets (\<lambda>s. test_fill_transmit (e_alloc E (engine_calls s)) (output_packets (limits s)) (mtu s) (dev s))) (\<lambda>filled.
     case filled of
       None \<Rightarrow> raise Panic
     | Some (ok, d) \<Rightarrow>
         bnd (modify (\<lambda>s. s\<lparr>dev := d\<rparr>)) (\<lambda>_.
         if \<not> ok then raise (Err SE_InvalidState) else ret (Envelope_empty ())))"

definition test_socket_open :: "Env \<Rightarrow> nat \<Rightarrow> SocketIdentity Envelope op" where
  "test_socket_open E internal =
     bnd (ask ensure_running) (\<lambda>_.
     bnd (ask ensure_logical_socket_capacity) (\<lambda>_.
     bnd (act (\<lambda>s. case table_insert Synthetic internal (socket_table s, id_counters s) of
                     (r, t, c) \<Rightarrow> (r, s\<lparr>socket_table := t, id_counters := c\<rparr>))) (\<lambda>r.
     bnd (liftr r) (\<lambda>i.
     finish_call E i Effects_empty []))))"

datatype ArmPoint = ArmNone | BeforeTry | BetweenTryAndArm | AfterArm

datatype WaitAnswer = WaitReady | WaitSelect Operation reference

definition test_socket_wait ::
    "Env \<Rightarrow> SocketIdentity \<Rightarrow> Direction \<Rightarrow> Operation \<Rightarrow> pid \<Rightarrow> reference \<Rightarrow> ArmPoint \<Rightarrow> nat \<Rightarrow> bool \<Rightarrow> WaitAnswer Envelope op" where
  "test_socket_wait E i dir operation p rf arm_point wake_count completed =
     bnd (ask ensure_running) (\<lambda>_.
     if operation_direction operation \<noteq> dir then raise (Err SE_InvalidOperation)
     else
       bnd (ask (\<lambda>s. validate_any (socket_table s) i)) (\<lambda>e.
       bnd (ask (\<lambda>s. ready_flag (socket_table s) i (kind e) dir)) (\<lambda>key.
       bnd (guarded (arm_point = BeforeTry) (wake (replicate wake_count key))) (\<lambda>_.
       bnd (if completed then ret WaitReady
            else
              bnd (guarded (arm_point = BetweenTryAndArm) (wake (replicate wake_count key))) (\<lambda>_.
              bnd (on_table (install_waiter (registration i (kind e) operation dir p rf))) (\<lambda>install.
              bnd (guarded (arm_point = AfterArm \<and> install = Armed) (wake (replicate wake_count key))) (\<lambda>_.
              ret (WaitSelect operation rf))))) (\<lambda>answer.
       finish_call E answer Effects_empty [])))))"

definition test_socket_ready :: "Env \<Rightarrow> ReadyKey list \<Rightarrow> unit Envelope op" where
  "test_socket_ready E keys =
     bnd (ask ensure_running) (\<lambda>_.
     bnd (gets limits) (\<lambda>l.
     if ready_events l < length keys then raise (Err SE_SystemLimit)
     else
       bnd (ask (\<lambda>s. check_keys None keys (socket_table s))) (\<lambda>flags.
       bnd (wake flags) (\<lambda>_.
       finish_call E () Effects_empty []))))"

definition test_socket_close :: "Env \<Rightarrow> SocketIdentity \<Rightarrow> Direction option \<Rightarrow> unit Envelope op" where
  "test_socket_close E i wake_direction =
     bnd (ask ensure_running) (\<lambda>_.
     bnd (case wake_direction of
            None \<Rightarrow> ret ()
          | Some dir \<Rightarrow> bnd (ask (\<lambda>s. ready_flag (socket_table s) i Synthetic dir)) (\<lambda>key. wake [key])) (\<lambda>_.
     bnd (on_table (table_close i)) (\<lambda>waiters.
     finish_call E () Effects_empty (map (pending_of i) waiters))))"

end
