(* ===== verification/Nif.thy ===== *)
theory Nif
  imports Stack_Inspect
begin

text \<open>
  The boundary to the virtual machine (\<open>lib.rs\<close>, and \<open>StackResource\<close> of \<open>stack.rs\<close>). A resource is a
  mutex around a stack. A native function decodes its arguments, takes the mutex without waiting, runs
  one operation of the stack between \<open>begin_call\<close> and \<open>observe_call\<close>, and encodes the envelope or the
  error; a panic is caught, leaves the mutex poisoned, and is answered with \<open>native_panic\<close>.

  Terms are decoded by the \<open>rustler\<close> library. Its decoders are the fields of the argument \<open>D\<close> of the
  functions that take undecoded terms, for any type of terms; the arguments \<open>rustler\<close> decodes before a
  function is entered are given decoded.
\<close>

section \<open>Atoms\<close>

datatype Atom =
    Atom_ok | Atom_error | Atom_native_panic | Atom_ownership_invariant_violation | Atom_time_overflow
  | Atom_invalid_limits | Atom_invalid_stack_config | Atom_invalid_packet | Atom_packet_too_large | Atom_batch_too_large
  | Atom_invalid_socket | Atom_wrong_socket_kind | Atom_invalid_socket_state | Atom_invalid_operation | Atom_invalid_options
  | Atom_busy | Atom_system_limit | Atom_unsupported_socket | Atom_unsupported_family | Atom_message_too_large
  | Atom_invalid_address | Atom_invalid_port | Atom_invalid_backlog | Atom_scope_required | Atom_invalid_scope
  | Atom_address_in_use | Atom_address_not_available | Atom_ephemeral_ports_exhausted | Atom_network_unreachable
  | Atom_already_connected | Atom_not_bound | Atom_not_connected | Atom_connection_refused | Atom_connection_reset
  | Atom_connection_timeout | Atom_address | Atom_addresses | Atom_destination | Atom_gateway | Atom_mtu | Atom_port
  | Atom_prefix_length | Atom_routes | Atom_scope_id | Atom_running | Atom_shutting_down | Atom_shutdown | Atom_ready
  | Atom_select | Atom_abort | Atom_closed | Atom_end_of_stream | Atom_already_sent | Atom_not_found | Atom_egress_credit
  | Atom_egress_credit_disabled | Atom_tcp_timers | Atom_smol_socket

fun socket_error_atom :: "SocketError \<Rightarrow> Atom" where
  "socket_error_atom SE_Closed = Atom_closed"
| "socket_error_atom SE_EndOfStream = Atom_end_of_stream"
| "socket_error_atom SE_InvalidSocket = Atom_invalid_socket"
| "socket_error_atom SE_WrongKind = Atom_wrong_socket_kind"
| "socket_error_atom SE_InvalidState = Atom_invalid_socket_state"
| "socket_error_atom SE_InvalidOperation = Atom_invalid_operation"
| "socket_error_atom SE_InvalidOptions = Atom_invalid_options"
| "socket_error_atom SE_Busy = Atom_busy"
| "socket_error_atom SE_SystemLimit = Atom_system_limit"
| "socket_error_atom SE_MessageTooLarge = Atom_message_too_large"
| "socket_error_atom SE_InvalidAddress = Atom_invalid_address"
| "socket_error_atom SE_InvalidPort = Atom_invalid_port"
| "socket_error_atom SE_InvalidBacklog = Atom_invalid_backlog"
| "socket_error_atom SE_ScopeRequired = Atom_scope_required"
| "socket_error_atom SE_InvalidScope = Atom_invalid_scope"
| "socket_error_atom SE_AddressInUse = Atom_address_in_use"
| "socket_error_atom SE_AddressNotAvailable = Atom_address_not_available"
| "socket_error_atom SE_EphemeralPortsExhausted = Atom_ephemeral_ports_exhausted"
| "socket_error_atom SE_NetworkUnreachable = Atom_network_unreachable"
| "socket_error_atom SE_AlreadyConnected = Atom_already_connected"
| "socket_error_atom SE_NotBound = Atom_not_bound"
| "socket_error_atom SE_NotConnected = Atom_not_connected"
| "socket_error_atom SE_ConnectionRefused = Atom_connection_refused"
| "socket_error_atom SE_ConnectionReset = Atom_connection_reset"
| "socket_error_atom SE_ConnectionTimeout = Atom_connection_timeout"

fun stack_error_atom :: "StackError \<Rightarrow> Atom" where
  "stack_error_atom Closed = Atom_closed"
| "stack_error_atom InvalidLimits = Atom_invalid_limits"
| "stack_error_atom InvalidStackConfig = Atom_invalid_stack_config"
| "stack_error_atom InvalidPacket = Atom_invalid_packet"
| "stack_error_atom PacketTooLarge = Atom_packet_too_large"
| "stack_error_atom BatchTooLarge = Atom_batch_too_large"
| "stack_error_atom OwnershipInvariantViolation = Atom_ownership_invariant_violation"
| "stack_error_atom EgressCreditDisabled = Atom_egress_credit_disabled"

fun lifecycle_atom :: "Lifecycle \<Rightarrow> Atom" where
  "lifecycle_atom Running = Atom_running"
| "lifecycle_atom ShuttingDown = Atom_shutting_down"
| "lifecycle_atom Shutdown = Atom_shutdown"

section \<open>Decoding terms\<close>

text \<open>
  \<open>d_list\<close> gives the elements a \<open>ListIterator\<close> yields and whether it ends there; where it does not, as
  on an improper list, advancing it once more panics. \<open>d_credit\<close> and \<open>d_timers\<close> decode an \<open>Option\<close>.
\<close>

record 't Rustler =
  d_map_get :: "'t \<Rightarrow> Atom \<Rightarrow> 't option"
  d_list :: "'t \<Rightarrow> ('t list \<times> bool) option"
  d_i64 :: "'t \<Rightarrow> int option"
  d_usize :: "'t \<Rightarrow> nat option"
  d_u8 :: "'t \<Rightarrow> byte option"
  d_binary :: "'t \<Rightarrow> bytes option"
  d_limits :: "'t \<Rightarrow> Limits option"
  d_credit :: "'t \<Rightarrow> EgressCredit option option"
  d_timers :: "'t \<Rightarrow> TcpTimers option option"

text \<open>\<open>Err ()\<close> is the library's decoding error.\<close>

type_synonym 'a decoded = "(unit fault, 'a) result"

definition decoded :: "'a option \<Rightarrow> 'a decoded" where
  "decoded v = (case v of None \<Rightarrow> Inl (Err ()) | Some x \<Rightarrow> Inr x)"

definition map_fault :: "('e \<Rightarrow> 'f) \<Rightarrow> ('e fault, 'a) result \<Rightarrow> ('f fault, 'a) result" where
  "map_fault g r = (case r of Inl (Err e) \<Rightarrow> Inl (Err (g e)) | Inl Panic \<Rightarrow> Inl Panic | Inr x \<Rightarrow> Inr x)"

text \<open>The loop over the items: \<open>n\<close> is what the limit leaves. An item is counted before it is decoded.\<close>

fun decode_items :: "('t \<Rightarrow> 'a decoded) \<Rightarrow> nat \<Rightarrow> 't list \<Rightarrow> bool \<Rightarrow> 'a list decoded" where
  "decode_items f n [] proper = (if proper then Inr [] else Inl Panic)"
| "decode_items f n (t # ts) proper =
     (if n = 0 then Inl (Err ())
      else bind_res (f t) (\<lambda>x. bind_res (decode_items f (n - 1) ts proper) (\<lambda>xs. Inr (x # xs))))"

definition decode_bounded_list :: "'t Rustler \<Rightarrow> ('t \<Rightarrow> 'a decoded) \<Rightarrow> nat \<Rightarrow> 't \<Rightarrow> 'a list decoded" where
  "decode_bounded_list D f limit t =
     bind_res (decoded (d_list D t)) (\<lambda>(items, proper). decode_items f limit items proper)"

definition map_field :: "'t Rustler \<Rightarrow> Atom \<Rightarrow> 't \<Rightarrow> ('t \<Rightarrow> 'a decoded) \<Rightarrow> 'a decoded" where
  "map_field D a t f = bind_res (decoded (d_map_get D t a)) f"

definition decode_tcp_endpoint :: "'t Rustler \<Rightarrow> 't \<Rightarrow> (SocketError fault, TcpEndpoint) result" where
  "decode_tcp_endpoint D t =
     bind_res (map_fault (\<lambda>_. SE_InvalidAddress)
       (map_field D Atom_address t (decode_bounded_list D (\<lambda>v. decoded (d_u8 D v)) 16))) (\<lambda>address.
     bind_res (map_fault (\<lambda>_. SE_InvalidPort) (map_field D Atom_port t (\<lambda>v. decoded (d_i64 D v)))) (\<lambda>port.
     bind_res (map_fault (\<lambda>_. SE_InvalidScope) (map_field D Atom_scope_id t (\<lambda>v. decoded (d_i64 D v)))) (\<lambda>scope.
     Inr \<lparr>te_address = address, te_port = port, te_scope_id = scope\<rparr>)))"

fun decode_packets :: "'t Rustler \<Rightarrow> nat \<Rightarrow> 't list \<Rightarrow> bool \<Rightarrow> (Atom fault, bytes list) result" where
  "decode_packets D n [] proper = (if proper then Inr [] else Inl Panic)"
| "decode_packets D n (t # ts) proper =
     (if n = 0 then Inl (Err Atom_batch_too_large)
      else case d_binary D t of
             None \<Rightarrow> Inl (Err Atom_invalid_packet)
           | Some packet \<Rightarrow> bind_res (decode_packets D (n - 1) ts proper) (\<lambda>ps. Inr (packet # ps)))"

definition decode_packet_batch :: "'t Rustler \<Rightarrow> 't \<Rightarrow> (Atom fault, bytes list) result" where
  "decode_packet_batch D t =
     (case d_list D t of
        None \<Rightarrow> Inl (Err Atom_invalid_packet)
      | Some (items, proper) \<Rightarrow> decode_packets D MAX_INPUT_PACKETS items proper)"

definition decode_octets :: "'t Rustler \<Rightarrow> 't \<Rightarrow> bytes decoded" where
  "decode_octets D = decode_bounded_list D (\<lambda>v. decoded (d_u8 D v)) 16"

definition decode_address_config :: "'t Rustler \<Rightarrow> 't \<Rightarrow> AddressConfig decoded" where
  "decode_address_config D t =
     bind_res (map_field D Atom_address t (decode_octets D)) (\<lambda>address.
     bind_res (map_field D Atom_prefix_length t (\<lambda>v. decoded (d_u8 D v))) (\<lambda>prefix.
     Inr \<lparr>ac_address = address, ac_prefix_length = unat prefix\<rparr>))"

definition decode_route_config :: "'t Rustler \<Rightarrow> 't \<Rightarrow> RouteConfig decoded" where
  "decode_route_config D t =
     bind_res (map_field D Atom_destination t (decode_octets D)) (\<lambda>destination.
     bind_res (map_field D Atom_prefix_length t (\<lambda>v. decoded (d_u8 D v))) (\<lambda>prefix.
     bind_res (map_field D Atom_gateway t (decode_octets D)) (\<lambda>gateway.
     Inr \<lparr>rc_destination = destination, rc_prefix_length = unat prefix, rc_gateway = gateway\<rparr>)))"

definition decode_stack_config :: "'t Rustler \<Rightarrow> 't \<Rightarrow> StackConfig decoded" where
  "decode_stack_config D t =
     bind_res (case d_map_get D t Atom_egress_credit of
                 None \<Rightarrow> Inr None | Some v \<Rightarrow> decoded (d_credit D v)) (\<lambda>egress.
     bind_res (case d_map_get D t Atom_tcp_timers of
                 None \<Rightarrow> Inr TcpTimers_default
               | Some v \<Rightarrow> bind_res (decoded (d_timers D v)) (\<lambda>o'. Inr (case o' of None \<Rightarrow> TcpTimers_default | Some x \<Rightarrow> x))) (\<lambda>timers.
     bind_res (map_field D Atom_mtu t (\<lambda>v. decoded (d_usize D v))) (\<lambda>m.
     bind_res (map_field D Atom_addresses t (decode_bounded_list D (decode_address_config D) 8)) (\<lambda>addresses.
     bind_res (map_field D Atom_routes t (decode_bounded_list D (decode_route_config D) 4)) (\<lambda>routes.
     Inr \<lparr>cfg_mtu = m, cfg_addresses = addresses, cfg_routes = routes, cfg_egress_credit = egress,
          cfg_tcp_timers = timers\<rparr>)))))"

section \<open>The resource\<close>

record StackResource =
  res_mutex :: LockState
  res_inner :: "NativeStack option"

text \<open>The process-wide counters, 64 bits wide.\<close>

record Globals =
  next_stack_id :: nat
  created :: nat
  dropped :: nat
  active :: nat

definition wrap64 :: "nat \<Rightarrow> nat" where
  "wrap64 n = n mod 2 ^ 64"

record ResourceCounts =
  counts_created :: nat
  counts_dropped :: nat
  counts_active :: nat

definition resource_counts :: "Globals \<Rightarrow> ResourceCounts" where
  "resource_counts g = \<lparr>counts_created = created g, counts_dropped = dropped g, counts_active = active g\<rparr>"

definition StackResource_new ::
    "Env \<Rightarrow> IdCounters \<Rightarrow> nat \<Rightarrow> Limits \<Rightarrow> StackConfig \<Rightarrow> Globals \<Rightarrow> (StackError fault, StackResource) result \<times> Globals" where
  "StackResource_new E ids idx l c g =
     (if \<not> limits_valid l then (Inl (Err InvalidLimits), g)
      else case NativeStack_new E (next_stack_id g) ids idx l c of
             Inl (Err e) \<Rightarrow> (Inl (Err e), g)
           | Inl Panic \<Rightarrow> (Inl Panic, g\<lparr>next_stack_id := wrap64 (next_stack_id g + 1)\<rparr>)
           | Inr s \<Rightarrow> (Inr \<lparr>res_mutex = Free, res_inner = Some s\<rparr>,
                       g\<lparr>next_stack_id := wrap64 (next_stack_id g + 1), created := wrap64 (created g + 1),
                         active := wrap64 (active g + 1)\<rparr>))"

definition drop_resource :: "Globals \<Rightarrow> Globals" where
  "drop_resource g = g\<lparr>active := wrap64 (active g + (2 ^ 64 - 1)), dropped := wrap64 (dropped g + 1)\<rparr>"

text \<open>\<open>with_stack\<close>: the closure's \<open>Result\<close> is a value of the call; a panic unwinds through the guard.\<close>

definition with_stack ::
    "Env \<Rightarrow> (NativeStack, 'e, 'a) prog \<Rightarrow> (StackResource, unit, ('e, 'a) result) prog" where
  "with_stack E operation r =
     (if res_mutex r \<noteq> Free then (Inl (Err ()), r)
      else case res_inner r of
             None \<Rightarrow> (Inl (Err ()), r)
           | Some s \<Rightarrow>
               (case operation (begin_call E s) of
                  (Inl Panic, s) \<Rightarrow> (Inl Panic, r\<lparr>res_inner := Some s, res_mutex := Poisoned\<rparr>)
                | (Inl (Err e), s) \<Rightarrow> (Inr (Inl e), r\<lparr>res_inner := Some (observe_call E s)\<rparr>)
                | (Inr x, s) \<Rightarrow> (Inr (Inr x), r\<lparr>res_inner := Some (observe_call E s)\<rparr>)))"

definition with_stack_unobserved :: "(NativeStack \<Rightarrow> 'a) \<Rightarrow> (StackResource, unit, 'a) prog" where
  "with_stack_unobserved f r =
     (if res_mutex r \<noteq> Free then (Inl (Err ()), r)
      else case res_inner r of None \<Rightarrow> (Inl (Err ()), r) | Some s \<Rightarrow> (Inr (f s), r))"

definition test_contention :: "Env \<Rightarrow> StackResource \<Rightarrow> (unit fault, unit) result" where
  "test_contention E r =
     (if res_mutex r \<noteq> Free then Inl (Err ())
      else case with_stack E (ret () :: (NativeStack, unit, unit) prog) (r\<lparr>res_mutex := Held\<rparr>) of
             (Inl f, _) \<Rightarrow> Inl f
           | (Inr _, _) \<Rightarrow> Inr ())"

section \<open>Calls\<close>

datatype 'a Reply = Reply_ok "'a Envelope" | Reply_error Atom

definition catch_operation :: "(StackResource, Atom, 'a) prog \<Rightarrow> StackResource \<Rightarrow> (unit, (Atom, 'a) result) result \<times> StackResource" where
  "catch_operation operation r =
     (case operation r of
        (Inl Panic, r) \<Rightarrow> (Inl (), r)
      | (Inl (Err a), r) \<Rightarrow> (Inr (Inl a), r)
      | (Inr x, r) \<Rightarrow> (Inr (Inr x), r))"

definition encode_envelope_result :: "(unit, (Atom, 'a Envelope) result) result \<Rightarrow> 'a Reply" where
  "encode_envelope_result result =
     (case result of
        Inr (Inr envelope) \<Rightarrow> Reply_ok envelope
      | Inr (Inl reason) \<Rightarrow> Reply_error reason
      | Inl _ \<Rightarrow> Reply_error Atom_native_panic)"

definition nif :: "(StackResource, Atom, 'a Envelope) prog \<Rightarrow> StackResource \<Rightarrow> 'a Reply \<times> StackResource" where
  "nif operation r = (case catch_operation operation r of (result, r) \<Rightarrow> (encode_envelope_result result, r))"

definition of_result :: "('e fault, 'a) result \<Rightarrow> ('s, 'e, 'a) prog" where
  "of_result v = (\<lambda>s. (v, s))"

definition map_err :: "('e \<Rightarrow> 'f) \<Rightarrow> ('s, 'e, 'a) prog \<Rightarrow> ('s, 'f, 'a) prog" where
  "map_err g m = (\<lambda>s. case m s of (v, s) \<Rightarrow> (map_fault g v, s))"

text \<open>\<open>.with_stack(..).map_err(ownership_invariant_violation)?.map_err(g)\<close>\<close>

definition call_stack :: "('e \<Rightarrow> Atom) \<Rightarrow> Env \<Rightarrow> (NativeStack, 'e, 'a) prog \<Rightarrow> (StackResource, Atom, 'a) prog" where
  "call_stack g E operation =
     bnd (map_err (\<lambda>_. Atom_ownership_invariant_violation) (with_stack E operation)) (\<lambda>v.
     map_err g (liftr v))"

definition socket_call :: "Env \<Rightarrow> 'a op \<Rightarrow> (StackResource, Atom, 'a) prog" where
  "socket_call E operation = call_stack socket_error_atom E operation"

definition decode_now :: "int \<Rightarrow> (StackResource, Atom, instant) prog" where
  "decode_now now_millis = liftr (case instant_from_millis now_millis of None \<Rightarrow> Inl Atom_time_overflow | Some now \<Rightarrow> Inr now)"

definition decode_endpoint :: "'t Rustler \<Rightarrow> 't \<Rightarrow> (StackResource, Atom, TcpEndpoint) prog" where
  "decode_endpoint D t = of_result (map_fault socket_error_atom (decode_tcp_endpoint D t))"


section \<open>The native functions\<close>

text \<open>The calls on a stack that do not return a \<open>Result\<close> never fail: any error atom will do.\<close>

definition plain_call :: "Env \<Rightarrow> (NativeStack, Atom, 'a) prog \<Rightarrow> (StackResource, Atom, 'a) prog" where
  "plain_call E operation = call_stack (\<lambda>a. a) E operation"

definition health :: Atom where
  "health = Atom_ok"

definition nif_stack_new ::
    "'t Rustler \<Rightarrow> Env \<Rightarrow> IdCounters \<Rightarrow> nat \<Rightarrow> 't \<Rightarrow> 't \<Rightarrow> int \<Rightarrow> Globals \<Rightarrow> StackResource Reply \<times> Globals" where
  "nif_stack_new D E ids idx limits_term config_term now_millis g =
     (case d_limits D limits_term of
        None \<Rightarrow> (Reply_error Atom_invalid_limits, g)
      | Some l \<Rightarrow>
          (case decode_stack_config D config_term of
             Inl Panic \<Rightarrow> (Reply_error Atom_native_panic, g)
           | Inl (Err _) \<Rightarrow> (Reply_error Atom_invalid_stack_config, g)
           | Inr c \<Rightarrow>
               (case instant_from_millis now_millis of
                  None \<Rightarrow> (Reply_error Atom_time_overflow, g)
                | Some now \<Rightarrow>
                    (case StackResource_new E ids idx l c g of
                       (Inl Panic, g) \<Rightarrow> (Reply_error Atom_native_panic, g)
                     | (Inl (Err e), g) \<Rightarrow> (Reply_error (stack_error_atom e), g)
                     | (Inr r, g) \<Rightarrow> (Reply_ok (Envelope_empty r), g)))))"

definition nif_stack_ingress ::
    "Env \<Rightarrow> bytes \<Rightarrow> int \<Rightarrow> StackResource \<Rightarrow> unit Reply \<times> StackResource" where
  "nif_stack_ingress E packet now_millis = nif (bnd (decode_now now_millis) (\<lambda>now. 
     call_stack stack_error_atom E (bnd (ingress E packet now) (\<lambda>effects. finish_call E () effects []))))"

definition nif_stack_ingress_batch ::
    "'t Rustler \<Rightarrow> Env \<Rightarrow> 't \<Rightarrow> int \<Rightarrow> StackResource \<Rightarrow> nat Reply \<times> StackResource" where
  "nif_stack_ingress_batch D E packets_term now_millis =
     nif (bnd (of_result (decode_packet_batch D packets_term)) (\<lambda>packets. bnd (decode_now now_millis) (\<lambda>now. 
     call_stack stack_error_atom E (bnd (ingress_batch E packets now) (\<lambda>effects. finish_call E (length packets) effects [])))))"

definition nif_stack_poll ::
    "Env \<Rightarrow> int \<Rightarrow> StackResource \<Rightarrow> unit Reply \<times> StackResource" where
  "nif_stack_poll E now_millis = nif (bnd (decode_now now_millis) (\<lambda>now. plain_call E (poll_call E now)))"

definition nif_stack_grant_egress ::
    "Env \<Rightarrow> nat \<Rightarrow> nat \<Rightarrow> int \<Rightarrow> StackResource \<Rightarrow> unit Reply \<times> StackResource" where
  "nif_stack_grant_egress E packets bytes now_millis = nif (bnd (decode_now now_millis) (\<lambda>now. 
     call_stack stack_error_atom E (grant_egress_call E packets bytes now)))"

definition nif_stack_shutdown ::
    "Env \<Rightarrow> AbortReason \<Rightarrow> StackResource \<Rightarrow> unit Reply \<times> StackResource" where
  "nif_stack_shutdown E reason = nif (plain_call E (shutdown E reason))"

definition nif_socket_cancel ::
    "Env \<Rightarrow> SocketIdentity \<Rightarrow> Operation \<Rightarrow> reference \<Rightarrow> StackResource \<Rightarrow> CancelResult Reply \<times> StackResource" where
  "nif_socket_cancel E i operation rf = nif (socket_call E (cancel_call E i operation rf))"

definition nif_socket_validate ::
    "Env \<Rightarrow> SocketIdentity \<Rightarrow> StackResource \<Rightarrow> SocketKind Reply \<times> StackResource" where
  "nif_socket_validate E i = nif (socket_call E (socket_validate E i))"

definition nif_tcp_open ::
    "Env \<Rightarrow> AddressFamily \<Rightarrow> nat \<Rightarrow> nat \<Rightarrow> StackResource \<Rightarrow> SocketIdentity Reply \<times> StackResource" where
  "nif_tcp_open E family rcvbuf sndbuf = nif (socket_call E (tcp_open E family rcvbuf sndbuf))"

definition nif_tcp_bind ::
    "'t Rustler \<Rightarrow> Env \<Rightarrow> SocketIdentity \<Rightarrow> 't \<Rightarrow> StackResource \<Rightarrow> unit Reply \<times> StackResource" where
  "nif_tcp_bind D E i endpoint_term =
     nif (bnd (decode_endpoint D endpoint_term) (\<lambda>endpoint. socket_call E (tcp_bind E i endpoint)))"

definition nif_tcp_listen ::
    "Env \<Rightarrow> SocketIdentity \<Rightarrow> nat \<Rightarrow> int \<Rightarrow> StackResource \<Rightarrow> unit Reply \<times> StackResource" where
  "nif_tcp_listen E i bl now_millis = nif (bnd (decode_now now_millis) (\<lambda>now. socket_call E (tcp_listen E i bl now)))"

definition nif_tcp_accept ::
    "Env \<Rightarrow> SocketIdentity \<Rightarrow> pid \<Rightarrow> reference \<Rightarrow> int \<Rightarrow> StackResource \<Rightarrow> Answer Reply \<times> StackResource" where
  "nif_tcp_accept E i p rf now_millis = nif (bnd (decode_now now_millis) (\<lambda>now. socket_call E (tcp_accept E i p rf now)))"

definition nif_tcp_connect ::
    "'t Rustler \<Rightarrow> Env \<Rightarrow> SocketIdentity \<Rightarrow> 't \<Rightarrow> pid \<Rightarrow> reference \<Rightarrow> int \<Rightarrow> StackResource \<Rightarrow> Answer Reply \<times> StackResource" where
  "nif_tcp_connect D E i endpoint_term p rf now_millis =
     nif (bnd (decode_endpoint D endpoint_term) (\<lambda>endpoint. bnd (decode_now now_millis) (\<lambda>now. socket_call E (tcp_connect E i endpoint p rf now))))"

definition nif_tcp_send ::
    "Env \<Rightarrow> SocketIdentity \<Rightarrow> bytes \<Rightarrow> pid \<Rightarrow> reference \<Rightarrow> int \<Rightarrow> StackResource \<Rightarrow> Answer Reply \<times> StackResource" where
  "nif_tcp_send E i data p rf now_millis =
     nif (bnd (decode_now now_millis) (\<lambda>now. socket_call E (tcp_send E i data p rf now)))"

definition nif_tcp_recv ::
    "Env \<Rightarrow> SocketIdentity \<Rightarrow> nat \<Rightarrow> pid \<Rightarrow> reference \<Rightarrow> int \<Rightarrow> StackResource \<Rightarrow> Answer Reply \<times> StackResource" where
  "nif_tcp_recv E i len p rf now_millis =
     nif (bnd (decode_now now_millis) (\<lambda>now. socket_call E (tcp_recv E i len p rf now)))"

definition nif_tcp_shutdown ::
    "Env \<Rightarrow> SocketIdentity \<Rightarrow> ShutdownHow \<Rightarrow> int \<Rightarrow> StackResource \<Rightarrow> unit Reply \<times> StackResource" where
  "nif_tcp_shutdown E i how now_millis =
     nif (bnd (decode_now now_millis) (\<lambda>now. socket_call E (tcp_shutdown E i how now)))"

definition nif_tcp_sockname ::
    "Env \<Rightarrow> SocketIdentity \<Rightarrow> StackResource \<Rightarrow> EncodedEndpoint Reply \<times> StackResource" where
  "nif_tcp_sockname E i = nif (socket_call E (tcp_sockname E i))"

definition nif_tcp_peername ::
    "Env \<Rightarrow> SocketIdentity \<Rightarrow> StackResource \<Rightarrow> EncodedEndpoint Reply \<times> StackResource" where
  "nif_tcp_peername E i = nif (socket_call E (tcp_peername E i))"

definition nif_tcp_set_nodelay ::
    "Env \<Rightarrow> SocketIdentity \<Rightarrow> bool \<Rightarrow> int \<Rightarrow> StackResource \<Rightarrow> unit Reply \<times> StackResource" where
  "nif_tcp_set_nodelay E i nodelay now_millis =
     nif (bnd (decode_now now_millis) (\<lambda>now. socket_call E (tcp_set_nodelay E i nodelay now)))"

definition nif_tcp_nodelay ::
    "Env \<Rightarrow> SocketIdentity \<Rightarrow> StackResource \<Rightarrow> bool Reply \<times> StackResource" where
  "nif_tcp_nodelay E i = nif (socket_call E (tcp_nodelay E i))"

definition nif_tcp_set_keepalive ::
    "Env \<Rightarrow> SocketIdentity \<Rightarrow> bool \<Rightarrow> int \<Rightarrow> StackResource \<Rightarrow> unit Reply \<times> StackResource" where
  "nif_tcp_set_keepalive E i keepalive now_millis =
     nif (bnd (decode_now now_millis) (\<lambda>now. socket_call E (tcp_set_keepalive E i keepalive now)))"

definition nif_tcp_keepalive ::
    "Env \<Rightarrow> SocketIdentity \<Rightarrow> StackResource \<Rightarrow> bool Reply \<times> StackResource" where
  "nif_tcp_keepalive E i = nif (socket_call E (tcp_keepalive E i))"

definition nif_tcp_close ::
    "Env \<Rightarrow> SocketIdentity \<Rightarrow> int \<Rightarrow> StackResource \<Rightarrow> unit Reply \<times> StackResource" where
  "nif_tcp_close E i now_millis = nif (bnd (decode_now now_millis) (\<lambda>now. socket_call E (tcp_close E i now)))"

definition nif_udp_open ::
    "Env \<Rightarrow> AddressFamily \<Rightarrow> StackResource \<Rightarrow> SocketIdentity Reply \<times> StackResource" where
  "nif_udp_open E family = nif (socket_call E (udp_open E family))"

definition nif_udp_bind ::
    "'t Rustler \<Rightarrow> Env \<Rightarrow> SocketIdentity \<Rightarrow> 't \<Rightarrow> StackResource \<Rightarrow> unit Reply \<times> StackResource" where
  "nif_udp_bind D E i endpoint_term =
     nif (bnd (decode_endpoint D endpoint_term) (\<lambda>endpoint. socket_call E (udp_bind E i endpoint)))"

definition nif_udp_connect ::
    "'t Rustler \<Rightarrow> Env \<Rightarrow> SocketIdentity \<Rightarrow> 't \<Rightarrow> StackResource \<Rightarrow> unit Reply \<times> StackResource" where
  "nif_udp_connect D E i endpoint_term =
     nif (bnd (decode_endpoint D endpoint_term) (\<lambda>endpoint. socket_call E (udp_connect E i endpoint)))"

definition nif_udp_sendto ::
    "'t Rustler \<Rightarrow> Env \<Rightarrow> SocketIdentity \<Rightarrow> 't \<Rightarrow> bytes \<Rightarrow> pid \<Rightarrow> reference \<Rightarrow> int \<Rightarrow> StackResource \<Rightarrow> Answer Reply \<times> StackResource" where
  "nif_udp_sendto D E i endpoint_term data p rf now_millis =
     nif (bnd (decode_endpoint D endpoint_term) (\<lambda>endpoint. bnd (decode_now now_millis) (\<lambda>now. socket_call E (udp_sendto E i endpoint data p rf now))))"

definition nif_udp_recvfrom ::
    "Env \<Rightarrow> SocketIdentity \<Rightarrow> nat \<Rightarrow> pid \<Rightarrow> reference \<Rightarrow> int \<Rightarrow> StackResource \<Rightarrow> Answer Reply \<times> StackResource" where
  "nif_udp_recvfrom E i len p rf now_millis =
     nif (bnd (decode_now now_millis) (\<lambda>now. socket_call E (udp_recvfrom E i len p rf now)))"

definition nif_udp_sockname ::
    "Env \<Rightarrow> SocketIdentity \<Rightarrow> StackResource \<Rightarrow> EncodedEndpoint Reply \<times> StackResource" where
  "nif_udp_sockname E i = nif (socket_call E (udp_sockname E i))"

definition nif_udp_peername ::
    "Env \<Rightarrow> SocketIdentity \<Rightarrow> StackResource \<Rightarrow> EncodedEndpoint Reply \<times> StackResource" where
  "nif_udp_peername E i = nif (socket_call E (udp_peername E i))"

definition nif_udp_close ::
    "Env \<Rightarrow> SocketIdentity \<Rightarrow> int \<Rightarrow> StackResource \<Rightarrow> unit Reply \<times> StackResource" where
  "nif_udp_close E i now_millis = nif (bnd (decode_now now_millis) (\<lambda>now. socket_call E (udp_close E i now)))"

definition nif_stack_snapshot :: "PathMtuStats \<Rightarrow> StackResource \<Rightarrow> Snapshot Reply \<times> StackResource" where
  "nif_stack_snapshot stats =
     nif (map_err (\<lambda>_. Atom_ownership_invariant_violation) (with_stack_unobserved (snapshot stats)))"

definition nif_stack_time_until :: "int \<Rightarrow> int \<Rightarrow> (Atom, nat) result" where
  "nif_stack_time_until now_millis deadline_millis =
     (case time_until now_millis deadline_millis of None \<Rightarrow> Inl Atom_time_overflow | Some remaining \<Rightarrow> Inr remaining)"

section \<open>The native functions of debug builds\<close>

definition nif_test_contention :: "Env \<Rightarrow> StackResource \<Rightarrow> (Atom, Atom) result" where
  "nif_test_contention E r =
     (case test_contention E r of Inr _ \<Rightarrow> Inr Atom_ok | Inl _ \<Rightarrow> Inl Atom_ownership_invariant_violation)"

text \<open>The keys of \<open>test_combined_maximum_work\<close> and \<open>test_socket_ready\<close> are decoded by \<open>f\<close>.\<close>

definition decode_keys :: "'t Rustler \<Rightarrow> ('t \<Rightarrow> ReadyKey decoded) \<Rightarrow> 't \<Rightarrow> (StackResource, Atom, ReadyKey list) prog" where
  "decode_keys D f t = of_result (map_fault (\<lambda>_. Atom_system_limit) (decode_bounded_list D f MAX_READY_EVENTS t))"

definition nif_test_bounded_work ::
    "Env \<Rightarrow> Work \<Rightarrow> StackResource \<Rightarrow> Work Reply \<times> StackResource" where
  "nif_test_bounded_work E requested = nif (plain_call E (apply_bounded_work requested))"

definition nif_test_set_budget_checkpoints ::
    "Env \<Rightarrow> nat \<Rightarrow> StackResource \<Rightarrow> unit Reply \<times> StackResource" where
  "nif_test_set_budget_checkpoints E n = nif (plain_call E (test_set_budget_checkpoints n))"

definition nif_test_set_waiter_capacity ::
    "Env \<Rightarrow> nat \<Rightarrow> StackResource \<Rightarrow> unit Reply \<times> StackResource" where
  "nif_test_set_waiter_capacity E n = nif (plain_call E (test_set_waiter_capacity n))"

definition nif_test_set_slice_exhaustion ::
    "Env \<Rightarrow> nat \<Rightarrow> StackResource \<Rightarrow> unit Reply \<times> StackResource" where
  "nif_test_set_slice_exhaustion E n = nif (plain_call E (test_set_slice_exhaustion n))"

definition nif_test_maximum_work :: "Env \<Rightarrow> StackResource \<Rightarrow> Work Reply \<times> StackResource" where
  "nif_test_maximum_work E = nif (plain_call E (test_maximum_work E))"

definition nif_test_combined_maximum_work ::
    "'t Rustler \<Rightarrow> ('t \<Rightarrow> ReadyKey decoded) \<Rightarrow> Env \<Rightarrow> 't \<Rightarrow> int \<Rightarrow> StackResource \<Rightarrow> Work Reply \<times> StackResource" where
  "nif_test_combined_maximum_work D f E keys_term now_millis =
     nif (bnd (decode_now now_millis) (\<lambda>now. bnd (decode_keys D f keys_term) (\<lambda>keys.
     socket_call E (test_combined_maximum_work E keys now))))"

definition nif_test_prepare_closing ::
    "Env \<Rightarrow> nat \<Rightarrow> StackResource \<Rightarrow> unit Reply \<times> StackResource" where
  "nif_test_prepare_closing E count = nif (socket_call E (test_prepare_closing E count))"

definition nif_test_prepare_maximum_drop :: "Env \<Rightarrow> StackResource \<Rightarrow> unit Reply \<times> StackResource" where
  "nif_test_prepare_maximum_drop E = nif (socket_call E (test_prepare_maximum_drop E))"

definition nif_test_socket_open ::
    "Env \<Rightarrow> nat \<Rightarrow> StackResource \<Rightarrow> SocketIdentity Reply \<times> StackResource" where
  "nif_test_socket_open E internal = nif (socket_call E (test_socket_open E internal))"

definition nif_test_socket_wait ::
    "Env \<Rightarrow> SocketIdentity \<Rightarrow> Direction \<Rightarrow> Operation \<Rightarrow> pid \<Rightarrow> reference \<Rightarrow> ArmPoint \<Rightarrow> nat \<Rightarrow> bool \<Rightarrow> StackResource \<Rightarrow> WaitAnswer Reply \<times> StackResource" where
  "nif_test_socket_wait E i dir operation p rf arm_point wake_count completed =
     nif (socket_call E (test_socket_wait E i dir operation p rf arm_point wake_count completed))"

definition nif_test_socket_ready ::
    "'t Rustler \<Rightarrow> ('t \<Rightarrow> ReadyKey decoded) \<Rightarrow> Env \<Rightarrow> 't \<Rightarrow> StackResource \<Rightarrow> unit Reply \<times> StackResource" where
  "nif_test_socket_ready D f E keys_term = nif (bnd (decode_keys D f keys_term) (\<lambda>keys.
     socket_call E (test_socket_ready E keys)))"

definition nif_test_socket_close ::
    "Env \<Rightarrow> SocketIdentity \<Rightarrow> Direction option \<Rightarrow> StackResource \<Rightarrow> unit Reply \<times> StackResource" where
  "nif_test_socket_close E i wake_direction = nif (socket_call E (test_socket_close E i wake_direction))"

end
