(* ===== verification/Nif_Invariant.thy ===== *)
theory Nif_Invariant
  imports Shutdown_Invariant Stack_Frame Nif
begin

text \<open>
  The guarantees of the stack, at the boundary. A resource is in order when its mutex is free and its
  stack satisfies the invariant; every native function keeps it in order, and so the mutex is never
  poisoned and no call is answered with \<open>native_panic\<close>.
\<close>

section \<open>Calls on a resource\<close>

definition resource_ok :: "StackResource \<Rightarrow> bool" where
  "resource_ok r \<longleftrightarrow> res_mutex r = Free \<and> (\<exists>s. res_inner r = Some s \<and> stack_inv s)"

definition serves :: "Atom set \<Rightarrow> (StackResource, Atom, 'a) prog \<Rightarrow> bool" where
  "serves A m \<longleftrightarrow> (\<forall>r. resource_ok r \<longrightarrow> wp m (\<lambda>_. resource_ok) (\<lambda>f r. f \<in> Err ` A \<and> resource_ok r) r)"

lemma begin_call_inv [simp]: "held_inv x y K (begin_call E s) = held_inv x y K s"
  by (simp add: begin_call_def Let_def)

lemma observe_call_inv [simp]: "held_inv x y K (observe_call E s) = held_inv x y K s"
  by (simp add: observe_call_def Let_def split: prod.splits)

lemma serves_wp:
  assumes "serves A m" and "resource_ok r" and "\<And>x r'. resource_ok r' \<Longrightarrow> Q x r'" and "\<And>a r'. a \<in> A \<Longrightarrow> resource_ok r' \<Longrightarrow> F (Err a) r'"
  shows "wp m Q F r"
  by (rule wp_mono [of m "\<lambda>_. resource_ok" "\<lambda>f r. f \<in> Err ` A \<and> resource_ok r"]) (use assms in \<open>auto simp: serves_def\<close>)

lemma servesI: "(\<And>r. resource_ok r \<Longrightarrow> wp m (\<lambda>_. resource_ok) (\<lambda>f r. f \<in> Err ` A \<and> resource_ok r) r) \<Longrightarrow> serves A m"
  by (simp add: serves_def)

lemma servesD: "serves A m \<Longrightarrow> resource_ok r \<Longrightarrow> wp m (\<lambda>_. resource_ok) (\<lambda>f r. f \<in> Err ` A \<and> resource_ok r) r"
  by (simp add: serves_def)

named_theorems serves_intros

lemma serves_bnd [serves_intros]: "serves A m \<Longrightarrow> (\<And>x. serves A (k x)) \<Longrightarrow> serves A (bnd m k)"
  by (rule servesI) (auto simp: wp_bnd intro!: serves_wp [of A m] intro: servesD)

lemma serves_call_wp:
  assumes "\<And>s. I0 s \<Longrightarrow> wp operation (\<lambda>_. I0) (\<lambda>f s. f \<in> Err ` (g -` A) \<and> I0 s) s"
  shows "serves A (call_stack g E operation)"
proof (rule servesI)
  fix r assume "resource_ok r"
  then obtain s where r: "res_mutex r = Free" "res_inner r = Some s" "I0 s" by (auto simp: resource_ok_def stack_inv_def)
  have "wp operation (\<lambda>_. I0) (\<lambda>f s. f \<in> Err ` (g -` A) \<and> I0 s) (begin_call E s)" using assms r(3) by simp
  then show "wp (call_stack g E operation) (\<lambda>_. resource_ok) (\<lambda>f r. f \<in> Err ` A \<and> resource_ok r) r"
    by (cases "operation (begin_call E s)"; cases "fst (operation (begin_call E s))")
      (auto simp: wp_def call_stack_def bnd_def map_err_def map_fault_def with_stack_def r liftr_def ask_def
        resource_ok_def stack_inv_def)
qed

lemma serves_call_stack:
  assumes "keeps I0 operation" and "range g \<subseteq> A"
  shows "serves A (call_stack g E operation)"
proof (rule serves_call_wp)
  fix s assume "I0 s"
  have "f \<in> Err ` (g -` A)" if "f \<noteq> Panic" for f using that assms(2) by (cases f) (auto simp: image_subset_iff)
  then show "wp operation (\<lambda>_. I0) (\<lambda>f s. f \<in> Err ` (g -` A) \<and> I0 s) s"
    using keepsD [OF assms(1) \<open>I0 s\<close>] by (auto elim!: wp_mono)
qed

lemma serves_plain [serves_intros]:
  assumes "runs I0 operation"
  shows "serves A (plain_call E operation)"
proof (rule servesI)
  fix r assume "resource_ok r"
  then obtain s where r: "res_mutex r = Free" "res_inner r = Some s" "I0 s" by (auto simp: resource_ok_def stack_inv_def)
  have "wp operation (\<lambda>_. I0) (\<lambda>_ _. False) (begin_call E s)" using assms r(3) by (simp add: runs_def)
  then show "wp (plain_call E operation) (\<lambda>_. resource_ok) (\<lambda>f r. f \<in> Err ` A \<and> resource_ok r) r"
    by (cases "operation (begin_call E s)"; cases "fst (operation (begin_call E s))")
      (simp_all add: wp_def plain_call_def call_stack_def bnd_def map_err_def map_fault_def with_stack_def r liftr_def ask_def
        resource_ok_def stack_inv_def)
qed

lemma serves_socket [serves_intros]: "keeps I0 operation \<Longrightarrow> range socket_error_atom \<subseteq> A \<Longrightarrow> serves A (socket_call E operation)"
  unfolding socket_call_def by (rule serves_call_stack)

lemma serves_now [serves_intros]: "Atom_time_overflow \<in> A \<Longrightarrow> serves A (decode_now now_millis)"
  by (rule servesI) (auto simp: decode_now_def wp_simps split: option.splits)

text \<open>A term whose fields that are lists are proper ones.\<close>

definition proper_fields :: "'t Rustler \<Rightarrow> 't \<Rightarrow> bool" where
  "proper_fields D t \<longleftrightarrow> (\<forall>a v xs p. d_map_get D t a = Some v \<longrightarrow> d_list D v = Some (xs, p) \<longrightarrow> p)"

lemma panic_bind: "bind_res m k = Inl Panic \<longleftrightarrow> m = Inl Panic \<or> (\<exists>x. m = Inr x \<and> k x = Inl Panic)"
  by (cases m) (auto simp: bind_res_def)

lemma panic_map: "map_fault g m = Inl Panic \<longleftrightarrow> m = Inl Panic"
  by (auto simp: map_fault_def split: sum.splits fault.splits)

lemma panic_decoded: "decoded v \<noteq> Inl Panic"
  by (simp add: decoded_def split: option.splits)

lemmas panics = panic_bind panic_map panic_decoded

lemma decode_items_total: "(\<And>t. f t \<noteq> Inl Panic) \<Longrightarrow> decode_items f n ts True \<noteq> Inl Panic"
  by (induction f n ts True rule: decode_items.induct) (auto simp: panics)

lemma decode_list_total: "(\<And>t. f t \<noteq> Inl Panic) \<Longrightarrow> (\<And>xs p. d_list D t = Some (xs, p) \<Longrightarrow> p) \<Longrightarrow> decode_bounded_list D f n t \<noteq> Inl Panic"
proof -
  assume f: "\<And>t. f t \<noteq> Inl Panic" and p: "\<And>xs p. d_list D t = Some (xs, p) \<Longrightarrow> p"
  show ?thesis
  proof (cases "d_list D t")
    case (Some v)
    then obtain xs where "v = (xs, True)" using p by (cases v) auto
    then show ?thesis
      using decode_items_total [of f n xs, OF f] Some by (simp add: decode_bounded_list_def decoded_def bind_res_def)
  qed (simp add: decode_bounded_list_def decoded_def bind_res_def)
qed

lemma decode_endpoint_total:
  assumes "proper_fields D t"
  shows "decode_tcp_endpoint D t \<noteq> Inl Panic"
proof -
  have "decode_bounded_list D (\<lambda>v. decoded (d_u8 D v)) 16 v \<noteq> Inl Panic" if "d_map_get D t Atom_address = Some v" for v
    using assms that by (intro decode_list_total) (auto simp: panics proper_fields_def)
  then show ?thesis
    by (auto simp: decode_tcp_endpoint_def map_field_def panics) (auto simp: decoded_def split: option.splits)
qed

lemma serves_endpoint [serves_intros]:
  assumes "proper_fields D t" and "range socket_error_atom \<subseteq> A"
  shows "serves A (decode_endpoint D t)"
proof (cases "decode_tcp_endpoint D t")
  case (Inl f)
  then obtain e where "f = Err e" using decode_endpoint_total [OF assms(1)] by (cases f) auto
  moreover have "socket_error_atom e \<in> A" using assms(2) by blast
  ultimately show ?thesis using Inl by (simp add: serves_def decode_endpoint_def of_result_def wp_def map_fault_def)
qed (simp add: serves_def decode_endpoint_def of_result_def wp_def map_fault_def)

definition proper_list :: "'t Rustler \<Rightarrow> 't \<Rightarrow> bool" where
  "proper_list D t \<longleftrightarrow> (\<forall>xs p. d_list D t = Some (xs, p) \<longrightarrow> p)"

lemma decode_packets_errors: "decode_packets D n ts True = Inl f \<Longrightarrow> f = Err Atom_batch_too_large \<or> f = Err Atom_invalid_packet"
  by (induction D n ts True rule: decode_packets.induct) (auto simp: bind_res_def split: sum.splits option.splits if_splits)

lemma serves_batch [serves_intros]:
  "proper_list D t \<Longrightarrow> Atom_batch_too_large \<in> A \<Longrightarrow> Atom_invalid_packet \<in> A \<Longrightarrow> serves A (of_result (decode_packet_batch D t))"
  by (intro servesI)
    (auto simp: of_result_def wp_def decode_packet_batch_def proper_list_def dest!: decode_packets_errors split: sum.splits option.splits)

lemma serves_snapshot [serves_intros]:
  "serves A (map_err g (with_stack_unobserved f))"
  by (intro servesI) (auto simp: wp_def map_err_def map_fault_def with_stack_unobserved_def resource_ok_def)

section \<open>Requests\<close>

text \<open>A call of one of the native functions on a resource, and whether it was refused.\<close>

datatype 't Request =
    Stack_ingress bytes int
  | Stack_ingress_batch 't int
  | Stack_poll int
  | Stack_grant_egress nat nat int
  | Stack_shutdown AbortReason
  | Stack_snapshot PathMtuStats
  | Socket_cancel SocketIdentity Operation reference
  | Socket_validate SocketIdentity
  | Tcp_open AddressFamily nat nat
  | Tcp_bind SocketIdentity 't
  | Tcp_listen SocketIdentity nat int
  | Tcp_accept SocketIdentity pid reference int
  | Tcp_connect SocketIdentity 't pid reference int
  | Tcp_send SocketIdentity bytes pid reference int
  | Tcp_recv SocketIdentity nat pid reference int
  | Tcp_shutdown SocketIdentity ShutdownHow int
  | Tcp_sockname SocketIdentity
  | Tcp_peername SocketIdentity
  | Tcp_set_nodelay SocketIdentity bool int
  | Tcp_nodelay SocketIdentity
  | Tcp_set_keepalive SocketIdentity bool int
  | Tcp_keepalive SocketIdentity
  | Tcp_close SocketIdentity int
  | Udp_open AddressFamily
  | Udp_bind SocketIdentity 't
  | Udp_connect SocketIdentity 't
  | Udp_sendto SocketIdentity 't bytes pid reference int
  | Udp_recvfrom SocketIdentity nat pid reference int
  | Udp_sockname SocketIdentity
  | Udp_peername SocketIdentity
  | Udp_close SocketIdentity int

fun reason :: "'a Reply \<Rightarrow> Atom option" where
  "reason (Reply_ok _) = None"
| "reason (Reply_error a) = Some a"

definition answered :: "'a Reply \<times> StackResource \<Rightarrow> Atom option \<times> StackResource" where
  "answered v = (reason (fst v), snd v)"

fun serve :: "'t Rustler \<Rightarrow> Env \<Rightarrow> 't Request \<Rightarrow> StackResource \<Rightarrow> Atom option \<times> StackResource" where
  "serve D E (Stack_ingress a b) r = answered (nif_stack_ingress E a b r)"
| "serve D E (Stack_ingress_batch a b) r = answered (nif_stack_ingress_batch D E a b r)"
| "serve D E (Stack_poll a) r = answered (nif_stack_poll E a r)"
| "serve D E (Stack_grant_egress a b c) r = answered (nif_stack_grant_egress E a b c r)"
| "serve D E (Stack_shutdown a) r = answered (nif_stack_shutdown E a r)"
| "serve D E (Stack_snapshot a) r = answered (nif_stack_snapshot a r)"
| "serve D E (Socket_cancel a b c) r = answered (nif_socket_cancel E a b c r)"
| "serve D E (Socket_validate a) r = answered (nif_socket_validate E a r)"
| "serve D E (Tcp_open a b c) r = answered (nif_tcp_open E a b c r)"
| "serve D E (Tcp_bind a b) r = answered (nif_tcp_bind D E a b r)"
| "serve D E (Tcp_listen a b c) r = answered (nif_tcp_listen E a b c r)"
| "serve D E (Tcp_accept a b c d) r = answered (nif_tcp_accept E a b c d r)"
| "serve D E (Tcp_connect a b c d e) r = answered (nif_tcp_connect D E a b c d e r)"
| "serve D E (Tcp_send a b c d e) r = answered (nif_tcp_send E a b c d e r)"
| "serve D E (Tcp_recv a b c d e) r = answered (nif_tcp_recv E a b c d e r)"
| "serve D E (Tcp_shutdown a b c) r = answered (nif_tcp_shutdown E a b c r)"
| "serve D E (Tcp_sockname a) r = answered (nif_tcp_sockname E a r)"
| "serve D E (Tcp_peername a) r = answered (nif_tcp_peername E a r)"
| "serve D E (Tcp_set_nodelay a b c) r = answered (nif_tcp_set_nodelay E a b c r)"
| "serve D E (Tcp_nodelay a) r = answered (nif_tcp_nodelay E a r)"
| "serve D E (Tcp_set_keepalive a b c) r = answered (nif_tcp_set_keepalive E a b c r)"
| "serve D E (Tcp_keepalive a) r = answered (nif_tcp_keepalive E a r)"
| "serve D E (Tcp_close a b) r = answered (nif_tcp_close E a b r)"
| "serve D E (Udp_open a) r = answered (nif_udp_open E a r)"
| "serve D E (Udp_bind a b) r = answered (nif_udp_bind D E a b r)"
| "serve D E (Udp_connect a b) r = answered (nif_udp_connect D E a b r)"
| "serve D E (Udp_sendto a b c d e f) r = answered (nif_udp_sendto D E a b c d e f r)"
| "serve D E (Udp_recvfrom a b c d e) r = answered (nif_udp_recvfrom E a b c d e r)"
| "serve D E (Udp_sockname a) r = answered (nif_udp_sockname E a r)"
| "serve D E (Udp_peername a) r = answered (nif_udp_peername E a r)"
| "serve D E (Udp_close a b) r = answered (nif_udp_close E a b r)"

text \<open>Undecoded terms of a request hold proper lists only.\<close>

fun proper :: "'t Rustler \<Rightarrow> 't Request \<Rightarrow> bool" where
  "proper D (Stack_ingress_batch t _) = proper_list D t"
| "proper D (Tcp_bind _ t) = proper_fields D t"
| "proper D (Tcp_connect _ t _ _ _) = proper_fields D t"
| "proper D (Udp_bind _ t) = proper_fields D t"
| "proper D (Udp_connect _ t) = proper_fields D t"
| "proper D (Udp_sendto _ t _ _ _ _) = proper_fields D t"
| "proper D _ = True"

text \<open>The deadline of a close is a representable time, which a build with overflow checks needs.\<close>

fun timely :: "Env \<Rightarrow> 't Request \<Rightarrow> bool" where
  "timely E (Tcp_close _ now) = (case instant_from_millis now of None \<Rightarrow> True | Some t \<Rightarrow> close_in_time E t)"
| "timely E _ = True"

definition admissible :: "'t Rustler \<Rightarrow> Env \<Rightarrow> 't Request \<Rightarrow> bool" where
  "admissible D E q \<longleftrightarrow> proper D q \<and> timely E q"

lemma timely_unchecked: "\<not> e_overflow_checks E \<Longrightarrow> timely E q"
  by (cases q) (auto simp: close_in_time_def instant_add_def Let_def split: option.splits)

fun is_ingress :: "'t Request \<Rightarrow> bool" where
  "is_ingress (Stack_ingress _ _) = True"
| "is_ingress (Stack_ingress_batch _ _) = True"
| "is_ingress _ = False"

text \<open>The atoms a request may be refused with.\<close>

definition refusals :: "'t Request \<Rightarrow> Atom set" where
  "refusals q = - {Atom_native_panic} - (if is_ingress q then {} else {Atom_ownership_invariant_violation})"

lemma socket_atoms [simp]: "range socket_error_atom \<subseteq> refusals q"
proof -
  have "socket_error_atom e \<noteq> Atom_native_panic \<and> socket_error_atom e \<noteq> Atom_ownership_invariant_violation" for e
    by (cases e) simp_all
  then show ?thesis by (auto simp: refusals_def) metis+
qed

lemma nif_serves:
  assumes "serves A m" and "resource_ok r" and "answered (nif m r) = (a, r')"
  shows "resource_ok r' \<and> (\<forall>b. a = Some b \<longrightarrow> b \<in> A)"
  using servesD [OF assms(1,2)] assms(3)
  by (auto simp: wp_def nif_def catch_operation_def encode_envelope_result_def answered_def split: prod.splits sum.splits fault.splits)

lemma ingress_atoms [simp]: "is_ingress q \<Longrightarrow> range stack_error_atom \<subseteq> refusals q"
proof -
  assume "is_ingress q"
  moreover have "stack_error_atom e \<noteq> Atom_native_panic" for e by (cases e) simp_all
  ultimately show ?thesis by (auto simp: refusals_def) metis
qed

lemma decoding_atoms [simp]:
  "Atom_time_overflow \<in> refusals q" "Atom_batch_too_large \<in> refusals q" "Atom_invalid_packet \<in> refusals q"
  by (simp_all add: refusals_def)

lemmas operations_keep = tcp_sockname_keeps socket_validate_keeps tcp_peername_keeps cancel_call_keeps tcp_nodelay_keeps
  tcp_keepalive_keeps tcp_set_nodelay_keeps tcp_set_keepalive_keeps tcp_send_keeps tcp_recv_keeps tcp_shutdown_keeps
  tcp_bind_keeps tcp_open_keeps tcp_connect_keeps tcp_listen_keeps tcp_accept_keeps udp_open_keeps
  udp_bind_keeps udp_connect_keeps udp_sendto_keeps udp_recvfrom_keeps udp_sockname_keeps udp_peername_keeps udp_close_keeps

lemma ingress_call_keeps:
  "engine_ok E \<Longrightarrow> keeps I0 (bnd (ingress_batch E ps now) (\<lambda>effects. finish_call E v effects []))"
  by (intro keeps_intros)

lemma serves_ingress:
  assumes "engine_ok E" and "is_ingress q"
  shows "serves (refusals q) (call_stack stack_error_atom E (bnd (ingress_batch E ps now) (\<lambda>effects. finish_call E v effects [])))"
  using assms by (intro serves_call_stack ingress_call_keeps) simp_all

lemma serves_grant:
  assumes eng: "engine_ok E"
  shows "serves (refusals q) (call_stack stack_error_atom E (grant_egress_call E p b now))"
proof (rule serves_call_wp)
  fix s assume inv: "I0 s"
  have "I0 (s\<lparr>dev := snd (grant_egress p b (dev s))\<rparr>)"
    using inv_dev [OF inv device_wf_grant [OF invD(4) [OF inv]]] .
  then show "wp (grant_egress_call E p b now) (\<lambda>_. I0)
      (\<lambda>f s. f \<in> Err ` (stack_error_atom -` refusals q) \<and> I0 s) s"
    unfolding grant_egress_call_def wp_bnd wp_gets wp_act
    using inv by (auto simp: wp_simps case_prod_beta refusals_def intro!: runs_wp [OF drive_runs [OF eng]] runs_wp [OF runs_finish])
qed

lemmas nif_defs =
  nif_stack_ingress_def nif_stack_ingress_batch_def nif_stack_poll_def nif_stack_grant_egress_def nif_stack_shutdown_def nif_socket_cancel_def
  nif_socket_validate_def nif_tcp_open_def nif_tcp_bind_def nif_tcp_listen_def nif_tcp_accept_def nif_tcp_connect_def
  nif_tcp_send_def nif_tcp_recv_def nif_tcp_shutdown_def nif_tcp_sockname_def nif_tcp_peername_def nif_tcp_set_nodelay_def
  nif_tcp_nodelay_def nif_tcp_set_keepalive_def nif_tcp_keepalive_def nif_tcp_close_def nif_udp_open_def nif_udp_bind_def
  nif_udp_connect_def nif_udp_sendto_def nif_udp_recvfrom_def nif_udp_sockname_def nif_udp_peername_def nif_udp_close_def
  nif_stack_snapshot_def

lemmas requests_serve = serves_intros operations_keep serves_ingress serves_grant poll_call_runs shutdown_runs
  socket_atoms decoding_atoms is_ingress.simps

lemma serves_close:
  assumes eng: "engine_ok E" and "timely E (Tcp_close i n)"
  shows "serves (refusals q) (bnd (decode_now n) (\<lambda>now. socket_call E (tcp_close E i now)))"
proof (cases "instant_from_millis n")
  case None
  then show ?thesis by (auto intro!: servesI simp: decode_now_def wp_simps)
next
  case (Some t)
  then have "keeps I0 (tcp_close E i t)" using assms by (simp add: tcp_close_keeps)
  then show ?thesis
    using servesD [OF serves_socket [OF _ socket_atoms]] by (auto intro!: servesI simp: decode_now_def wp_simps Some)
qed

lemma serve_ok:
  assumes eng: "engine_ok E" and "admissible D E q" and ok: "resource_ok r" and run: "serve D E q r = (a, r')"
  shows "resource_ok r' \<and> (\<forall>b. a = Some b \<longrightarrow> b \<in> refusals q)"
proof (cases "\<exists>i n. q = Tcp_close i n")
  case True
  then obtain i n where q: "q = Tcp_close i n" by blast
  show ?thesis
    using nif_serves [OF serves_close [OF eng] ok] assms(2) run by (simp add: q nif_tcp_close_def admissible_def)
next
  case False
  have "proper D q" using assms(2) by (simp add: admissible_def)
  with False run show ?thesis
    by (cases q)
      (simp_all only: serve.simps nif_defs proper.simps ingress_def Request.inject simp_thms,
       (erule nif_serves [OF _ ok, rotated], (intro requests_serve eng TrueI | assumption | simp)+)+)
qed
section \<open>What a call carries over\<close>

text \<open>A relation between the stack before and after: one that every operation a native function runs
  establishes, and the start and the end of a call too, holds across the native function.\<close>

definition carries :: "(NativeStack \<Rightarrow> NativeStack \<Rightarrow> bool) \<Rightarrow> (StackResource, Atom, 'a) prog \<Rightarrow> bool" where
  "carries R m \<longleftrightarrow> (\<forall>r s. res_inner r = Some s \<longrightarrow> (\<exists>s'. res_inner (snd (m r)) = Some s' \<and> R s s'))"

locale carried =
  fixes R :: "NativeStack \<Rightarrow> NativeStack \<Rightarrow> bool"
  assumes same: "R s s" and next_one: "R s t \<Longrightarrow> R t u \<Longrightarrow> R s u" and started: "R s (begin_call E s)" and observed: "R s (observe_call E s)"
begin

lemma over_bnd: "carries R m \<Longrightarrow> (\<And>x. carries R (k x)) \<Longrightarrow> carries R (bnd m k)"
proof -
  assume m: "carries R m" and k: "\<And>x. carries R (k x)"
  show ?thesis
    unfolding carries_def
  proof (intro allI impI)
    fix r :: StackResource and s assume r: "res_inner r = Some s"
    obtain v r' where run: "m r = (v, r')" by (rule prod.exhaust)
    then obtain s' where s': "res_inner r' = Some s'" "R s s'" using m r unfolding carries_def by (metis snd_conv)
    then have "\<exists>s''. res_inner (snd (k x r')) = Some s'' \<and> R s s''" for x
      using k [of x] unfolding carries_def by (metis next_one)
    then show "\<exists>s'. res_inner (snd (bnd m k r)) = Some s' \<and> R s s'" using s' by (cases v) (simp_all add: bnd_def run)
  qed
qed

lemma over_call:
  assumes "\<And>s. R s (snd (operation s))"
  shows "carries R (call_stack g E operation)"
  unfolding carries_def
proof (intro allI impI)
  fix r :: StackResource and s assume r: "res_inner r = Some s"
  obtain v s' where run: "operation (begin_call E s) = (v, s')" by (rule prod.exhaust)
  have R: "R s s'" using next_one [OF started assms [of "begin_call E s"]] run by (metis snd_conv)
  show "\<exists>s'. res_inner (snd (call_stack g E operation r)) = Some s' \<and> R s s'"
    using R next_one [OF R observed] same
    by (cases v; cases "projl v"; cases "res_mutex r = Free")
      (auto simp: call_stack_def bnd_def map_err_def map_fault_def with_stack_def r run liftr_def ask_def split: fault.splits)
qed

lemma over_decoding:
  "carries R (decode_now now)" "carries R (decode_endpoint D t)" "carries R (of_result v)" "carries R (map_err h (with_stack_unobserved f))"
  by (auto simp: carries_def decode_now_def liftr_def ask_def decode_endpoint_def of_result_def map_err_def with_stack_unobserved_def same
      split: sum.splits option.splits)

lemma over_nif:
  assumes "carries R m" and "res_inner r = Some s" and "answered (nif m r) = (a, r')"
  shows "\<exists>s'. res_inner r' = Some s' \<and> R s s'"
proof -
  have "snd (answered (nif m r)) = snd (m r)"
    by (auto simp: answered_def nif_def catch_operation_def split: prod.splits sum.splits fault.splits)
  then have "r' = snd (m r)" using assms(3) by simp
  then show ?thesis using assms(1,2) unfolding carries_def by blast
qed

end

section \<open>What requests never change\<close>

definition onward :: "NativeStack \<Rightarrow> NativeStack \<Rightarrow> bool" where
  "onward s s' \<longleftrightarrow> config s' = config s \<and> stage (st_lifecycle s) \<le> stage (st_lifecycle s')"

interpretation onward: carried "\<lambda>s s'. next_forced_budget_checkpoints s = None \<longrightarrow> onward s s'"
proof
  fix s t u
  assume "next_forced_budget_checkpoints s = None \<longrightarrow> onward s t" and "next_forced_budget_checkpoints t = None \<longrightarrow> onward t u"
  then show "next_forced_budget_checkpoints s = None \<longrightarrow> onward s u" by (auto simp: onward_def config_def)
qed (auto simp: onward_def begin_call_def observe_call_def config_def Let_def case_prod_beta)

lemma onward_call: "advances operation \<Longrightarrow> carries (\<lambda>s s'. next_forced_budget_checkpoints s = None \<longrightarrow> onward s s') (call_stack g E operation)"
  by (rule onward.over_call) (simp add: advances_def onward_def)

lemma serve_onward:
  assumes "res_inner r = Some s" and "next_forced_budget_checkpoints s = None" and "serve D E q r = (a, r')"
  shows "\<exists>s'. res_inner r' = Some s' \<and> onward s s'"
proof -
  have "\<exists>s'. res_inner r' = Some s' \<and> (next_forced_budget_checkpoints s = None \<longrightarrow> onward s s')"
    using assms(3)
    by (cases q)
      (simp_all only: serve.simps nif_defs socket_call_def plain_call_def,
       (erule onward.over_nif [OF _ assms(1), rotated],
        (intro onward.over_bnd onward.over_decoding onward_call advances_poll advances_shutdown advances_frames frame_intros)+)+)
  then show ?thesis using assms(2) by simp
qed

end
