(* ===== verification/Service.thy ===== *)
theory Service
  imports Nif_Invariant
begin

text \<open>
  A resource over its lifetime: created by \<open>stack_new\<close>, then called any number of times, while other
  stacks draw identifiers from the counters it shares with them. The properties of the program as a
  whole are stated on the resources \<open>attained\<close> this way.
\<close>

section \<open>Creation\<close>

lemma NativeStack_new_total: "NativeStack_new E ident counters0 idx l c \<noteq> Inl Panic"
  using config_validate_Inr(6,7) [of c l] by (auto simp: NativeStack_new_def list_ex_iff Let_def split: sum.splits)

lemma NativeStack_new_inv:
  assumes "NativeStack_new E ident c idx l cfg = Inr s" and "limits_valid l"
  shows "stack_inv s" and "limits s = l" and "st_lifecycle s = Running" and "next_forced_budget_checkpoints s = None"
    and "lock (ready s) = Free"
proof -
  have empty: "bt_get [] = Map.empty" by (simp add: fun_eq_iff)
  have none: "live_tcp [] = {#}" "live_udp [] = {#}"
    by (auto simp: live_tcp_def live_udp_def live_tcp_set_def live_udp_set_def ss_get_def)
  have "sockets l \<le> usize_max" using assms(2) by (simp add: limits_valid_def MAX_SOCKETS_def usize_max_def)
  then show "stack_inv s"
    using assms(1)
    by (auto simp: NativeStack_new_def Let_def stack_inv_def held_inv_def own_at_def ids_at_def keep_at_def table_sig_def ids_def
        keys_def sockets_wf_def ss_get_def none owned_tcp_def owned_udp_def ss_count_def native_bytes_def table_wf_new device_wf_new empty
        split: sum.splits if_splits) (simp_all add: SocketTable_new_def empty)
  show "limits s = l" "st_lifecycle s = Running" "next_forced_budget_checkpoints s = None" "lock (ready s) = Free"
    using assms by (auto simp: NativeStack_new_def Let_def ReadyQueue_new_def split: sum.splits if_splits)
qed

section \<open>Lifetime\<close>

inductive attained :: "'t Rustler \<Rightarrow> Env \<Rightarrow> StackResource \<Rightarrow> bool" for D E where
  created: "nif_stack_new D E c idx limits_term config_term now g = (Reply_ok v, g') \<Longrightarrow> attained D E (env_result v)"
| served: "attained D E r \<Longrightarrow> admissible D E q \<Longrightarrow> serve D E q r = (a, r') \<Longrightarrow> attained D E r'"
| others: "attained D E r \<Longrightarrow> res_inner r = Some s \<Longrightarrow> next_socket_id (id_counters s) \<le> next_socket_id c \<Longrightarrow>
    attained D E (r\<lparr>res_inner := Some (s\<lparr>id_counters := c\<rparr>)\<rparr>)"

definition set_up :: "NativeStack \<Rightarrow> bool" where
  "set_up s \<longleftrightarrow> limits_valid (limits s) \<and> next_forced_budget_checkpoints s = None \<and> lock (ready s) = Free"

lemma stack_new_cases:
  assumes "nif_stack_new D E c idx limits_term config_term now g = (Reply_ok v, g')"
  obtains s where "env_result v = \<lparr>res_mutex = Free, res_inner = Some s\<rparr>" "stack_inv s" "set_up s" "st_lifecycle s = Running"
proof -
  obtain l cfg s where new: "NativeStack_new E (next_stack_id g) c idx l cfg = Inr s" "limits_valid l"
    and v: "env_result v = \<lparr>res_mutex = Free, res_inner = Some s\<rparr>"
    using assms
    by (auto simp: nif_stack_new_def StackResource_new_def Envelope_empty_def
        split: option.splits sum.splits fault.splits prod.splits if_splits)
  then show thesis using that [OF v] NativeStack_new_inv [OF new] by (simp add: set_up_def)
qed

lemma more_identifiers:
  assumes "I0 s" and "next_socket_id (id_counters s) \<le> next_socket_id c"
  shows "I0 (s\<lparr>id_counters := c\<rparr>)"
  using assms by (auto simp: held_inv_def ids_at_def split: prod.splits intro: less_le_trans)

lemma attained_set_up: "attained D E r \<Longrightarrow> \<exists>s. res_inner r = Some s \<and> set_up s"
proof (induction rule: attained.induct)
  case (created c idx lt ct now g v g')
  then show ?case by (auto elim: stack_new_cases)
next
  case (served r q a r')
  then obtain s where s: "res_inner r = Some s" "set_up s" by blast
  then obtain s' where "res_inner r' = Some s'" "onward s s'"
    using serve_onward [OF s(1) _ served.hyps(3)] by (auto simp: set_up_def)
  then show ?case using s by (auto simp: set_up_def onward_def config_def)
qed (auto simp: set_up_def)

lemma attained_ok:
  assumes eng: "engine_ok E" and "attained D E r"
  shows "resource_ok r"
  using assms(2)
proof (induction rule: attained.induct)
  case (created c idx lt ct now g v g')
  then show ?case by (auto simp: resource_ok_def elim: stack_new_cases)
next
  case (served r q a r')
  then show ?case using serve_ok [OF eng] by blast
qed (auto simp: resource_ok_def stack_inv_def more_identifiers)

section \<open>An example\<close>

text \<open>An engine that drops every packet and never emits one, terms that all decode to the same
  configuration, and the stack made from it.\<close>

definition idle_engine :: Env where
  "idle_engine = \<lparr>e_clock = (\<lambda>n. n), e_consume = (\<lambda>_ _. False), e_send = (\<lambda>_ _. True),
     e_ingress = (\<lambda>_ _ v ss. Some ((fst v, None), ss, [])), e_egress = (\<lambda>_ _ d ss. Some (False, d, ss, [])),
     e_poll_at = (\<lambda>_ _ _. Some None), e_source = (\<lambda>_ _. None), e_alloc = (\<lambda>_ _. True), e_overflow_checks = True\<rparr>"

definition sample_limits :: Limits where
  "sample_limits = \<lparr>bytes_copied = 1500, input_packets = 2, output_packets = 2, ready_events = 2, maintenance_work = 2, sockets = 2\<rparr>"

definition sample_terms :: "unit Rustler" where
  "sample_terms = \<lparr>d_map_get = (\<lambda>_ a. if a \<in> {Atom_egress_credit, Atom_tcp_timers} then None else Some ()),
     d_list = (\<lambda>_. Some ([], True)), d_i64 = (\<lambda>_. Some 80), d_usize = (\<lambda>_. Some 1280), d_u8 = (\<lambda>_. None),
     d_binary = (\<lambda>_. None), d_limits = (\<lambda>_. Some sample_limits), d_credit = (\<lambda>_. None), d_timers = (\<lambda>_. None)\<rparr>"

definition sample_config :: StackConfig where
  "sample_config = \<lparr>cfg_mtu = 1280, cfg_addresses = [], cfg_routes = [], cfg_egress_credit = None, cfg_tcp_timers = TcpTimers_default\<rparr>"

definition sample_stack :: NativeStack where
  "sample_stack = projr (NativeStack_new idle_engine 0 \<lparr>next_socket_id = 0, next_generation = 9\<rparr> 0 sample_limits sample_config)"

definition sample_resource :: StackResource where
  "sample_resource = \<lparr>res_mutex = Free, res_inner = Some sample_stack\<rparr>"

lemma idle_engine_ok: "engine_ok idle_engine"
  by (auto simp: engine_ok_def engine_total_def idle_engine_def ReceiveOne_new_def sockets_kept_def intro: engine_idle)

lemma idle_polls: "e_poll_at idle_engine n now ss = Some None"
  by (simp add: idle_engine_def)

lemma sample_valid: "config_validate sample_config sample_limits = Inr ()"
  by (simp add: config_validate_def sample_config_def sample_limits_def timers_valid_def TcpTimers_default_def USER_TIMEOUT_MILLIS_def
      KEEPALIVE_IDLE_MILLIS_def KEEPALIVE_INTERVAL_MILLIS_def KEEPALIVE_PROBES_def MAX_MILLIS_def)

lemma sample_new:
  "NativeStack_new idle_engine 0 \<lparr>next_socket_id = 0, next_generation = 9\<rparr> 0 sample_limits sample_config = Inr sample_stack"
  by (simp add: sample_stack_def NativeStack_new_def sample_valid Let_def) (simp add: sample_config_def)

lemma sample_attained: "attained sample_terms idle_engine sample_resource"
proof -
  let ?g = "\<lparr>next_stack_id = 0, created = 0, dropped = 0, active = 0\<rparr>"
  have terms: "d_limits sample_terms () = Some sample_limits" "decode_stack_config sample_terms () = Inr sample_config"
    by (simp_all add: sample_terms_def sample_config_def decode_stack_config_def map_field_def decoded_def bind_res_def
        decode_bounded_list_def)
  have valid: "limits_valid sample_limits"
    by (simp add: limits_valid_def sample_limits_def MAX_BYTES_COPIED_def MAX_INPUT_PACKETS_def MAX_OUTPUT_PACKETS_def
        MAX_READY_EVENTS_def MAX_MAINTENANCE_WORK_def MAX_SOCKETS_def)
  have now: "instant_from_millis 0 \<noteq> None" by (simp add: instant_from_millis_def i64_checked_def i64_min_def i64_max_def)
  obtain g' where "nif_stack_new sample_terms idle_engine \<lparr>next_socket_id = 0, next_generation = 9\<rparr> 0 () () 0 ?g =
      (Reply_ok (Envelope_empty sample_resource), g')"
    using now by (auto simp: nif_stack_new_def terms StackResource_new_def valid sample_new sample_resource_def)
  from attained.created [OF this] show ?thesis by (simp add: Envelope_empty_def)
qed

text \<open>The same stack with one UDP socket open.\<close>

definition open_resource :: StackResource where
  "open_resource = snd (serve sample_terms idle_engine (Udp_open Inet6) sample_resource)"

definition open_stack :: NativeStack where
  "open_stack = the (res_inner open_resource)"

lemma open_attained: "attained sample_terms idle_engine open_resource"
  unfolding open_resource_def
  by (rule attained.served [OF sample_attained, of "Udp_open Inet6"], simp add: admissible_def, rule prod.collapse [symmetric])

lemma open_inner: "res_inner open_resource = Some open_stack"
  using attained_set_up [OF open_attained] by (auto simp: open_stack_def)

lemma sample_fields:
  "socket_set sample_stack = []" "socket_table sample_stack = SocketTable_new 2 4" "udp_records sample_stack = []"
  "tcp_records sample_stack = []" "tcp_listeners sample_stack = []" "closing_tcp sample_stack = []" "limits sample_stack = sample_limits"
  "id_counters sample_stack = \<lparr>next_socket_id = 0, next_generation = 9\<rparr>" "st_lifecycle sample_stack = Running"
  by (simp_all add: sample_stack_def NativeStack_new_def sample_valid Let_def) (simp_all add: sample_config_def sample_limits_def)

lemma open_call:
  "wp (udp_open idle_engine Inet6) (\<lambda>_ s. length (udp_records s) = 1) (\<lambda>_ _. False) (begin_call idle_engine sample_stack)"
proof -
  have rest: "wp (finish_call E i eff []) (\<lambda>_ s. length (udp_records s) = Suc 0) (\<lambda>_ _. False) s"
    if "length (udp_records s) = Suc 0" "table_wf (socket_table s)" for E i eff s
    by (rule runs_wp [OF quiet_finish [of "view s"]]) (use that in \<open>auto simp: quiet_def view_def\<close>)
  show ?thesis
    by (simp add: udp_open_def wp_simps begin_call_def Let_def ensure_running_def ensure_logical_socket_capacity_def
        ensure_native_socket_capacity_def ensure_socket_buffer_capacity_def socket_buffer_bytes_def sample_fields SocketTable_new_def
        table_len_def checked_add_def checked_sub_def ss_count_def sample_limits_def BUFFER_BYTES_def PAYLOAD_BYTES_def usize_max_def
        MAX_SOCKET_BUFFER_BYTES_def MAX_BUFFER_BYTES_def add_socket_def ss_add_def insert_entry_def table_insert_def next_identity_def
        MAX_SOCKET_ID_def)
      (rule rest, simp_all add: table_wf_def bt_ok_def entry_waiter_count_def SocketEntry_new_def)
qed

lemma open_records: "length (udp_records open_stack) = 1"
proof -
  obtain v s where run: "udp_open idle_engine Inet6 (begin_call idle_engine sample_stack) = (Inr v, s)" "length (udp_records s) = 1"
    using open_call by (cases "udp_open idle_engine Inet6 (begin_call idle_engine sample_stack)") (auto simp: wp_def split: sum.splits)
  then have eq: "open_resource = sample_resource\<lparr>res_inner := Some (observe_call idle_engine s)\<rparr>"
    by (simp add: open_resource_def nif_udp_open_def nif_def answered_def catch_operation_def socket_call_def
        call_stack_def map_err_def map_fault_def with_stack_def sample_resource_def bnd_def liftr_def ask_def)
  moreover have "udp_records (observe_call idle_engine s) = udp_records s" by (simp add: observe_call_def Let_def case_prod_beta)
  ultimately show ?thesis using run(2) unfolding open_stack_def eq by simp
qed

section \<open>Safety\<close>

text \<open>C1: the code of the stack itself never panics. Assume that the engine does not panic, which
  includes that the virtual machine has a buffer for every frame the engine emits, and that it respects
  the sockets and the device (\<open>engine_ok\<close>); that the lists in the terms of all requests are proper; and,
  in a build with overflow checks, that the times given to \<open>tcp_close\<close> leave room for the deadline of the
  close (\<open>admissible\<close>). Statistics counters are taken as unbounded. Then no request makes a native function panic, whatever requests came before it:
  no \<open>expect\<close>, handle lookup or debug assertion fails, the answer is never \<open>native_panic\<close>, the mutex is free again afterwards and never poisoned, and only an
  ingress request can be refused with \<open>ownership_invariant_violation\<close>. What happens when the engine
  or an allocation does panic is C27.\<close>

theorem requests_never_panic:
  assumes "engine_ok E" and "attained D E r" and "admissible D E q" and "serve D E q r = (a, r')"
  shows "a \<noteq> Some Atom_native_panic \<and> res_mutex r' = Free \<and> (\<not> is_ingress q \<longrightarrow> a \<noteq> Some Atom_ownership_invariant_violation)"
  using serve_ok [OF assms(1,3) attained_ok [OF assms(1,2)] assms(4)] by (auto simp: resource_ok_def refusals_def)

theorem requests_never_panic_witness:
  "fst (serve sample_terms idle_engine (Udp_bind (SocketIdentity 0 9) ()) open_resource) \<notin>
     {Some Atom_native_panic, Some Atom_ownership_invariant_violation}"
proof -
  have "admissible sample_terms idle_engine (Udp_bind (SocketIdentity 0 9) ())"
    by (simp add: admissible_def proper_fields_def sample_terms_def)
  from requests_never_panic [OF idle_engine_ok open_attained this prod.collapse [symmetric]] show ?thesis by simp
qed

text \<open>The handles of the native sockets the records refer to.\<close>

definition tcp_handles :: "NativeStack \<Rightarrow> SocketHandle list" where
  "tcp_handles s = map (tr_handle \<circ> snd) (tcp_records s) @ concat (map (pool \<circ> snd) (tcp_listeners s))"

definition udp_handles :: "NativeStack \<Rightarrow> SocketHandle list" where
  "udp_handles s = concat (map (ur_handles \<circ> snd) (udp_records s))"

lemma tcp_handles_owned: "mset (tcp_handles s) = image_mset fst (owned_tcp (tcp_records s) (tcp_listeners s))"
proof -
  have "mset (map (tr_handle \<circ> snd) rs) = image_mset fst (\<Sum>(_, r) \<leftarrow> rs. {#record_held r#})" for rs :: "(nat, TcpRecord) btree"
    by (induction rs) (auto simp: record_held_def)
  moreover have "mset (concat (map (pool \<circ> snd) ls)) = image_mset fst (\<Sum>(_, l) \<leftarrow> ls. listener_held l)"
    for ls :: "(nat, ListenerRecord) btree"
    by (induction ls) (auto simp: listener_held_def multiset.map_comp comp_def)
  ultimately show ?thesis by (simp add: tcp_handles_def owned_tcp_def)
qed

lemma udp_handles_owned: "mset (udp_handles s) = owned_udp (udp_records s)"
proof -
  have "mset (concat (map (ur_handles \<circ> snd) us)) = (\<Sum>(_, u) \<leftarrow> us. mset (ur_handles u))" for us :: "(nat, UdpRecord) btree"
    by (induction us) auto
  then show ?thesis by (simp add: udp_handles_def owned_udp_def)
qed

lemma fst_live_tcp: "image_mset fst (live_tcp ss) = mset_set (fst ` live_tcp_set ss)"
  by (simp add: live_tcp_def image_mset_mset_set live_tcp_inj)

lemma distinct_mset_set: "finite A \<Longrightarrow> mset xs = mset_set A \<Longrightarrow> distinct xs"
proof -
  assume fin: "finite A" and eq: "mset xs = mset_set A"
  then have "set xs = A" by (metis finite_set_mset_mset_set set_mset_mset)
  moreover have "length xs = card A" using arg_cong [OF eq, of size] by simp
  ultimately show ?thesis by (simp add: card_distinct)
qed

lemma attained_inv: "engine_ok E \<Longrightarrow> attained D E r \<Longrightarrow> res_inner r = Some s \<Longrightarrow> I0 s"
  using attained_ok [of E D r] by (auto simp: resource_ok_def stack_inv_def)

text \<open>C2: native sockets have exactly one owner: no two records share one, every handle a record
  holds is live, and every live socket is held by a record, so that none is ever leaked.\<close>

theorem sockets_owned_once:
  assumes "engine_ok E" and "attained D E r" and "res_inner r = Some s"
  shows "distinct (tcp_handles s @ udp_handles s) \<and> set (tcp_handles s @ udp_handles s) = dom (ss_get (socket_set s))"
proof -
  let ?ss = "socket_set s"
  have own: "live_tcp ?ss = owned_tcp (tcp_records s) (tcp_listeners s)" "live_udp ?ss = owned_udp (udp_records s)"
    using invD(1) [OF attained_inv [OF assms]] by (simp_all add: own_at_def)
  have m: "mset (tcp_handles s) = mset_set (fst ` live_tcp_set ?ss)" "mset (udp_handles s) = mset_set (live_udp_set ?ss)"
    using tcp_handles_owned [of s] udp_handles_owned [of s] own fst_live_tcp [of ?ss] by (simp_all add: live_udp_def)
  have d: "distinct (tcp_handles s)" "distinct (udp_handles s)"
    by (rule distinct_mset_set [OF _ m(1)], simp, rule distinct_mset_set [OF _ m(2)], simp)
  have sets: "set (tcp_handles s) = fst ` live_tcp_set ?ss" "set (udp_handles s) = live_udp_set ?ss"
    using arg_cong [OF m(1), of set_mset] arg_cong [OF m(2), of set_mset] by simp_all
  show ?thesis using d sets live_disjoint [of ?ss] by (simp add: dom_live)
qed

theorem sockets_owned_once_witness:
  "length (udp_records open_stack) = 1 \<and> set (tcp_handles open_stack @ udp_handles open_stack) = dom (ss_get (socket_set open_stack))"
  using sockets_owned_once [OF idle_engine_ok open_attained open_inner] open_records by simp

lemma owned_tcp_record: "(k, t) \<in> set rs \<Longrightarrow> record_held t \<in># owned_tcp rs ls"
  by (induction rs) (auto simp: owned_tcp_def)

lemma owned_tcp_member: "(k, l) \<in> set ls \<Longrightarrow> h \<in> set (pool l) \<Longrightarrow> (h, lr_rcvbuf l, lr_sndbuf l) \<in># owned_tcp rs ls"
  by (induction ls) (auto simp: owned_tcp_def listener_held_def)

lemma owned_udp_member: "(k, u) \<in> set us \<Longrightarrow> h \<in> set (ur_handles u) \<Longrightarrow> h \<in># owned_udp us"
  by (induction us) (auto simp: owned_udp_def)

text \<open>C8: handles are used at the right type: the handle of a TCP record and every handle of a
  listener's pool is that of a TCP socket whose buffers have the sizes on record, and the handles of a
  UDP record are those of UDP sockets. Nothing the stack looks up by handle is missing or of the other
  kind.\<close>

theorem handles_well_typed:
  assumes "engine_ok E" and "attained D E r" and "res_inner r = Some s"
  shows "list_all (\<lambda>(_, t). (\<exists>sk. ss_get_tcp (socket_set s) (tr_handle t) = Some sk \<and> tcp_info sk = (tr_rcvbuf t, tr_sndbuf t)))
      (tcp_records s) \<and>
    list_all (\<lambda>(_, l). list_all (\<lambda>h. \<exists>sk. ss_get_tcp (socket_set s) h = Some sk \<and> tcp_info sk = (lr_rcvbuf l, lr_sndbuf l)) (pool l))
      (tcp_listeners s) \<and>
    list_all (\<lambda>(_, u). list_all (\<lambda>h. \<exists>sk. ss_get_udp (socket_set s) h = Some sk) (ur_handles u)) (udp_records s)"
proof -
  have own: "live_tcp (socket_set s) = owned_tcp (tcp_records s) (tcp_listeners s)" "live_udp (socket_set s) = owned_udp (udp_records s)"
    using invD(1) [OF attained_inv [OF assms]] by (simp_all add: own_at_def)
  show ?thesis
    using live_tcp_get [of _ _ "socket_set s"] live_udp_get [of _ "socket_set s"] owned_tcp_record owned_tcp_member owned_udp_member
    unfolding own record_held_def list_all_iff by (auto; metis)
qed

theorem handles_well_typed_witness:
  "length (udp_records open_stack) = 1 \<and>
   list_all (\<lambda>(_, u). list_all (\<lambda>h. \<exists>sk. ss_get_udp (socket_set open_stack) h = Some sk) (ur_handles u)) (udp_records open_stack)"
  using handles_well_typed [OF idle_engine_ok open_attained open_inner] open_records by simp

section \<open>Bounds\<close>

lemma sum_pools: "(\<forall>(k, l) \<in> set ls. f l \<le> g l) \<Longrightarrow> sum_list (map (f \<circ> snd) ls) \<le> sum_list (map (g \<circ> snd) (ls :: (nat \<times> 'l) list) :: nat list)"
  by (induction ls) (auto simp: add_mono)

text \<open>C9: a snapshot changes nothing and reports counts within the limits: open and closing sockets,
  native sockets, buffer memory and waiters are within the capacities it names, listener pools are at
  their target and accept queues within their backlogs.\<close>

theorem snapshot_within_limits:
  assumes "engine_ok E" and "attained D E r" and "nif_stack_snapshot stats r = (Reply_ok v, r')"
  shows "r' = r \<and> (let n = env_result v; l = snap_limits n in
    socket_count n + closing_tcp_socket_count n \<le> sockets l \<and>
    native_socket_count n \<le> native_socket_capacity n \<and>
    snap_socket_buffer_bytes n \<le> socket_buffer_capacity n \<and>
    snap_waiter_count n = read_waiter_count n + write_waiter_count n \<and> snap_waiter_count n \<le> 2 * sockets l \<and>
    listener_pool_socket_count n = listener_pool_target_count n \<and>
    accepted_queue_count n \<le> listener_backlog_capacity n)"
proof -
  obtain s where s: "res_inner r = Some s" "I0 s" "res_mutex r = Free" and v: "v = snapshot stats s" and r': "r' = r"
    using attained_ok [OF assms(1,2)] assms(3)
    by (auto simp: resource_ok_def stack_inv_def nif_stack_snapshot_def nif_def catch_operation_def map_err_def map_fault_def
        with_stack_unobserved_def encode_envelope_result_def)
  note own = invD(1) [OF s(2)] and ids = invD(2) [OF s(2)]
  have wf: "table_wf (socket_table s)" "max_entries (socket_table s) = sockets (limits s)" "max_waiters (socket_table s) = sockets (limits s) * 2"
    using ids by (auto simp: ids_at_def table_sig_def)
  have len: "length (entries (socket_table s)) = card (ids (socket_table s))"
    using wf(1) by (simp add: table_wf_def ids_def btm.count_card)
  have pools: "length (pool l) = pool_target l \<and> length (accept_queue l) \<le> backlog l" if "(k, l) \<in> set (tcp_listeners s)" for k l
    using own that by (auto simp: own_at_def listener_ok_def bt_get_iff)
  have "sum_list (map (length \<circ> pool \<circ> snd) (tcp_listeners s)) = sum_list (map (pool_target \<circ> snd) (tcp_listeners s))"
    using pools by (intro arg_cong [of _ _ sum_list] map_cong) auto
  moreover have "sum_list (map (length \<circ> accept_queue \<circ> snd) (tcp_listeners s)) \<le> sum_list (map (backlog \<circ> snd) (tcp_listeners s))"
    using sum_pools [of "tcp_listeners s" "length \<circ> accept_queue" backlog] pools by (auto simp: comp_assoc)
  ultimately show ?thesis
    using own ids wf len waiter_counts_total [of "socket_table s"] socket_buffer_bytes_owned [of s]
    by (auto simp: v r' snapshot_def Let_def Envelope_empty_def own_at_def ids_at_def table_sig_def table_wf_def table_len_def
        native_bytes_def comp_assoc split: prod.splits)
qed

theorem snapshot_within_limits_witness:
  "let stats = \<lparr>pm_received = 0, pm_rejected = 0, pm_reductions = 0\<rparr>; n = env_result (snapshot stats open_stack) in
   udp_socket_count n = 1 \<and> socket_count n + closing_tcp_socket_count n \<le> sockets (snap_limits n)"
proof -
  let ?stats = "\<lparr>pm_received = 0, pm_rejected = 0, pm_reductions = 0\<rparr>"
  have "nif_stack_snapshot ?stats open_resource = (Reply_ok (snapshot ?stats open_stack), open_resource)"
    using attained_ok [OF idle_engine_ok open_attained] open_inner
    by (simp add: resource_ok_def nif_stack_snapshot_def nif_def catch_operation_def map_err_def map_fault_def
        with_stack_unobserved_def encode_envelope_result_def)
  from snapshot_within_limits [OF idle_engine_ok open_attained this] show ?thesis
    using open_records by (simp add: Let_def) (simp add: snapshot_def Envelope_empty_def Let_def case_prod_beta)
qed

section \<open>The lifecycle\<close>

text \<open>C20: requests never change the configuration of a stack, whose limits stay the valid ones it was
  created with, and its lifecycle only moves forward.\<close>

theorem configuration_is_permanent:
  assumes "attained D E r" and "res_inner r = Some s" and "serve D E q r = (a, r')"
  shows "\<exists>s'. res_inner r' = Some s' \<and> limits_valid (limits s') \<and> limits s' = limits s \<and> stack_id s' = stack_id s \<and> mtu s' = mtu s \<and>
    ip_addrs s' = ip_addrs s \<and> iface_routes s' = iface_routes s \<and> route_prefixes s' = route_prefixes s \<and> tcp_timers s' = tcp_timers s \<and>
    stage (st_lifecycle s) \<le> stage (st_lifecycle s')"
proof -
  have s: "set_up s" using attained_set_up [OF assms(1)] assms(2) by simp
  then obtain s' where "res_inner r' = Some s'" "onward s s'"
    using serve_onward [OF assms(2) _ assms(3)] by (auto simp: set_up_def)
  then show ?thesis using s by (auto simp: onward_def config_def set_up_def)
qed

theorem configuration_is_permanent_witness:
  "\<exists>s'. res_inner (snd (serve sample_terms idle_engine (Stack_shutdown LinkDown) open_resource)) = Some s' \<and>
     limits_valid (limits s') \<and> limits s' = limits open_stack"
  using configuration_is_permanent [OF open_attained open_inner prod.collapse [symmetric], of "Stack_shutdown LinkDown"] by auto

text \<open>Whether a request's terms and times decode, and the requests a stack serves in every stage.\<close>

definition in_time :: "int \<Rightarrow> bool" where
  "in_time now \<longleftrightarrow> instant_from_millis now \<noteq> None"

definition endpoint_decodes :: "'t Rustler \<Rightarrow> 't \<Rightarrow> bool" where
  "endpoint_decodes D t \<longleftrightarrow> is_ok (decode_tcp_endpoint D t)"

fun decodes :: "'t Rustler \<Rightarrow> 't Request \<Rightarrow> bool" where
  "decodes D (Stack_ingress _ n) = (in_time n)"
| "decodes D (Stack_ingress_batch t n) = (is_ok (decode_packet_batch D t) \<and> in_time n)"
| "decodes D (Stack_poll n) = (in_time n)"
| "decodes D (Stack_grant_egress _ _ n) = (in_time n)"
| "decodes D (Tcp_bind _ t) = (endpoint_decodes D t)"
| "decodes D (Tcp_listen _ _ n) = (in_time n)"
| "decodes D (Tcp_accept _ _ _ n) = (in_time n)"
| "decodes D (Tcp_connect _ t _ _ n) = (endpoint_decodes D t \<and> in_time n)"
| "decodes D (Tcp_send _ _ _ _ n) = (in_time n)"
| "decodes D (Tcp_recv _ _ _ _ n) = (in_time n)"
| "decodes D (Tcp_shutdown _ _ n) = (in_time n)"
| "decodes D (Tcp_set_nodelay _ _ n) = (in_time n)"
| "decodes D (Tcp_set_keepalive _ _ n) = (in_time n)"
| "decodes D (Tcp_close _ n) = (in_time n)"
| "decodes D (Udp_bind _ t) = (endpoint_decodes D t)"
| "decodes D (Udp_connect _ t) = (endpoint_decodes D t)"
| "decodes D (Udp_sendto _ t _ _ _ n) = (endpoint_decodes D t \<and> in_time n)"
| "decodes D (Udp_recvfrom _ _ _ _ n) = (in_time n)"
| "decodes D (Udp_close _ n) = (in_time n)"
| "decodes D _ = True"

fun always_served :: "'t Request \<Rightarrow> bool" where
  "always_served (Stack_poll _) = True"
| "always_served (Stack_shutdown _) = True"
| "always_served (Stack_snapshot _) = True"
| "always_served _ = False"

definition refuses :: "'e \<Rightarrow> (NativeStack, 'e, 'a) prog \<Rightarrow> bool" where
  "refuses e m \<longleftrightarrow> (\<forall>s. st_lifecycle s \<noteq> Running \<longrightarrow> m s = (Inl (Err e), s))"

lemma refuses_running: "refuses SE_Closed (bnd (ask ensure_running) k)"
  by (auto simp: refuses_def bnd_def ask_def ensure_running_def split: Lifecycle.splits)

lemma refuses_socket:
  "refuses SE_Closed (cancel_call E i op rf)" "refuses SE_Closed (socket_validate E i)" "refuses SE_Closed (tcp_open E fam x y)"
  "refuses SE_Closed (tcp_bind E i ep)" "refuses SE_Closed (tcp_listen E i bl now)" "refuses SE_Closed (tcp_accept E i p rf now)"
  "refuses SE_Closed (tcp_connect E i ep p rf now)" "refuses SE_Closed (tcp_send E i data p rf now)"
  "refuses SE_Closed (tcp_recv E i len p rf now)" "refuses SE_Closed (tcp_shutdown E i how now)"
  "refuses SE_Closed (tcp_sockname E i)" "refuses SE_Closed (tcp_peername E i)" "refuses SE_Closed (tcp_set_nodelay E i b now)"
  "refuses SE_Closed (tcp_nodelay E i)" "refuses SE_Closed (tcp_set_keepalive E i b now)" "refuses SE_Closed (tcp_keepalive E i)"
  "refuses SE_Closed (tcp_close E i now)" "refuses SE_Closed (udp_open E fam)" "refuses SE_Closed (udp_bind E i ep)"
  "refuses SE_Closed (udp_connect E i ep)" "refuses SE_Closed (udp_sendto E i ep data p rf now)"
  "refuses SE_Closed (udp_recvfrom E i len p rf now)" "refuses SE_Closed (udp_sockname E i)" "refuses SE_Closed (udp_peername E i)"
  "refuses SE_Closed (udp_close E i now)"
  unfolding cancel_call_def socket_validate_def tcp_open_def tcp_bind_def tcp_listen_def tcp_accept_def tcp_connect_def tcp_send_def
    tcp_recv_def tcp_shutdown_def tcp_sockname_def tcp_peername_def tcp_set_nodelay_def tcp_nodelay_def tcp_set_keepalive_def
    tcp_keepalive_def tcp_close_def udp_open_def udp_bind_def udp_connect_def udp_sendto_def udp_recvfrom_def udp_sockname_def
    udp_peername_def udp_close_def
  by (rule refuses_running)+

lemma refuses_stack:
  "refuses Closed (bnd (ingress_batch E ps now) k)" "refuses Closed (grant_egress_call E p b now)"
  by (simp_all add: refuses_def ingress_batch_def grant_egress_call_def bnd_def gets_def raise_def)

definition closed_at :: "Env \<Rightarrow> NativeStack \<Rightarrow> StackResource \<Rightarrow> (StackResource, Atom, 'a) prog \<Rightarrow> bool" where
  "closed_at E s r m \<longleftrightarrow> m r = (Inl (Err Atom_closed), r\<lparr>res_inner := Some (observe_call E (begin_call E s))\<rparr>)"

lemma closed_call:
  assumes "refuses e operation" and "g e = Atom_closed" and "res_mutex r = Free" and "res_inner r = Some s" and "st_lifecycle s \<noteq> Running"
  shows "closed_at E s r (call_stack g E operation)"
proof -
  have "st_lifecycle (begin_call E s) = st_lifecycle s" by (simp add: begin_call_def Let_def)
  then have "operation (begin_call E s) = (Inl (Err e), begin_call E s)" using assms(1,5) by (simp add: refuses_def)
  then show ?thesis
    by (simp add: closed_at_def call_stack_def bnd_def map_err_def map_fault_def with_stack_def assms liftr_def ask_def)
qed

lemma closed_now: "in_time n \<Longrightarrow> (\<And>x. closed_at E s r (k x)) \<Longrightarrow> closed_at E s r (bnd (decode_now n) k)"
  by (auto simp: closed_at_def bnd_def decode_now_def in_time_def liftr_def ask_def)

lemma closed_endpoint: "endpoint_decodes D t \<Longrightarrow> (\<And>x. closed_at E s r (k x)) \<Longrightarrow> closed_at E s r (bnd (decode_endpoint D t) k)"
  by (auto simp: closed_at_def bnd_def decode_endpoint_def of_result_def map_fault_def endpoint_decodes_def is_ok_iff)

lemma closed_batch: "is_ok v \<Longrightarrow> (\<And>x. closed_at E s r (k x)) \<Longrightarrow> closed_at E s r (bnd (of_result v) k)"
  by (auto simp: closed_at_def bnd_def of_result_def is_ok_iff)

lemma closed_nif:
  "closed_at E s r m \<Longrightarrow> answered (nif m r) = (Some Atom_closed, r\<lparr>res_inner := Some (observe_call E (begin_call E s))\<rparr>)"
  by (simp add: closed_at_def answered_def nif_def catch_operation_def encode_envelope_result_def)

text \<open>C18: once shutdown has begun, every request except poll, shutdown and snapshot is refused with
  \<open>closed\<close>, whatever socket it names, and changes nothing of the stack but the budget and the counters
  of the call itself.\<close>

theorem requests_refused_after_shutdown:
  assumes "res_mutex r = Free" and "res_inner r = Some s" and "st_lifecycle s \<noteq> Running" and "decodes D q" and "\<not> always_served q"
  shows "serve D E q r = (Some Atom_closed, r\<lparr>res_inner := Some (observe_call E (begin_call E s))\<rparr>)"
proof -
  note socket = closed_call [of SE_Closed _ socket_error_atom, OF _ socket_error_atom.simps(1) assms(1-3)]
  note stack = closed_call [of Closed _ stack_error_atom, OF _ stack_error_atom.simps(1) assms(1-3)]
  show ?thesis
    using assms(4,5)
    by (cases q)
      (simp_all only: serve.simps nif_defs decodes.simps always_served.simps ingress_def socket_call_def simp_thms,
       (rule closed_nif, (intro closed_now closed_endpoint closed_batch socket stack refuses_socket refuses_stack | simp)+)+)
qed

theorem requests_refused_after_shutdown_witness:
  "fst (serve sample_terms idle_engine (Tcp_open Inet 4096 4096)
     (sample_resource\<lparr>res_inner := Some (sample_stack\<lparr>st_lifecycle := ShuttingDown\<rparr>)\<rparr>)) = Some Atom_closed"
proof -
  let ?s = "sample_stack\<lparr>st_lifecycle := ShuttingDown\<rparr>"
  let ?r = "sample_resource\<lparr>res_inner := Some ?s\<rparr>"
  have "res_mutex ?r = Free" "res_inner ?r = Some ?s" "st_lifecycle ?s \<noteq> Running" "decodes sample_terms (Tcp_open Inet 4096 4096)"
    "\<not> always_served (Tcp_open Inet 4096 4096)"
    by (simp_all add: sample_resource_def)
  from requests_refused_after_shutdown [OF this] show ?thesis by simp
qed

section \<open>Contention\<close>

definition blocked_at :: "StackResource \<Rightarrow> (StackResource, Atom, 'a) prog \<Rightarrow> bool" where
  "blocked_at r m \<longleftrightarrow> m r = (Inl (Err Atom_ownership_invariant_violation), r)"

lemma blocked_calls:
  assumes "res_mutex r \<noteq> Free"
  shows "blocked_at r (call_stack g E operation)" "blocked_at r (map_err (\<lambda>_. Atom_ownership_invariant_violation) (with_stack_unobserved f))"
  using assms by (simp_all add: blocked_at_def call_stack_def bnd_def map_err_def map_fault_def with_stack_def with_stack_unobserved_def)

lemma blocked_decoding:
  "in_time n \<Longrightarrow> (\<And>x. blocked_at r (k x)) \<Longrightarrow> blocked_at r (bnd (decode_now n) k)"
  "endpoint_decodes D t \<Longrightarrow> (\<And>x. blocked_at r (k2 x)) \<Longrightarrow> blocked_at r (bnd (decode_endpoint D t) k2)"
  "is_ok v \<Longrightarrow> (\<And>x. blocked_at r (k3 x)) \<Longrightarrow> blocked_at r (bnd (of_result v) k3)"
  by (auto simp: blocked_at_def bnd_def decode_now_def in_time_def liftr_def ask_def decode_endpoint_def of_result_def map_fault_def
      endpoint_decodes_def is_ok_iff)

lemma blocked_nif: "blocked_at r m \<Longrightarrow> answered (nif m r) = (Some Atom_ownership_invariant_violation, r)"
  by (simp add: blocked_at_def answered_def nif_def catch_operation_def encode_envelope_result_def)

lemma serve_blocked: "res_mutex r \<noteq> Free \<Longrightarrow> decodes D q \<Longrightarrow> serve D E q r = (Some Atom_ownership_invariant_violation, r)"
  by (cases q)
    (simp_all only: serve.simps nif_defs decodes.simps ingress_def socket_call_def plain_call_def,
     (rule blocked_nif, (intro blocked_calls blocked_decoding | simp)+)+)

text \<open>C19: a native function never waits for the mutex of a resource: while another call holds it, or
  after it was poisoned, every request that decodes is refused at once with
  \<open>ownership_invariant_violation\<close> and leaves the resource as it was.\<close>

theorem contended_resource_refuses:
  assumes "res_mutex r \<noteq> Free" and "decodes D q"
  shows "serve D E q r = (Some Atom_ownership_invariant_violation, r)"
  using assms by (rule serve_blocked)

theorem contended_resource_refuses_witness:
  "serve sample_terms idle_engine (Udp_open Inet) (sample_resource\<lparr>res_mutex := Held\<rparr>) =
     (Some Atom_ownership_invariant_violation, sample_resource\<lparr>res_mutex := Held\<rparr>)"
  by (rule contended_resource_refuses) simp_all

section \<open>Panics\<close>

text \<open>A program on a resource that, entered with a free mutex, leaves it free, or panics and poisons it.\<close>

definition contained :: "(StackResource, Atom, 'a) prog \<Rightarrow> bool" where
  "contained m \<longleftrightarrow> (\<forall>r. res_mutex r = Free \<longrightarrow>
     res_mutex (snd (m r)) = Free \<or> res_mutex (snd (m r)) = Poisoned \<and> fst (m r) = Inl Panic)"

lemma contained_bnd: "contained m \<Longrightarrow> (\<And>x. contained (k x)) \<Longrightarrow> contained (bnd m k)"
proof -
  assume m: "contained m" and k: "\<And>x. contained (k x)"
  show ?thesis
    unfolding contained_def
  proof (intro allI impI)
    fix r :: StackResource assume r: "res_mutex r = Free"
    obtain v r' where run: "m r = (v, r')" by fastforce
    show "res_mutex (snd (bnd m k r)) = Free \<or> res_mutex (snd (bnd m k r)) = Poisoned \<and> fst (bnd m k r) = Inl Panic"
      using m [unfolded contained_def, rule_format, OF r] k by (cases v) (auto simp: bnd_def run contained_def)
  qed
qed

lemma contained_calls:
  "contained (call_stack g E operation)" "contained (map_err h (with_stack_unobserved f))"
  "contained (decode_now n)" "contained (decode_endpoint D t)" "contained (of_result v)"
  by (auto simp: contained_def call_stack_def bnd_def map_err_def map_fault_def with_stack_def with_stack_unobserved_def liftr_def ask_def
      decode_now_def decode_endpoint_def of_result_def split: option.splits prod.splits sum.splits fault.splits)

lemma contained_nif:
  "contained m \<Longrightarrow> res_mutex r = Free \<Longrightarrow> answered (nif m r) = (a, r') \<Longrightarrow>
     res_mutex r' = Free \<or> res_mutex r' = Poisoned \<and> a = Some Atom_native_panic"
  by (auto simp: contained_def answered_def nif_def catch_operation_def encode_envelope_result_def
      split: prod.splits sum.splits fault.splits)

lemma serve_contained:
  assumes "res_mutex r = Free" and "serve D E q r = (a, r')"
  shows "res_mutex r' = Free \<or> res_mutex r' = Poisoned \<and> a = Some Atom_native_panic"
  using assms(2)
  by (cases q)
    (simp_all only: serve.simps nif_defs ingress_def socket_call_def plain_call_def,
     (erule contained_nif [OF _ assms(1), rotated], (intro contained_bnd contained_calls)+)+)

lemma panic_poisons:
  assumes "res_mutex r = Free" and "res_inner r = Some s" and "m (begin_call E s) = (Inl Panic, s')"
  shows "answered (nif (call_stack g E m) r) = (Some Atom_native_panic, r\<lparr>res_inner := Some s', res_mutex := Poisoned\<rparr>)"
  using assms by (simp add: answered_def nif_def catch_operation_def encode_envelope_result_def call_stack_def bnd_def map_err_def
      map_fault_def with_stack_def)

text \<open>C27: a panic is contained, whatever the engine, the allocator and the terms of the request do. If
  an operation called on the stack of a resource with a free mutex panics, whatever operation it is, the
  native function answers \<open>native_panic\<close>, the mutex is poisoned and the stack stays as the panic left it.
  A request either leaves the mutex free or poisons it, and poisons it only with that answer. On a
  poisoned resource every later request that decodes is refused with \<open>ownership_invariant_violation\<close> and
  changes nothing.\<close>

theorem panics_poison_the_resource:
  assumes "res_mutex r = Free" and "serve D E q r = (a, r')"
  shows "(res_inner r = Some s \<and> m (begin_call E s) = (Inl Panic, s') \<longrightarrow>
      answered (nif (call_stack g E m) r) = (Some Atom_native_panic, r\<lparr>res_inner := Some s', res_mutex := Poisoned\<rparr>)) \<and>
    (res_mutex r' = Free \<or> res_mutex r' = Poisoned \<and> a = Some Atom_native_panic) \<and>
    (res_mutex r' = Poisoned \<and> decodes D q' \<longrightarrow> serve D E' q' r' = (Some Atom_ownership_invariant_violation, r'))"
  using panic_poisons [OF assms(1), of s m E s' g] serve_contained [OF assms] serve_blocked [of r' D q' E'] by auto

text \<open>An engine with a frame to emit and no buffer for it.\<close>

definition starved_engine :: Env where
  "starved_engine = idle_engine\<lparr>e_egress := (\<lambda>_ _ d ss. map_option (\<lambda>d. (True, d, ss, [])) (tx_consume (\<lambda>_. False) [0x45] d)),
     e_alloc := (\<lambda>_ _. False)\<rparr>"

lemma starved_call:
  "wp (poll_call starved_engine 0 :: (NativeStack, Atom, unit Envelope) prog) (\<lambda>_ _. False) (\<lambda>f _. f = Panic) (begin_call starved_engine sample_stack)"
proof -
  have dev: "dev sample_stack = BeamDevice_new 1280 2 None" "closing_deadlines sample_stack = []" "snd (call_budget sample_stack) = Suc 0"
    "closing_cleanup_pending sample_stack = False" "listener_scan_pending sample_stack = False" "maintenance_cleanup_turn sample_stack = False"
    "next_forced_budget_checkpoints sample_stack = None" "next_forced_slice_exhaustion sample_stack = None"
    by (simp_all add: sample_stack_def NativeStack_new_def sample_valid Let_def) (simp_all add: sample_config_def sample_limits_def idle_engine_def)
  show ?thesis
    by (simp add: poll_call_def poll_def drive_def drive_batch_def drive_maintenance_def wp_simps begin_call_def Let_def sample_fields dev
      take_output_def take_transmit_def BeamDevice_new_def device_begin_call_def sample_limits_def numeral_2_eq_2 has_receive_def can_receive_def
      hold_unprocessed_def within_budget_def next_close_deadline_def scheduled_deadline_reached_def first_cleanup_def first_refresh_def
      queued_packets_def transmit_credit_available_def engine_egress_def starved_engine_def tx_consume_def idle_engine_def
      checkpoint_at_def checkpoint_def start_def WORK_BUDGET_def)
qed

lemma starved_panic:
  "\<exists>s. (poll_call starved_engine 0 :: (NativeStack, Atom, unit Envelope) prog) (begin_call starved_engine sample_stack) = (Inl Panic, s)"
  using starved_call by (cases "(poll_call starved_engine 0 :: (NativeStack, Atom, unit Envelope) prog) (begin_call starved_engine sample_stack)")
    (auto simp: wp_def split: sum.splits)

lemma starved_poll: "res_mutex (snd (serve sample_terms starved_engine (Stack_poll 0) sample_resource)) = Poisoned"
proof -
  obtain s where "(poll_call starved_engine 0 :: (NativeStack, Atom, unit Envelope) prog) (begin_call starved_engine sample_stack) = (Inl Panic, s)"
    using starved_panic by blast
  then show ?thesis
    by (simp add: nif_stack_poll_def nif_def answered_def catch_operation_def bnd_def decode_now_def liftr_def ask_def instant_from_millis_def
        i64_checked_def i64_min_def i64_max_def plain_call_def call_stack_def map_err_def map_fault_def with_stack_def sample_resource_def)
qed

theorem panics_poison_the_resource_witness:
  "let r' = snd (serve sample_terms starved_engine (Stack_poll 0) sample_resource)
   in fst (serve sample_terms starved_engine (Stack_poll 0) sample_resource) = Some Atom_native_panic \<and>
     serve sample_terms starved_engine (Udp_open Inet6) r' = (Some Atom_ownership_invariant_violation, r') \<and>
     (\<exists>s'. answered (nif (plain_call starved_engine (poll_call starved_engine 0)) sample_resource) =
        (Some Atom_native_panic, sample_resource\<lparr>res_inner := Some s', res_mutex := Poisoned\<rparr>))"
proof -
  have r: "res_mutex sample_resource = Free" "res_inner sample_resource = Some sample_stack" by (simp_all add: sample_resource_def)
  obtain s' where s': "(poll_call starved_engine 0 :: (NativeStack, Atom, unit Envelope) prog) (begin_call starved_engine sample_stack) = (Inl Panic, s')"
    using starved_panic by blast
  note all = panics_poison_the_resource [OF r(1) prod.collapse [symmetric], where D = sample_terms and E = starved_engine and q = "Stack_poll 0"
    and q' = "Udp_open Inet6" and E' = starved_engine and m = "poll_call starved_engine 0" and g = "\<lambda>a. a" and s = sample_stack and s' = s']
  show ?thesis unfolding Let_def plain_call_def using all starved_poll r(2) s' by auto
qed

end
