(* ===== verification/Service_Shutdown.thy ===== *)
theory Service_Shutdown
  imports Service
begin

text \<open>
  The end of a stack: what is left of it once its lifecycle says \<open>Shutdown\<close>, and that polling gets it
  there.
\<close>

section \<open>Nothing is left\<close>

definition gone :: "NativeStack \<Rightarrow> bool" where
  "gone s \<longleftrightarrow> (st_lifecycle s = Shutdown \<longrightarrow> \<not> shutdown_pending s)"

lemma gone_frame [simp]:
  "gone (begin_call E s) = gone s" "gone (observe_call E s) = gone s" "gone (s\<lparr>id_counters := c\<rparr>) = gone s"
  by (simp_all add: gone_def begin_call_def observe_call_def shutdown_pending_def shutdown_structures_pending_def readiness_remains_def
      Let_def case_prod_beta)

lemma gone_finish: "\<not> shutdown_pending s \<Longrightarrow> gone (finish_shutdown s)"
  by (auto simp: gone_def finish_shutdown_def shutdown_pending_def shutdown_structures_pending_def readiness_remains_def)

definition leaves_gone :: "(NativeStack, 'e, 'a) prog \<Rightarrow> bool" where
  "leaves_gone m \<longleftrightarrow> (\<forall>s. gone s \<longrightarrow> gone (snd (m s)))"

lemma leaves_refusing: "frames fixed m \<Longrightarrow> refuses e m \<Longrightarrow> leaves_gone m"
  unfolding leaves_gone_def frames_def refuses_def gone_def fixed_def by (metis Lifecycle.distinct(3) prod.inject snd_conv)

lemma gone_continue:
  assumes "st_lifecycle s \<noteq> Shutdown"
  shows "gone (snd (continue_shutdown E s :: ('e fault, unit Envelope) result \<times> NativeStack))"
proof -
  define first :: "(NativeStack, 'e, unit Envelope) prog" where
    "first = bnd (gets pending_notifications) (\<lambda>ns. bnd (if ns = [] then shutdown_work E else ret Effects_empty) (\<lambda>effects.
       finish_call E () effects []))"
  have eq: "continue_shutdown E = bnd first (\<lambda>envelope. bnd (gets shutdown_pending) (\<lambda>pending.
     if pending then ret (envelope\<lparr>env_more := True, env_poll_at := None\<rparr>)
     else bnd (modify finish_shutdown) (\<lambda>_. ret (envelope\<lparr>env_more := False\<rparr>))))"
    by (simp add: continue_shutdown_def first_def bnd_def fun_eq_iff split: prod.splits sum.splits)
  obtain v s' where run: "first s = (v, s')" by (rule prod.exhaust)
  have "frames fixed first" unfolding first_def by (intro frame_intros)
  then have "fixed s' = fixed s" unfolding frames_def by (metis run snd_conv)
  then have "st_lifecycle s' \<noteq> Shutdown" using assms by (simp add: fixed_def)
  then show ?thesis
    by (cases v) (auto simp: eq bnd_def run gets_def modify_def ret_def gone_finish, simp_all add: gone_def)
qed

lemma leaves_shutdown: "leaves_gone (shutdown E why)"
  by (auto simp: leaves_gone_def shutdown_def bnd_def gets_def modify_def ret_def intro: gone_continue)

lemma leaves_poll: "leaves_gone (poll_call E now :: (NativeStack, 'e, unit Envelope) prog)"
  unfolding leaves_gone_def
proof (intro allI impI)
  fix s assume gone: "gone s"
  show "gone (snd (poll_call E now s :: ('e fault, unit Envelope) result \<times> NativeStack))"
  proof (cases "st_lifecycle s")
    case Running
    let ?m = "bnd (poll E now) (\<lambda>effects. finish_call E () effects []) :: (NativeStack, 'e, unit Envelope) prog"
    have "frames fixed ?m" by (intro frame_intros)
    then have "st_lifecycle (snd (?m s)) = Running" using Running by (simp add: frames_def fixed_def)
    then show ?thesis using Running by (simp add: poll_call_def bnd_def gets_def gone_def)
  next
    case ShuttingDown
    then show ?thesis using gone_continue [of s E] by (simp add: poll_call_def bnd_def gets_def)
  next
    case Shutdown
    then show ?thesis using gone by (simp add: poll_call_def bnd_def gets_def ret_def)
  qed
qed

interpretation gone: carried "\<lambda>s s'. gone s \<longrightarrow> gone s'"
  by unfold_locales auto

lemma gone_call: "leaves_gone operation \<Longrightarrow> carries (\<lambda>s s'. gone s \<longrightarrow> gone s') (call_stack g E operation)"
  by (rule gone.over_call) (simp add: leaves_gone_def)

lemma serve_gone:
  assumes "res_inner r = Some s" and "gone s" and "serve D E q r = (a, r')"
  shows "\<exists>s'. res_inner r' = Some s' \<and> gone s'"
proof -
  note socket = gone_call [OF leaves_refusing, of _ SE_Closed] and stack = gone_call [OF leaves_refusing, of _ Closed]
  have "\<exists>s'. res_inner r' = Some s' \<and> (gone s \<longrightarrow> gone s')"
    using assms(3)
    by (cases q)
      (simp_all only: serve.simps nif_defs ingress_def socket_call_def plain_call_def,
       (erule gone.over_nif [OF _ assms(1), rotated],
        (intro gone.over_bnd gone.over_decoding gone_call [OF leaves_poll] gone_call [OF leaves_shutdown] socket stack refuses_socket
          refuses_stack frame_intros)+)+)
  then show ?thesis using assms(2) by simp
qed

lemma attained_gone: "attained D E r \<Longrightarrow> res_inner r = Some s \<Longrightarrow> gone s"
proof (induction arbitrary: s rule: attained.induct)
  case (created c idx lt ct now g v g')
  then show ?case by (auto simp: gone_def elim: stack_new_cases)
next
  case (served r q a r')
  obtain s0 where "res_inner r = Some s0" using attained_set_up [OF served.hyps(1)] by auto
  from serve_gone [OF this served.IH [OF this] served.hyps(3)] show ?case using served.prems by auto
qed auto

section \<open>Polling completes a shutdown\<close>

text \<open>A call on a stack is prompt if its first three checkpoints read the clock before the work budget,
  which starts with the call, has passed. A run of requests is prompt if each of its calls is; the time
  between the calls does not matter.\<close>

definition prompt_call :: "Env \<Rightarrow> NativeStack \<Rightarrow> bool" where
  "prompt_call E s \<longleftrightarrow>
     (let i = snd (call_budget s) in list_all (\<lambda>j. e_clock E (i + j) < e_clock E i + WORK_BUDGET) [1, 2, 3])"

fun serve_all :: "'t Rustler \<Rightarrow> Env \<Rightarrow> 't Request list \<Rightarrow> StackResource \<Rightarrow> StackResource" where
  "serve_all D E [] r = r"
| "serve_all D E (q # qs) r = serve_all D E qs (snd (serve D E q r))"

fun prompt_run :: "'t Rustler \<Rightarrow> Env \<Rightarrow> 't Request list \<Rightarrow> StackResource \<Rightarrow> bool" where
  "prompt_run D E [] r = True"
| "prompt_run D E (q # qs) r =
     ((case res_inner r of None \<Rightarrow> True | Some s \<Rightarrow> prompt_call E s) \<and> prompt_run D E qs (snd (serve D E q r)))"

lemma begin_affords:
  assumes "prompt_call E s" and "next_forced_budget_checkpoints s = None"
  shows "affords (e_clock E) 3 (call_budget (begin_call E s))"
proof -
  let ?i = "snd (call_budget s)"
  have "e_clock E (Suc ?i + j) < e_clock E ?i + WORK_BUDGET" if "j < 3" for j
    using assms(1) that by (auto simp: prompt_call_def Let_def less_Suc_eq numeral_eq_Suc)
  then show ?thesis
    using assms(2)
    by (simp add: affords_def begin_call_def start_def force_slice_exhaustion_after_def Let_def split: option.splits)
qed

lemma plain_call_run:
  assumes "res_mutex r = Free" and "res_inner r = Some s" and "wp operation Q (\<lambda>_ _. False) (begin_call E s)"
  shows "\<exists>v s'. plain_call E operation r = (Inr v, r\<lparr>res_inner := Some (observe_call E s')\<rparr>) \<and> Q v s'"
  using assms(3)
  by (cases "operation (begin_call E s)"; cases "fst (operation (begin_call E s))")
    (auto simp: wp_def plain_call_def call_stack_def bnd_def map_err_def map_fault_def with_stack_def assms(1,2) liftr_def ask_def)

lemma call_fields [simp]:
  "st_lifecycle (observe_call E s) = st_lifecycle s" "limits (observe_call E s) = limits s"
  "st_lifecycle (begin_call E s) = st_lifecycle s" "limits (begin_call E s) = limits s" "ready (begin_call E s) = ready s"
  "ready_sweep (begin_call E s) = ready_sweep s" "load (begin_call E s) = load s"
  by (simp_all add: observe_call_def begin_call_def Let_def case_prod_beta load_def structure_load_def)

lemma call_winding [simp]: "winding l b (observe_call E s) = winding l b s" "winding l b (begin_call E s) = winding l b s"
  by (simp add: observe_call_def Let_def case_prod_beta, simp add: winding_def)

text \<open>One more poll is needed when nothing is left to do.\<close>

definition nearly :: "nat \<Rightarrow> NativeStack \<Rightarrow> bool" where
  "nearly b s \<longleftrightarrow> st_lifecycle s = Shutdown \<or> 0 < b \<and> winding (limits s) (b - 1) s"

lemma shut_down_nearly: "shut_down l b v s \<Longrightarrow> nearly b s"
  by (auto simp: shut_down_def nearly_def winding_def split: if_splits)

lemma continue_nearly:
  assumes "set_up s" and "prompt_call E s" and "winding (limits s) b s1" and "load s1 \<le> b"
    and "call_budget s1 = call_budget (begin_call E s)"
  shows "wp (continue_shutdown E :: (NativeStack, 'e, unit Envelope) prog) (\<lambda>_. nearly b) (\<lambda>_ _. False) s1"
proof -
  have aff: "affords (e_clock E) 3 (call_budget s1)" using begin_affords [OF assms(2)] assms(1,5) by (simp add: set_up_def)
  have lim: "0 < maintenance_work (limits s)" "0 < ready_events (limits s)"
    using assms(1) limits_valid_positive by (auto simp: set_up_def)
  show ?thesis by (rule wp_mono [OF continue_progress [OF assms(3) lim aff assms(4)]]) (auto intro: shut_down_nearly)
qed

lemma shutdown_nearly:
  assumes "set_up s" and "I0 s" and "prompt_call E s" and "load s \<le> b"
  shows "wp (shutdown E why :: (NativeStack, 'e, unit Envelope) prog) (\<lambda>_. nearly b) (\<lambda>_ _. False) (begin_call E s)"
proof (cases "st_lifecycle s = Shutdown")
  case True
  then show ?thesis by (simp add: shutdown_def wp_simps nearly_def)
next
  case False
  let ?s = "begin_call E s\<lparr>shutdown_reason := why, st_lifecycle := ShuttingDown, ready_sweep := False,
    ready_sweep_cursor := None, ready_sweep_resweep := False, ready_sweep_pending := []\<rparr>"
  have less: "load ?s \<le> load s" by (simp add: load_def structure_load_def begin_call_def Let_def)
  then have "winding (limits s) b ?s" using assms by (simp add: winding_def set_up_def)
  from continue_nearly [OF assms(1,3) this] less assms(4) show ?thesis
    using False by (simp add: shutdown_def wp_simps)
qed

lemma poll_nearly:
  assumes "set_up s" and "prompt_call E s" and "nearly (Suc b) s"
  shows "wp (poll_call E now :: (NativeStack, 'e, unit Envelope) prog) (\<lambda>_. nearly b) (\<lambda>_ _. False) (begin_call E s)"
proof (cases "st_lifecycle s = Shutdown")
  case True
  then show ?thesis by (simp add: poll_call_def wp_simps nearly_def)
next
  case False
  then have w: "winding (limits s) b s" using assms(3) by (simp add: nearly_def)
  then have "st_lifecycle s = ShuttingDown" "load s \<le> b" by (simp_all add: winding_def)
  then show ?thesis using continue_nearly [OF assms(1,2), of b "begin_call E s"] w by (simp add: poll_call_def wp_simps)
qed

lemma attained_serve: "attained D E r \<Longrightarrow> admissible D E q \<Longrightarrow> attained D E (snd (serve D E q r))"
  by (rule attained.served) (auto intro: prod.collapse [symmetric])

lemma nearly_observed [simp]: "nearly b (observe_call E s) = nearly b s"
  by (simp add: nearly_def)

lemma serve_poll_nearly:
  assumes "engine_ok E" and "prompt_call E s" and "attained D E r" and "res_inner r = Some s" and "nearly (Suc b) s" and "in_time now"
  shows "\<exists>s'. res_inner (snd (serve D E (Stack_poll now) r)) = Some s' \<and> nearly b s'"
proof -
  have r: "res_mutex r = Free" using attained_ok [OF assms(1,3)] by (simp add: resource_ok_def)
  have "set_up s" using attained_set_up [OF assms(3)] assms(4) by simp
  note run = plain_call_run [OF r assms(4) poll_nearly [OF this assms(2,5)]]
  obtain t where t: "instant_from_millis now = Some t" using assms(6) by (auto simp: in_time_def)
  from run [of t] obtain v s' where "plain_call E (poll_call E t) r = (Inr v, r\<lparr>res_inner := Some (observe_call E s')\<rparr>)" "nearly b s'" by auto
  then show ?thesis
    by (simp add: nif_stack_poll_def nif_def answered_def catch_operation_def bnd_def decode_now_def liftr_def ask_def t)
qed

lemma polls_complete:
  assumes "engine_ok E"
  shows "attained D E r \<Longrightarrow> res_inner r = Some s \<Longrightarrow> nearly b s \<Longrightarrow> b \<le> length nows \<Longrightarrow> list_all in_time nows \<Longrightarrow>
    prompt_run D E (map Stack_poll nows) r \<Longrightarrow>
    \<exists>s'. res_inner (serve_all D E (map Stack_poll nows) r) = Some s' \<and> st_lifecycle s' = Shutdown"
proof (induction nows arbitrary: r s b)
  case Nil
  then show ?case by (auto simp: nearly_def)
next
  case (Cons now nows)
  have "nearly (Suc (b - 1)) s" using Cons.prems(3) by (auto simp: nearly_def)
  have "prompt_call E s" using Cons.prems(2,6) by simp
  from serve_poll_nearly [OF assms this Cons.prems(1,2) \<open>nearly (Suc (b - 1)) s\<close>] Cons.prems(5) obtain s'
    where s': "res_inner (snd (serve D E (Stack_poll now) r)) = Some s'" "nearly (b - 1) s'" by auto
  have "attained D E (snd (serve D E (Stack_poll now) r))" by (rule attained_serve [OF Cons.prems(1)]) (simp add: admissible_def)
  from Cons.IH [OF this s'] Cons.prems(4,5,6) show ?case by simp
qed

lemma shutdown_reaches:
  assumes "engine_ok E" and "prompt_run D E (Stack_shutdown why # map Stack_poll nows) r" and "attained D E r" and "res_inner r = Some s"
    and "load s \<le> length nows" and "list_all in_time nows"
  shows "\<exists>s'. res_inner (serve_all D E (Stack_shutdown why # map Stack_poll nows) r) = Some s' \<and> st_lifecycle s' = Shutdown"
proof -
  have r: "res_mutex r = Free" using attained_ok [OF assms(1,3)] by (simp add: resource_ok_def)
  have up: "set_up s" using attained_set_up [OF assms(3)] assms(4) by simp
  have first: "prompt_call E s" and rest: "prompt_run D E (map Stack_poll nows) (snd (serve D E (Stack_shutdown why) r))"
    using assms(2,4) by simp_all
  from plain_call_run [OF r assms(4) shutdown_nearly [OF up attained_inv [OF assms(1,3,4)] first order_refl, of why]]
  obtain s' where s': "res_inner (snd (serve D E (Stack_shutdown why) r)) = Some s'" "nearly (load s) s'"
    by (auto simp: nif_stack_shutdown_def nif_def answered_def catch_operation_def split: prod.splits)
  have "attained D E (snd (serve D E (Stack_shutdown why) r))" by (rule attained_serve [OF assms(3)]) (simp add: admissible_def)
  from polls_complete [OF assms(1) this s' assms(5,6) rest] show ?thesis by simp
qed

text \<open>C5: a shutdown completes. Asked to shut down in any state, a stack that is then polled as often
  as its load reaches \<open>Shutdown\<close>, however much or little more a single call gets done, if the engine
  does not panic, the times given to the polls are in range, and in each of these calls the first three
  checkpoints come before the call's work budget has passed; nothing is assumed about the time between
  the calls. The load counts the structures and notifications there are to clear, an open socket three
  times: for its entry and its two possible notifications.\<close>

theorem shutdown_completes:
  assumes "engine_ok E" and "prompt_run D E (Stack_shutdown why # map Stack_poll nows) r" and "attained D E r" and "res_inner r = Some s"
    and "load s \<le> length nows" and "list_all in_time nows"
  shows "\<exists>s'. res_inner (serve_all D E (Stack_shutdown why # map Stack_poll nows) r) = Some s' \<and> st_lifecycle s' = Shutdown"
  using assms by (rule shutdown_reaches)

lemma open_prompt: "prompt_run D idle_engine qs r"
proof (induction qs arbitrary: r)
  case (Cons q qs)
  have "prompt_call idle_engine s" for s by (simp add: prompt_call_def idle_engine_def WORK_BUDGET_def Let_def)
  then show ?case using Cons by (simp split: option.splits)
qed simp

lemma now_in_time: "in_time 0"
  by (simp add: in_time_def instant_from_millis_def i64_checked_def i64_min_def i64_max_def)

definition closed_resource :: StackResource where
  "closed_resource = serve_all sample_terms idle_engine (Stack_shutdown StackDown # map Stack_poll (replicate (load open_stack) 0)) open_resource"

lemma attained_serve_all: "attained D E r \<Longrightarrow> list_all (admissible D E) qs \<Longrightarrow> attained D E (serve_all D E qs r)"
  by (induction qs arbitrary: r) (auto intro: attained_serve)

lemma closed_attained: "attained sample_terms idle_engine closed_resource"
  unfolding closed_resource_def by (rule attained_serve_all [OF open_attained]) (auto simp: list_all_iff admissible_def)

lemma closed_shutdown: "\<exists>s'. res_inner closed_resource = Some s' \<and> st_lifecycle s' = Shutdown"
  unfolding closed_resource_def
  by (rule shutdown_reaches [OF idle_engine_ok open_prompt open_attained open_inner]) (simp_all add: list_all_length now_in_time)

theorem shutdown_completes_witness:
  "length (udp_records open_stack) = 1 \<and> (\<exists>s'. res_inner closed_resource = Some s' \<and> st_lifecycle s' = Shutdown)"
  using shutdown_completes [OF idle_engine_ok open_prompt open_attained open_inner, of "replicate (load open_stack) 0" StackDown] now_in_time
    open_records
  by (simp add: closed_resource_def list_all_length)

text \<open>C6: a stack that reports \<open>Shutdown\<close> has released everything: no socket is open or closing, no
  record, listener, connection or packet is left, every native socket and with it every buffer has
  been freed, and no waiter is still owed a notification.\<close>

theorem shutdown_releases_everything:
  assumes "engine_ok E" and "attained D E r" and "res_inner r = Some s" and "st_lifecycle s = Shutdown"
  shows "entries (socket_table s) = [] \<and> tcp_records s = [] \<and> tcp_listeners s = [] \<and> udp_records s = [] \<and> tcp_connections s = [] \<and>
    closing_tcp s = [] \<and> receive (dev s) = [] \<and> transmit (dev s) = [] \<and> dom (ss_get (socket_set s)) = {} \<and>
    pending_notifications s = []"
proof -
  have none: "\<not> shutdown_pending s" using attained_gone [OF assms(2,3)] assms(4) by (simp add: gone_def)
  have "live_tcp (socket_set s) = {#}" "live_udp (socket_set s) = {#}"
    using invD(1) [OF attained_inv [OF assms(1-3)]] none
    by (auto simp: own_at_def owned_tcp_def owned_udp_def shutdown_pending_def shutdown_structures_pending_def)
  then have "dom (ss_get (socket_set s)) = {}" by (simp add: dom_live live_tcp_def live_udp_def mset_set_empty_iff)
  then show ?thesis
    using none by (auto simp: shutdown_pending_def shutdown_structures_pending_def readiness_remains_def table_len_def queued_packets_def)
qed

theorem shutdown_releases_everything_witness:
  "\<exists>s. res_inner closed_resource = Some s \<and> st_lifecycle s = Shutdown \<and> dom (ss_get (socket_set s)) = {} \<and> udp_records s = []"
  using closed_shutdown shutdown_releases_everything [OF idle_engine_ok closed_attained] by blast

end
