(* ===== verification/Call_Bounds.thy ===== *)
theory Call_Bounds
  imports Stack_Frame
begin

text \<open>
  The work of one call. \<open>gives l P m\<close> says that, under the limits \<open>l\<close>, a value \<open>m\<close> returns satisfies
  \<open>P\<close>; the limits never change, so the bounds of the parts of a drive add up to bounds of the drive.
\<close>

section \<open>Returned values\<close>

definition gives :: "Limits \<Rightarrow> ('a \<Rightarrow> bool) \<Rightarrow> (NativeStack, 'e, 'a) prog \<Rightarrow> bool" where
  "gives l P m \<longleftrightarrow> (\<forall>s x s'. limits s = l \<longrightarrow> m s = (Inr x, s') \<longrightarrow> P x)"

lemma limits_frame: "frames fixed m \<Longrightarrow> m s = (v, s') \<Longrightarrow> limits s' = limits s"
  using framesD [of fixed m s v s'] by (simp add: fixed_def config_def)

named_theorems gives_intros

lemma gives_ret: "P x \<Longrightarrow> gives l P (ret x)"
  by (simp add: gives_def ret_def)

lemma gives_raise [gives_intros]: "gives l P (raise f)"
  by (simp add: gives_def raise_def)

lemma gives_bnd:
  assumes "frames fixed m" and "gives l Q m" and "\<And>x. Q x \<Longrightarrow> gives l P (k x)"
  shows "gives l P (bnd m k)"
  unfolding gives_def
proof (intro allI impI)
  fix s x s' assume s: "limits s = l" and run: "bnd m k s = (Inr x, s')"
  then obtain y s1 where m: "m s = (Inr y, s1)" and k: "k y s1 = (Inr x, s')"
    by (auto simp: bnd_def split: prod.splits sum.splits)
  have "Q y" using assms(2) s m by (auto simp: gives_def)
  then show "P x" using assms(3) limits_frame [OF assms(1) m] s k by (auto simp: gives_def)
qed

lemma gives_any: "gives l (\<lambda>_. True) m"
  by (simp add: gives_def)

lemma gives_then: "frames fixed m \<Longrightarrow> (\<And>x. gives l P (k x)) \<Longrightarrow> gives l P (bnd m k)"
  by (rule gives_bnd [OF _ gives_any])

lemma gives_state: "(\<And>s. limits s = l \<Longrightarrow> gives l P (k (g s))) \<Longrightarrow> gives l P (bnd (gets g) k)"
  by (simp add: gives_def bnd_def gets_def)

lemma gives_mono: "gives l Q m \<Longrightarrow> (\<And>x. Q x \<Longrightarrow> P x) \<Longrightarrow> gives l P m"
  by (auto simp: gives_def)

lemma gives_if: "(c \<Longrightarrow> gives l P m) \<Longrightarrow> (\<not> c \<Longrightarrow> gives l P n) \<Longrightarrow> gives l P (if c then m else n)"
  by simp

section \<open>The parts of a drive\<close>

lemma take_output_gives: "gives l (\<lambda>ps. length ps \<le> p \<and> queue_bytes ps \<le> b) (take_output E p b)"
  using take_transmit_spec(2,3) [of "e_clock E" p b] by (auto simp: gives_def take_output_def act_def split: prod.splits)

lemma refresh_loop_gives: "gives l (\<lambda>(w, _). w \<le> w0 + length ks) (refresh_loop E ks w0 processed :: (NativeStack, 'e, nat \<times> ListenerMemberKey option \<times> bool) prog)"
proof (induction ks arbitrary: w0 processed)
  case (Cons k ks)
  have "gives l (\<lambda>(w, _). w \<le> w0 + length (k # ks)) (refresh_loop E ks (w0 + 1) (Some k) :: (NativeStack, 'e, nat \<times> ListenerMemberKey option \<times> bool) prog)"
    by (rule gives_mono [OF Cons.IH]) auto
  then show ?case by (auto intro!: gives_then gives_if gives_ret frame_intros)
qed (simp add: gives_ret)

lemma refresh_listeners_gives: "gives l (\<lambda>(w, _). w \<le> n) (refresh_listeners E n)"
  unfolding refresh_listeners_def Let_def
  by (intro gives_state gives_if gives_then gives_ret frame_intros gives_bnd [OF _ refresh_loop_gives])
    (auto intro!: gives_then gives_if gives_ret frame_intros)

lemma reap_loop_gives: "gives l (\<lambda>(w, _). w \<le> w0 + length ks) (reap_loop E now ks w0 processed :: (NativeStack, 'e, nat \<times> nat option \<times> bool) prog)"
proof (induction ks arbitrary: w0 processed)
  case (Cons k ks)
  have "gives l (\<lambda>(w, _). w \<le> w0 + length (k # ks)) (reap_loop E now ks (w0 + 1) (Some k) :: (NativeStack, 'e, nat \<times> nat option \<times> bool) prog)"
    by (rule gives_mono [OF Cons.IH]) auto
  then show ?case by (auto intro!: gives_then gives_if gives_ret frame_intros)
qed (simp add: gives_ret)

lemma reap_closing_gives: "gives l (\<lambda>(w, _). w \<le> n) (reap_closing_tcp E now n)"
  unfolding reap_closing_tcp_def Let_def
  by (intro gives_state gives_if gives_then gives_ret frame_intros gives_bnd [OF _ reap_loop_gives])
    (auto intro!: gives_then gives_if gives_ret frame_intros)

lemma egress_loop_gives: "gives l (\<lambda>(w, _). w \<le> w0 + n) (egress_loop E now n w0 a r :: (NativeStack, 'e, nat \<times> bool \<times> bool \<times> bool) prog)"
proof (induction n arbitrary: w0 a r)
  case (Suc n)
  have "gives l (\<lambda>(w, _). w \<le> w0 + Suc n) (egress_loop E now n (w0 + 1) True True :: (NativeStack, 'e, nat \<times> bool \<times> bool \<times> bool) prog)"
    by (rule gives_mono [OF Suc.IH]) auto
  then show ?case by (auto intro!: gives_then gives_if gives_ret frame_intros)
qed (simp add: gives_ret)

lemma first_cleanup_gives: "gives l (\<lambda>(w, _). w \<le> maintenance_work l) (first_cleanup E now)"
  unfolding first_cleanup_def
  by (intro gives_state gives_if gives_ret) (auto intro!: gives_mono [OF reap_closing_gives])

lemma first_refresh_gives: "gives l (\<lambda>(w, _). w \<le> n) (first_refresh E n)"
  unfolding first_refresh_def
  by (intro gives_state gives_if gives_ret) (auto intro!: gives_mono [OF refresh_listeners_gives] split: if_splits)

lemma last_cleanup_gives: "gives l (\<lambda>(w, _). w \<le> n) (last_cleanup E now c n)"
  unfolding last_cleanup_def
  by (intro gives_state gives_if gives_ret) (auto intro!: gives_mono [OF reap_closing_gives])

lemma last_refresh_gives: "gives l (\<lambda>(w, _). w \<le> n) (last_refresh E c n)"
  unfolding last_refresh_def
  by (intro gives_state gives_if gives_ret) (auto intro!: gives_mono [OF refresh_listeners_gives])

lemmas drive_parts = gives_bnd [OF _ first_cleanup_gives] gives_bnd [OF _ first_refresh_gives] gives_bnd [OF _ egress_loop_gives]
  gives_bnd [OF _ take_output_gives] gives_bnd [OF _ last_cleanup_gives] gives_bnd [OF _ last_refresh_gives] gives_then

lemma drive_maintenance_gives:
  assumes "length out \<le> output_packets l" and "queue_bytes out \<le> bytes_copied l"
  shows "gives l (\<lambda>(w, ps, _). w \<le> maintenance_work l \<and> length ps \<le> output_packets l \<and> queue_bytes ps \<le> bytes_copied l)
    (drive_maintenance E now out)"
  unfolding drive_maintenance_def Let_def
  by (rule gives_state)
    ((rule drive_parts, (auto intro!: frame_intros)[1], (simp only: split_paired_all prod.case)?)+, rule gives_ret, use assms in auto)

lemma gives_limits: "gives l P (k l) \<Longrightarrow> gives l P (bnd (gets limits) k)"
  by (simp add: gives_def bnd_def gets_def)

definition within_call :: "Limits \<Rightarrow> Effects \<Rightarrow> bool" where
  "within_call l eff \<longleftrightarrow> length (eff_output eff) \<le> output_packets l \<and> queue_bytes (eff_output eff) \<le> bytes_copied l \<and>
     eff_maintenance_work eff \<le> maintenance_work l"

lemma drive_batch_gives: "gives l (within_call l) (drive_batch E now batch copied)"
  unfolding drive_batch_def Let_def
  apply (rule gives_then, (auto intro!: frame_intros)[1])
  apply (rule gives_limits)
  apply (rule gives_bnd [OF _ take_output_gives], intro frame_intros)
  apply (rule gives_then, intro frame_intros, simp only: split_paired_all prod.case)
  apply (rule gives_then, intro frame_intros)
  apply (rule gives_then, intro frame_intros)
  apply (rule gives_then, (auto intro!: frame_intros split: option.splits)[1])
  apply (rule gives_bnd [OF _ drive_maintenance_gives], intro frame_intros, simp, simp, simp only: split_paired_all prod.case)
  apply (rule gives_then, (auto intro!: frame_intros)[1])+
  by (auto intro!: gives_ret simp: within_call_def)

section \<open>Notifications\<close>

text \<open>\<open>posted l N w s\<close>: since the outbox had \<open>N\<close> messages, \<open>w\<close> units of readiness work were done.\<close>

definition posted :: "Limits \<Rightarrow> nat \<Rightarrow> nat \<Rightarrow> NativeStack \<Rightarrow> bool" where
  "posted l N w s \<longleftrightarrow> limits s = l \<and> table_wf (socket_table s) \<and> length (outbox s) \<le> N + w"

lemma posted_frame [simp]:
  "posted l N w (s\<lparr>call_budget := m\<rparr>) = posted l N w s" "posted l N w (s\<lparr>pending_notifications := ns\<rparr>) = posted l N w s"
  "posted l N w (s\<lparr>ready_sweep_pending := ks\<rparr>) = posted l N w s" "posted l N w (s\<lparr>ready := q\<rparr>) = posted l N w s"
  "posted l N w (s\<lparr>counters := c\<rparr>) = posted l N w s" "posted l N w (s\<lparr>scheduled_poll_at := p\<rparr>) = posted l N w s"
  "posted l N w (charge_now E s) = posted l N w s" "posted l N w (start_sweep s) = posted l N w s"
  "posted l N w (after_scan scan s) = posted l N w s"
  by (auto simp: posted_def charge_now_def start_sweep_def after_scan_def Let_def split: prod.splits)

lemma posted_abort: "posted l N w s \<Longrightarrow> posted l N (Suc w) (send_abort E n s)"
  by (simp add: posted_def send_abort_def send_message_def observe_notification_def Let_def)

lemma posted_deliver: "posted l N w s \<Longrightarrow> posted l N (Suc w) (deliver_or_discard_ready E k s)"
  by (auto simp: posted_def send_message_def observe_notification_def deliver_or_discard_ready_def deliver_ready_def drop_readiness_def Let_def
      intro: table_wf_take_ready table_wf_remember_sent split: prod.splits ReadyResult.splits)

lemma posted_mono: "posted l N w s \<Longrightarrow> w \<le> w' \<Longrightarrow> posted l N w' s"
  by (simp add: posted_def)

lemma wp_charge: "(\<And>x m. Q x (s\<lparr>call_budget := m\<rparr>)) \<Longrightarrow> (\<And>x. Q x s) \<Longrightarrow> wp (charge_chunk E u f) Q F s"
  by (simp add: charge_chunk_def wp_simps charge_now_def Let_def case_prod_beta)

lemma abort_loop_posted:
  "posted l N w s \<Longrightarrow> wp (abort_loop E n w u) (\<lambda>x s'. posted l N (fst x) s' \<and> fst x \<le> w + n) F s"
proof (induction n arbitrary: w u s)
  case (Suc n)
  then show ?case
    by (auto simp: wp_simps within_budget_def intro!: wp_charge wp_mono [OF Suc.IH] posted_abort split: list.splits prod.splits)
qed (simp add: wp_simps)

lemma queued_loop_posted:
  "posted l N w s \<Longrightarrow> wp (queued_loop E ks w u) (\<lambda>x s'. posted l N (fst x) s' \<and> fst x \<le> w + length ks) F s"
proof (induction ks arbitrary: w u s)
  case (Cons k ks)
  then show ?case
    by (auto simp: wp_simps within_budget_def intro!: wp_charge wp_mono [OF Cons.IH] posted_deliver split: prod.splits)
qed (simp add: wp_simps)

lemma pending_loop_posted:
  "posted l N w s \<Longrightarrow> wp (pending_loop E n w u) (\<lambda>x s'. posted l N (fst x) s' \<and> fst x \<le> w + n) F s"
proof (induction n arbitrary: w u s)
  case (Suc n)
  then show ?case
    by (auto simp: wp_simps within_budget_def intro!: wp_charge wp_mono [OF Suc.IH] posted_deliver split: list.splits prod.splits)
qed (simp add: wp_simps)

lemma scan_keys_loop_posted:
  "posted l N w s \<Longrightarrow> wp (scan_keys_loop E ks u) (\<lambda>_. posted l N (w + length ks)) F s"
proof (induction ks arbitrary: w u s)
  case (Cons k ks)
  have later: "wp (scan_keys_loop E ks u') (\<lambda>_. posted l N (Suc (w + length ks))) F s'" if "posted l N (Suc w) s'" for u' s'
    using Cons.IH [OF that] by simp
  have "posted l N (Suc w) s" using Cons.prems by (rule posted_mono) simp
  then show ?case
    using Cons.prems
    by (auto simp: wp_simps within_budget_def intro!: wp_charge later posted_deliver split: prod.splits)
qed (simp add: wp_simps)

lemma scan_ready_bounds:
  assumes "table_wf t" and "scan_ready clock cur el kl m t = (sc, m')"
  shows "length (scan_keys sc) \<le> kl \<and> entries_scanned sc \<le> el"
proof (cases "el = 0 \<or> kl = 0")
  case True
  then show ?thesis using assms(2) by (auto simp: scan_ready_def Let_def)
next
  case False
  then show ?thesis
    using scan_loop_sound [OF _ scan_range_props(1,2) [OF assms(1)]] assms(2) by (fastforce simp: scan_ready_def Let_def)
qed

lemma sweep_step_posted:
  assumes "posted l N w s" and "w \<le> ready_events l"
  shows "wp (sweep_step E w u) (\<lambda>x s'. posted l N (fst x) s' \<and> fst x \<le> ready_events l) F s"
proof (cases "ready_sweep s \<and> ready_sweep_pending s = [] \<and> w < ready_events (limits s)")
  case True
  let ?n = "ready_events (limits s) - w"
  obtain sc m where scan: "scan_ready (e_clock E) (ready_sweep_cursor s) ?n ?n (call_budget s) (socket_table s) = (sc, m)"
    by (rule prod.exhaust)
  have l: "limits s = l" using assms(1) by (simp add: posted_def)
  have b: "length (scan_keys sc) \<le> ?n \<and> entries_scanned sc \<le> ?n"
    using scan_ready_bounds [OF _ scan] assms(1) by (simp add: posted_def)
  have "wp (scan_keys_loop E (scan_keys sc) u) (\<lambda>u'. wp (bnd (modify (after_scan sc)) (\<lambda>_.
       ret (w + max (entries_scanned sc) (length (scan_keys sc)), u')))
       (\<lambda>x s'. posted l N (fst x) s' \<and> fst x \<le> ready_events l) F) F (s\<lparr>call_budget := m\<rparr>)"
    by (rule wp_mono [OF scan_keys_loop_posted [of l N w]])
      (use assms b True in \<open>auto simp: wp_simps l elim!: posted_mono\<close>)
  then show ?thesis using True by (simp add: sweep_step_def wp_simps run_scan_def scan)
qed (use assms in \<open>auto simp: sweep_step_def wp_simps\<close>)

lemma drain_ready_posted:
  assumes "posted l N w s"
  shows "wp (drain_ready E n) (\<lambda>ks s'. posted l N w s' \<and> length ks \<le> n) F s"
proof -
  obtain ks q m where run: "drain_while (e_clock E) n (call_budget s) (ready s) = (ks, q, m)" by (metis surj_pair)
  show ?thesis using assms drain_while_spec(1) [OF run] by (simp add: drain_ready_def wp_simps run)
qed

lemma finish_call_posted:
  assumes "table_wf (socket_table s)"
  shows "wp (finish_call E res eff aborts :: (NativeStack, 'e, 'a Envelope) prog)
    (\<lambda>_. posted (limits s) (length (outbox s)) (ready_events (limits s))) (\<lambda>_ _. True) s"
proof -
  let ?P = "posted (limits s) (length (outbox s))" and ?l = "ready_events (limits s)"
  let ?F = "(\<lambda>_ _. True) :: 'e fault \<Rightarrow> NativeStack \<Rightarrow> bool"
  have start: "?P 0 (s\<lparr>pending_notifications := pending_notifications s @ aborts\<rparr>)" using assms by (simp add: posted_def)
  show ?thesis
    unfolding finish_call_def wp_bnd wp_modify wp_gets wp_ret
    apply (rule wp_mono [OF abort_loop_posted [OF start]], clarsimp simp: case_prod_beta wp_bnd wp_modify wp_gets wp_ret)
     apply (rule wp_mono [OF drain_ready_posted], simp, clarsimp simp: case_prod_beta)
      apply (rule wp_mono [OF queued_loop_posted], simp, clarsimp simp: case_prod_beta)
       apply (rule wp_mono [OF pending_loop_posted], simp, clarsimp simp: case_prod_beta)
        apply (rule wp_mono [OF sweep_step_posted], simp, simp, clarsimp simp: case_prod_beta)
         apply (rule wp_charge)
    by (auto split: option.splits elim: posted_mono)
qed

end
