(* ===== verification/Call_Results.thy ===== *)
theory Call_Results
  imports Call_Bounds Service
begin

text \<open>
  What calls return and what they may cost: the batch check of \<open>ingress_batch\<close>, the datagrams of a
  connected UDP socket, the work and output of one call, its notifications, and the steps of a
  shutdown. The samples of the theory \<open>Service\<close> show that the hypotheses can hold.
\<close>

section \<open>Batches\<close>

definition packet_error :: "NativeStack \<Rightarrow> bytes \<Rightarrow> StackError option" where
  "packet_error s p = (if p = [] then Some InvalidPacket
     else case validate_raw_packet p (mtu s) (bytes_copied (limits s)) of Inl e \<Rightarrow> Some e | Inr _ \<Rightarrow> None)"

lemma validate_packet_cases:
  "validate_packet p s = (case packet_error s p of Some e \<Rightarrow> (Inl (Err e), reject_packet s) | None \<Rightarrow> (Inr (), s))"
  by (auto simp: validate_packet_def packet_error_def bnd_def modify_def raise_def gets_def ret_def split: sum.splits)

lemma validate_batch_bad:
  assumes "packet_error s bad = Some e"
  shows "list_all (\<lambda>p. packet_error s p = None) oks \<Longrightarrow> n + sum_list (map length oks) \<le> bytes_copied (limits s) \<Longrightarrow>
    bytes_copied (limits s) \<le> usize_max \<Longrightarrow> validate_batch (oks @ bad # rest) n s = (Inl (Err e), reject_packet s)"
proof (induction oks arbitrary: n)
  case Nil
  then show ?case using assms by (simp add: bnd_def validate_packet_cases)
next
  case (Cons p oks)
  then show ?case by (simp add: bnd_def validate_packet_cases gets_def checked_add_def)
qed

text \<open>C12: a batch of packets is taken whole or not at all. If, on a running stack and in a batch within
  the limits on packets and, up to that point, on bytes, one of them is not a packet the stack accepts, the call fails with that packet's error and, apart from counting the rejection, changes
  nothing: no packet of the batch before or after it is queued or seen by the engine.\<close>

theorem ingress_rejects_whole_batch:
  assumes "st_lifecycle s = Running" and "length (oks @ bad # rest) \<le> input_packets (limits s)"
    and "list_all (\<lambda>p. packet_error s p = None) oks" and "packet_error s bad = Some e"
    and "sum_list (map length oks) \<le> bytes_copied (limits s)" and "limits_valid (limits s)"
  shows "ingress_batch E (oks @ bad # rest) now s = (Inl (Err e), reject_packet s)"
proof -
  have "bytes_copied (limits s) \<le> usize_max" using assms(6) by (simp add: limits_valid_def MAX_BYTES_COPIED_def usize_max_def)
  from validate_batch_bad [OF assms(4,3) _ this, of 0 rest] assms(1,2,5) show ?thesis
    by (simp add: ingress_batch_def bnd_def gets_def)
qed

theorem ingress_rejects_whole_batch_witness:
  "ingress_batch idle_engine [[], [96, 0]] 0 sample_stack = (Inl (Err InvalidPacket), reject_packet sample_stack)"
  using ingress_rejects_whole_batch [of sample_stack "[]" "[]" "[[96, 0]]" InvalidPacket idle_engine 0]
  by (simp add: sample_fields packet_error_def sample_limits_def limits_valid_def MAX_BYTES_COPIED_def MAX_INPUT_PACKETS_def
      MAX_OUTPUT_PACKETS_def MAX_READY_EVENTS_def MAX_MAINTENANCE_WORK_def MAX_SOCKETS_def)

section \<open>Datagrams\<close>

text \<open>The value of a call is the one given to \<open>finish_call\<close>.\<close>

lemma finish_call_result: "gives l (\<lambda>v. env_result v = res) (finish_call E res eff aborts)"
  unfolding finish_call_def
  by ((rule gives_then, (auto intro!: frame_intros split: option.splits)[1], (simp only: split_paired_all prod.case)?)+) (simp add: gives_ret)

text \<open>The datagrams waiting in a native socket, and those among them a socket accepts: of its family and,
  if it is connected, from its peer.\<close>

definition waiting_datagrams :: "NativeStack \<Rightarrow> SocketHandle \<Rightarrow> (UdpMetadata \<times> bytes) list" where
  "waiting_datagrams s h = (case ss_get_udp (socket_set s) h of None \<Rightarrow> [] | Some sk \<Rightarrow> pb_packets (u_rx_buffer sk))"

definition acceptable :: "UdpRecord \<Rightarrow> UdpMetadata \<Rightarrow> bool" where
  "acceptable r m \<longleftrightarrow> family_matches (ur_family r) (ip_addr (um_endpoint m)) \<and>
     (case um_local_address m of
        Some a \<Rightarrow> family_matches (ur_family r) a
      | None \<Rightarrow> (case ur_local r of None \<Rightarrow> False | Some loc \<Rightarrow> family_matches (ur_family r) (ve_address loc))) \<and>
     (case peer r of None \<Rightarrow> True | Some pr \<Rightarrow> um_endpoint m = ip_endpoint pr)"

lemma accept_datagram_iff: "ur_local r = Some loc \<Longrightarrow> accept_datagram r loc len m payload \<noteq> None \<longleftrightarrow> acceptable r m"
  by (auto simp: accept_datagram_def acceptable_def Let_def split: option.splits)

text \<open>From the stack \<open>s0\<close> to the stack \<open>s\<close> only datagrams that are not acceptable have been taken.\<close>

definition inspected :: "UdpRecord \<Rightarrow> NativeStack \<Rightarrow> NativeStack \<Rightarrow> bool" where
  "inspected r s0 s \<longleftrightarrow> sockets_wf (socket_set s) \<and>
     (\<forall>h. \<exists>q. waiting_datagrams s0 h = q @ waiting_datagrams s h \<and> list_all (\<lambda>(m, _). \<not> acceptable r m) q)"

text \<open>A result made from the oldest acceptable datagram of one of the sockets.\<close>

definition found :: "UdpRecord \<Rightarrow> ValidatedEndpoint \<Rightarrow> nat \<Rightarrow> NativeStack \<Rightarrow> SocketHandle list \<Rightarrow> Datagram \<Rightarrow> bool" where
  "found r loc len s0 hs x \<longleftrightarrow> (\<exists>h skipped m payload later. h \<in> set hs \<and> waiting_datagrams s0 h = skipped @ (m, payload) # later \<and>
     list_all (\<lambda>(m, _). \<not> acceptable r m) skipped \<and> accept_datagram r loc len m payload = Some x)"

lemma u_recv_waiting:
  assumes "native_wf (NUdp sk)" and "u_recv sk = (res, sk')"
  shows "native_wf (NUdp sk')" and
    "case pb_packets (u_rx_buffer sk) of [] \<Rightarrow> res = Inl (Err ()) \<and> pb_packets (u_rx_buffer sk') = []
       | x # xs \<Rightarrow> res = Inr x \<and> pb_packets (u_rx_buffer sk') = xs"
proof -
  obtain b where d: "pb_dequeue (u_rx_buffer sk) = (res, b)" and sk': "sk' = sk\<lparr>u_rx_buffer := b\<rparr>"
    using assms(2) by (auto simp: u_recv_def split: prod.splits)
  have "pb_wf (u_rx_buffer sk)" using assms(1) by (simp add: native_wf.simps)
  from pb_dequeue_spec [OF this d] show "case pb_packets (u_rx_buffer sk) of [] \<Rightarrow> res = Inl (Err ()) \<and> pb_packets (u_rx_buffer sk') = []
       | x # xs \<Rightarrow> res = Inr x \<and> pb_packets (u_rx_buffer sk') = xs"
    by (cases "pb_packets (u_rx_buffer sk)") (simp_all add: sk')
  show "native_wf (NUdp sk')" using keeps_udp_recv assms unfolding keeps_udp_def by (metis snd_conv)
qed

lemma waiting_datagrams_put:
  "ss_get_udp (socket_set s) h = Some sk \<Longrightarrow>
     waiting_datagrams (s\<lparr>socket_set := ss_put h (NUdp sk') (socket_set s)\<rparr>) k = (if k = h then pb_packets (u_rx_buffer sk') else waiting_datagrams s k)"
  by (simp add: waiting_datagrams_def ss_get_udp_def ss_get_put split: option.splits NativeSocket.splits)

lemma inspected_next:
  assumes "inspected r s0 s" and "ss_get_udp (socket_set s) h = Some sk" and "native_wf (NUdp sk')"
    and "waiting_datagrams s h = q @ pb_packets (u_rx_buffer sk')" and "list_all (\<lambda>(m, _). \<not> acceptable r m) q"
  shows "inspected r s0 (s\<lparr>socket_set := ss_put h (NUdp sk') (socket_set s)\<rparr>)"
proof -
  have "\<exists>q. waiting_datagrams s0 k = q @ waiting_datagrams (s\<lparr>socket_set := ss_put h (NUdp sk') (socket_set s)\<rparr>) k \<and> list_all (\<lambda>(m, _). \<not> acceptable r m) q" for k
  proof -
    obtain q0 where q0: "waiting_datagrams s0 k = q0 @ waiting_datagrams s k" "list_all (\<lambda>(m, _). \<not> acceptable r m) q0"
      using assms(1) by (auto simp: inspected_def)
    then show ?thesis
      using assms(4,5) waiting_datagrams_put [OF assms(2), of sk' k] by (cases "k = h") (auto intro: exI [of _ "q0 @ q"] exI [of _ q0])
  qed
  moreover have "sockets_wf (ss_put h (NUdp sk') (socket_set s))"
    using sockets_wf_put [OF _ _ assms(3)] assms(1,2) by (simp add: inspected_def ss_get_udp_iff)
  ultimately show ?thesis by (simp add: inspected_def)
qed

lemma receive_from_finds:
  assumes loc: "ur_local r = Some loc"
  shows "inspected r s0 s \<Longrightarrow> wp (receive_from r loc len h n :: (Datagram option \<times> nat) op)
    (\<lambda>(d, _) s'. case d of None \<Rightarrow> inspected r s0 s' | Some x \<Rightarrow> found r loc len s0 [h] x) (\<lambda>_ _. True) s"
proof (induction n arbitrary: s)
  case (Suc n)
  show ?case
  proof (cases "ss_get_udp (socket_set s) h")
    case None
    then show ?thesis by (simp add: wp_simps on_udp_def put_socket_def wake_def)
  next
    case (Some sk)
    obtain res sk' where run: "u_recv sk = (res, sk')" by fastforce
    have wf: "native_wf (NUdp sk)" using Suc.prems Some by (auto simp: inspected_def sockets_wf_def ss_get_udp_iff)
    note take = u_recv_waiting [OF this run]
    have here: "waiting_datagrams s h = pb_packets (u_rx_buffer sk)" by (simp add: waiting_datagrams_def Some)
    let ?s = "s\<lparr>socket_set := ss_put h (NUdp sk') (socket_set s)\<rparr>"
    show ?thesis
    proof (cases "pb_packets (u_rx_buffer sk)")
      case Nil
      then have "inspected r s0 ?s" using inspected_next [OF Suc.prems Some take(1), of "[]"] take(2) here by simp
      then show ?thesis using take(2) Nil by (simp add: wp_simps on_udp_def put_socket_def wake_def Some run)
    next
      case (Cons d rest)
      obtain m payload where d: "d = (m, payload)" by (cases d)
      obtain q where q: "waiting_datagrams s0 h = q @ waiting_datagrams s h" "list_all (\<lambda>(m, _). \<not> acceptable r m) q"
        using Suc.prems by (auto simp: inspected_def)
      show ?thesis
      proof (cases "accept_datagram r loc len m payload")
        case None
        then have "\<not> acceptable r m" using accept_datagram_iff [OF loc] by blast
        then have "inspected r s0 ?s"
          using inspected_next [OF Suc.prems Some take(1), of "[d]"] take(2) here Cons by (simp add: d)
        from Suc.IH [OF this] show ?thesis using take(2) Cons None by (simp add: wp_simps on_udp_def put_socket_def wake_def Some run d)
      next
        case (Some x)
        then have "found r loc len s0 [h] x" using q here Cons by (auto simp: found_def d)
        then show ?thesis using take(2) Cons Some \<open>ss_get_udp (socket_set s) h = Some sk\<close> by (simp add: wp_simps on_udp_def put_socket_def wake_def run d)
      qed
    qed
  qed
qed (simp add: wp_simps)

lemma receive_loop_finds:
  assumes loc: "ur_local r = Some loc"
  shows "inspected r s0 s \<Longrightarrow> list_all (\<lambda>i. i < length (ur_handles r)) idxs \<Longrightarrow>
    wp (receive_loop r loc len cursor idxs n :: (Datagram option \<times> nat) op)
      (\<lambda>(d, _) _. case d of None \<Rightarrow> True | Some x \<Rightarrow> found r loc len s0 (ur_handles r) x) (\<lambda>_ _. True) s"
proof (induction idxs arbitrary: s n)
  case (Cons i idxs)
  have mono: "found r loc len s0 [ur_handles r ! i] x \<Longrightarrow> found r loc len s0 (ur_handles r) x" for x
    using Cons.prems(2) by (auto simp: found_def intro!: exI [of _ "ur_handles r ! i"])
  show ?case
    unfolding receive_loop.simps wp_bnd
    by (rule wp_mono [OF receive_from_finds [OF loc Cons.prems(1)]])
      (use Cons mono in \<open>auto simp: wp_simps split: option.splits if_splits\<close>)
qed (simp add: wp_simps)

text \<open>What \<open>udp_recvfrom\<close> does once the record \<open>r\<close> and its local endpoint are known.\<close>

definition receive_part ::
    "Env \<Rightarrow> SocketIdentity \<Rightarrow> nat \<Rightarrow> pid \<Rightarrow> reference \<Rightarrow> instant \<Rightarrow> UdpRecord \<Rightarrow> ValidatedEndpoint \<Rightarrow> Answer Envelope op" where
  "receive_part E i len p rf now r loc =
     (let count = length (ur_handles r); first = receive_cursor r mod count in
       bnd (if count = 0 then raise Panic else ret ()) (\<lambda>_.
       bnd (receive_loop r loc len first (map (\<lambda>offset. (first + offset) mod count) [0..<count]) PACKET_CAPACITY)
         (\<lambda>(received, cursor).
       bnd (udp_record_mut i (\<lambda>r. r\<lparr>receive_cursor := cursor\<rparr>)) (\<lambda>_.
       case received of
         Some (data, source, destination, truncated, copied) \<Rightarrow>
           bnd (expect (drive E now (Some copied))) (\<lambda>effects.
           finish_call E (A_datagram source destination data truncated) effects [])
       | None \<Rightarrow>
           bnd (any_udp u_can_recv (ur_handles r)) (\<lambda>immediately_ready.
           bnd (arm_udp_waiter i (ur_handles r) Read Recvfrom p rf immediately_ready) (\<lambda>_.
           bnd (expect (drive E now None)) (\<lambda>effects.
           finish_call E (A_select Recvfrom rf) effects [])))))))"

lemma udp_recvfrom_eq:
  "udp_recvfrom E i len p rf now =
     bnd (ask ensure_running) (\<lambda>_. bnd (ask (\<lambda>s. validate (socket_table s) i Udp)) (\<lambda>_.
     bnd (ask (\<lambda>s. has_waiter (socket_table s) i Udp Read)) (\<lambda>waiting.
     if waiting then raise (Err SE_Busy)
     else bnd (ask (udp_record i)) (\<lambda>r. bnd (liftr (ok_or SE_NotBound (ur_local r))) (receive_part E i len p rf now r)))))"
  unfolding udp_recvfrom_def receive_part_def [abs_def] Let_def by (rule refl)

lemma bnd_Inr: "bnd m k s = (Inr v, s') \<Longrightarrow> \<exists>x t. m s = (Inr x, t) \<and> k x t = (Inr v, s')"
  by (auto simp: bnd_def split: prod.splits sum.splits)

lemma receive_part_finds:
  assumes run: "receive_part E i len p rf now r loc s = (Inr v, s')" and loc: "ur_local r = Some loc" and wf: "sockets_wf (socket_set s)"
    and answer: "env_result v = A_datagram source destination data truncated"
  shows "\<exists>copied. found r loc len s (ur_handles r) (data, source, destination, truncated, copied)"
proof -
  let ?count = "length (ur_handles r)"
  let ?idxs = "map (\<lambda>offset. (receive_cursor r mod ?count + offset) mod ?count) [0..<?count]"
  let ?loop = "receive_loop r loc len (receive_cursor r mod ?count) ?idxs PACKET_CAPACITY :: (Datagram option \<times> nat) op"
  let ?tail = "\<lambda>(received, cursor). bnd (udp_record_mut i (\<lambda>r. r\<lparr>receive_cursor := cursor\<rparr>)) (\<lambda>_.
       case received of
         Some (data, source, destination, truncated, copied) \<Rightarrow>
           bnd (expect (drive E now (Some copied))) (\<lambda>effects.
           finish_call E (A_datagram source destination data truncated) effects [])
       | None \<Rightarrow>
           bnd (any_udp u_can_recv (ur_handles r)) (\<lambda>immediately_ready.
           bnd (arm_udp_waiter i (ur_handles r) Read Recvfrom p rf immediately_ready) (\<lambda>_.
           bnd (expect (drive E now None)) (\<lambda>effects.
           finish_call E (A_select Recvfrom rf) effects []))))"
  have "bnd ?loop ?tail s = (Inr v, s')"
    using run by (auto simp: receive_part_def Let_def bnd_def [of "if _ then _ else _"] raise_def ret_def split: if_splits)
  from bnd_Inr [OF this] obtain received cursor t where loop: "?loop s = (Inr (received, cursor), t)" and rest: "?tail (received, cursor) t = (Inr v, s')"
    by (metis surj_pair)
  have "list_all (\<lambda>i. i < ?count) ?idxs" by (auto simp: list_all_iff intro: mod_less_divisor)
  moreover have "inspected r s s" using wf by (auto simp: inspected_def)
  ultimately have finds: "case received of None \<Rightarrow> True | Some x \<Rightarrow> found r loc len s (ur_handles r) x"
    using receive_loop_finds [OF loc, of s s ?idxs len "receive_cursor r mod ?count" PACKET_CAPACITY] loop by (simp add: wp_def)
  have ends: "env_result v = res" if "(finish_call E res eff [] :: Answer Envelope op) t' = (Inr v, s')" for res eff t'
  proof -
    have "gives (limits t') (\<lambda>v. env_result v = res) (finish_call E res eff [] :: Answer Envelope op)" by (rule finish_call_result)
    then show ?thesis using that unfolding gives_def by blast
  qed
  have "\<exists>copied. received = Some (data, source, destination, truncated, copied)"
  proof (cases received)
    case None
    then obtain eff t' where "(finish_call E (A_select Recvfrom rf) eff [] :: Answer Envelope op) t' = (Inr v, s')" using rest by (auto dest!: bnd_Inr)
    from ends [OF this] show ?thesis using answer by simp
  next
    case (Some x)
    obtain data' source' destination' truncated' copied where x: "x = (data', source', destination', truncated', copied)" by (cases x)
    let ?res = "A_datagram source' destination' data' truncated'"
    obtain eff t' where "(finish_call E ?res eff [] :: Answer Envelope op) t' = (Inr v, s')" using rest by (auto dest!: bnd_Inr simp: Some x)
    from ends [OF this] show ?thesis using answer Some x by simp
  qed
  then show ?thesis using finds by auto
qed

text \<open>C16: a receive on a connected UDP socket returns the oldest acceptable datagram of one of its native
  sockets, where only one from exactly its peer's address and port is acceptable. The source
  reported is the one of the datagram, the data is the whole payload or its first \<open>len\<close> bytes if a length
  is asked for, and the datagram is reported truncated if and only if bytes of its payload were
  cut off.\<close>

theorem connected_udp_receives_from_peer:
  assumes "udp_recvfrom E i len p rf now s = (Inr v, s')" and "stack_inv s" and "udp_record i s = Inr r" and "peer r = Some pr"
    and "env_result v = A_datagram source destination data truncated"
  shows "\<exists>h skipped m payload later scope. h \<in> set (ur_handles r) \<and> waiting_datagrams s h = skipped @ (m, payload) # later \<and>
    list_all (\<lambda>(m, _). \<not> acceptable r m) skipped \<and> acceptable r m \<and> um_endpoint m = ip_endpoint pr \<and>
    source = EncodedEndpoint_new (ip_endpoint pr) scope \<and> data = (if len = 0 then payload else take len payload) \<and>
    (truncated \<longleftrightarrow> length data < length payload)"
proof -
  obtain loc where loc: "ur_local r = Some loc" and run: "receive_part E i len p rf now r loc s = (Inr v, s')"
    using assms(1,3)
    by (cases "ur_local r") (auto simp: udp_recvfrom_eq bnd_def ask_def liftr_def raise_def ok_or_def split: sum.splits if_splits)
  have "sockets_wf (socket_set s)" using assms(2) by (auto simp: stack_inv_def held_inv_def own_at_def)
  from receive_part_finds [OF run loc this assms(5)] obtain copied h skipped m payload later
    where *: "h \<in> set (ur_handles r)" "waiting_datagrams s h = skipped @ (m, payload) # later" "list_all (\<lambda>(m, _). \<not> acceptable r m) skipped"
      "accept_datagram r loc len m payload = Some (data, source, destination, truncated, copied)"
    unfolding found_def by blast
  then have "acceptable r m" using accept_datagram_iff [OF loc] by blast
  moreover have "um_endpoint m = ip_endpoint pr \<and> (\<exists>scope. source = EncodedEndpoint_new (ip_endpoint pr) scope) \<and>
      data = (if len = 0 then payload else take len payload) \<and> (truncated \<longleftrightarrow> length data < length payload)"
    using *(4) assms(4) by (auto simp: accept_datagram_def Let_def min_def split: if_splits)
  ultimately show ?thesis using *(1-3) by blast
qed

text \<open>A stack with one UDP socket, connected to a peer and with the state \<open>sk\<close>.\<close>

definition mail_peer :: ValidatedEndpoint where
  "mail_peer = \<lparr>ve_address = Ipv4 [10, 0, 0, 2], ve_port = 53, ve_scope_id = 0\<rparr>"

definition mail_record :: UdpRecord where
  "mail_record = \<lparr>ur_identity = SocketIdentity 0 9, ur_handles = [0], ur_family = Inet,
     ur_local = Some \<lparr>ve_address = Ipv4 [10, 0, 0, 1], ve_port = 40000, ve_scope_id = 0\<rparr>, peer = Some mail_peer, receive_cursor = 0\<rparr>"

definition mail_stack :: "UdpSocket \<Rightarrow> NativeStack" where
  "mail_stack sk = sample_stack\<lparr>socket_set := [Some (NUdp sk)], udp_records := [(0, mail_record)],
     socket_table := (SocketTable_new 2 4)\<lparr>entries := [(0, 9, SocketEntry_new Udp 0)]\<rparr>,
     id_counters := \<lparr>next_socket_id = 1, next_generation = 10\<rparr>\<rparr>"

text \<open>Its socket with one datagram of the peer waiting.\<close>

definition mail_socket :: UdpSocket where
  "mail_socket = udp_socket\<lparr>u_rx_buffer :=
     snd (pb_enqueue [1, 2, 3] \<lparr>um_endpoint = ip_endpoint mail_peer, um_local_address = None\<rparr> (u_rx_buffer udp_socket))\<rparr>"

lemma mail_wf: "native_wf (NUdp mail_socket)"
proof -
  let ?m = "\<lparr>um_endpoint = ip_endpoint mail_peer, um_local_address = None\<rparr>" and ?b = "u_rx_buffer udp_socket"
  have wf: "pb_wf ?b" "pb_size ?b = (PACKET_CAPACITY, PAYLOAD_BYTES)" using udp_socket_wf by (simp_all add: native_wf.simps)
  obtain ok b' where e: "pb_enqueue [1, 2, 3] ?m ?b = (ok, b')" by fastforce
  then show ?thesis using pb_enqueue_spec [OF wf(1) e] wf(2) udp_socket_wf by (simp add: mail_socket_def native_wf.simps)
qed

lemma mail_recv:
  "\<exists>sk. u_recv mail_socket = (Inr (\<lparr>um_endpoint = ip_endpoint mail_peer, um_local_address = None\<rparr>, [1, 2, 3]), sk) \<and> native_wf (NUdp sk)"
proof -
  let ?m = "\<lparr>um_endpoint = ip_endpoint mail_peer, um_local_address = None\<rparr>" and ?b = "u_rx_buffer udp_socket"
  have wf: "pb_wf ?b" "pb_size ?b = (PACKET_CAPACITY, PAYLOAD_BYTES)" using udp_socket_wf by (simp_all add: native_wf.simps)
  have b: "?b = PacketBuffer_new (replicate PACKET_CAPACITY (padding_meta 0)) (replicate PAYLOAD_BYTES 0)"
    by (simp add: udp_socket_def UdpSocket_new_def Let_def)
  have empty: "pb_packets ?b = []" unfolding b by (rule pb_new_spec)
  obtain ok b' where e: "pb_enqueue [1, 2, 3] ?m ?b = (ok, b')" by fastforce
  have "fst (pb_enqueue [1, 2, 3] ?m ?b)"
    by (rule pb_enqueue_accepts [OF wf(1)])
      (simp_all add: b PacketBuffer_new_def RingBuffer_new_def pb_is_full_def rb_is_full_def window_def capacity_def
        PACKET_CAPACITY_def PAYLOAD_BYTES_def)
  then have enq: "pb_wf b'" "pb_packets b' = [(?m, [1, 2, 3])]" using pb_enqueue_spec [OF wf(1) e] empty e by simp_all
  obtain r c where d: "pb_dequeue b' = (r, c)" by fastforce
  have "u_recv mail_socket = (Inr (?m, [1, 2, 3]), snd (u_recv mail_socket))"
    using pb_dequeue_spec [OF enq(1) d] enq(2) d e by (simp add: u_recv_def mail_socket_def)
  moreover have "native_wf (NUdp (snd (u_recv mail_socket)))" using keeps_udp_recv mail_wf unfolding keeps_udp_def by blast
  ultimately show ?thesis by metis
qed

lemma mail_inv:
  assumes "native_wf (NUdp sk)"
  shows "I0 (mail_stack sk)"
proof -
  have dev: "device_wf (dev sample_stack)"
    using attained_inv [OF idle_engine_ok sample_attained, of sample_stack] by (simp add: sample_resource_def held_inv_def)
  have get: "ss_get [Some (NUdp sk)] h = (if h = 0 then Some (NUdp sk) else None)" for h by (simp add: ss_get_def)
  have "live_tcp_set [Some (NUdp sk)] = {}" "live_udp_set [Some (NUdp sk)] = {0}"
    by (auto simp: live_tcp_set_def live_udp_set_def get split: if_splits)
  then have live: "live_tcp [Some (NUdp sk)] = {#}" "live_udp [Some (NUdp sk)] = {#0#}" by (simp_all add: live_tcp_def live_udp_def)
  have own: "own_at {#} {#} sample_limits [Some (NUdp sk)] [] [] [(0, mail_record)]"
    using assms live
    by (auto simp: own_at_def sockets_wf_def get owned_tcp_def owned_udp_def mail_record_def ss_count_def sample_limits_def
        native_bytes_def BUFFER_BYTES_def PAYLOAD_BYTES_def MAX_SOCKET_BUFFER_BYTES_def MAX_BUFFER_BYTES_def bt_ok_def bt_get_Cons udp_ok_def usize_max_def split: if_splits)
  show ?thesis
    using own dev
    by (auto simp: held_inv_def mail_stack_def sample_fields ids_at_def table_sig_def keep_at_def table_wf_def ids_def bt_ok_def
        SocketTable_new_def SocketEntry_new_def entry_waiter_count_def sample_limits_def keys_def bs_ok_def bt_get_Cons dom_def split: if_splits)
qed

lemma runs_gives: "runs I m \<Longrightarrow> gives (limits s) P m \<Longrightarrow> I s \<Longrightarrow> \<exists>x s'. m s = (Inr x, s') \<and> I s' \<and> P x"
proof -
  assume "runs I m" "gives (limits s) P m" "I s"
  then have "wp m (\<lambda>_. I) (\<lambda>_ _. False) s" "\<And>x s'. m s = (Inr x, s') \<Longrightarrow> P x" unfolding runs_def gives_def by blast+
  then show ?thesis by (cases "m s") (auto simp: wp_def split: sum.splits)
qed

lemma mail_fields:
  "udp_records (mail_stack k) = [(0, mail_record)]" "socket_set (mail_stack k) = [Some (NUdp k)]"
  "st_lifecycle (mail_stack k) = Running" "(mail_stack k)\<lparr>socket_set := [Some (NUdp k')]\<rparr> = mail_stack k'"
  "(mail_stack k)\<lparr>udp_records := [(0, mail_record)]\<rparr> = mail_stack k"
  "validate (socket_table (mail_stack k)) (SocketIdentity 0 9) Udp = Inr (SocketEntry_new Udp 0)"
  by (simp_all add: mail_stack_def sample_fields validate_def bt_get_Cons SocketEntry_new_def)

lemma mail_taken:
  assumes "u_recv mail_socket = (Inr (\<lparr>um_endpoint = ip_endpoint mail_peer, um_local_address = None\<rparr>, [1, 2, 3]), sk)"
    and "family_matches Inet (ve_address loc)"
  shows "(receive_loop mail_record loc 2 0 [0] (Suc n) :: (Datagram option \<times> nat) op) (mail_stack mail_socket) =
    (Inr (Some ([1, 2], EncodedEndpoint_new (ip_endpoint mail_peer) (ve_scope_id loc),
       EncodedEndpoint_new (ip_endpoint loc) (ve_scope_id loc), True, 2), 0), mail_stack sk)"
proof -
  have "(receive_from mail_record loc 2 0 (Suc n) :: (Datagram option \<times> nat) op) (mail_stack mail_socket) =
    (Inr (accept_datagram mail_record loc 2 \<lparr>um_endpoint = ip_endpoint mail_peer, um_local_address = None\<rparr> [1, 2, 3], n), mail_stack sk)"
    using assms
    by (simp add: on_udp_def get_udp_def put_socket_def wake_def bnd_def gets_def modify_def ret_def unwrap_def mail_fields
        ss_get_udp_def ss_get_def ss_put_def mail_record_def accept_datagram_def Let_def)
      (simp add: ip_endpoint_def mail_peer_def)
  moreover have "accept_datagram mail_record loc 2 \<lparr>um_endpoint = ip_endpoint mail_peer, um_local_address = None\<rparr> [1, 2, 3] =
    Some ([1, 2], EncodedEndpoint_new (ip_endpoint mail_peer) (ve_scope_id loc), EncodedEndpoint_new (ip_endpoint loc) (ve_scope_id loc), True, 2)"
    using assms(2) by (simp add: accept_datagram_def Let_def mail_record_def mail_peer_def ip_endpoint_def)
  moreover have "ur_handles mail_record = [0]" by (simp add: mail_record_def)
  ultimately show ?thesis by (simp add: bnd_def ret_def del: receive_from.simps) blast
qed

lemma mail_received:
  "\<exists>v s'. udp_recvfrom idle_engine (SocketIdentity 0 9) 2 p rf now (mail_stack mail_socket) = (Inr v, s') \<and>
     env_result v = A_datagram (EncodedEndpoint_new (ip_endpoint mail_peer) 0)
       (EncodedEndpoint_new \<lparr>ip_addr = Ipv4 [10, 0, 0, 1], ip_port = 40000\<rparr> 0) [1, 2] True"
proof -
  obtain sk where sk: "u_recv mail_socket = (Inr (\<lparr>um_endpoint = ip_endpoint mail_peer, um_local_address = None\<rparr>, [1, 2, 3]), sk)"
    "native_wf (NUdp sk)" using mail_recv by blast
  obtain eff s1 where drive: "drive idle_engine now (Some 2) (mail_stack sk) = (Inr eff, s1)" "I0 s1"
    using runs_gives [OF drive_runs [OF idle_engine_ok, of "{}" now "Some 2"], of "mail_stack sk" "\<lambda>_. True"] mail_inv [OF sk(2)]
    by (auto simp: gives_def)
  let ?loc = "\<lparr>ve_address = Ipv4 [10, 0, 0, 1], ve_port = 40000, ve_scope_id = 0\<rparr>"
  have taken: "(receive_loop mail_record ?loc 2 0 [0] PACKET_CAPACITY :: (Datagram option \<times> nat) op) (mail_stack mail_socket) =
    (Inr (Some ([1, 2], EncodedEndpoint_new (ip_endpoint mail_peer) 0,
       EncodedEndpoint_new \<lparr>ip_addr = Ipv4 [10, 0, 0, 1], ip_port = 40000\<rparr> 0, True, 2), 0), mail_stack sk)"
    using mail_taken [OF sk(1), of ?loc 15] by (simp add: PACKET_CAPACITY_def ip_endpoint_def del: receive_loop.simps)
  have marked: "udp_record_mut (SocketIdentity 0 9) (\<lambda>r. r\<lparr>receive_cursor := 0\<rparr>) (mail_stack sk) = (Inr (), mail_stack sk)"
    using mail_fields(5) [of sk] by (simp add: udp_record_mut_def udp_record_def bnd_def ask_def mail_fields modify_def bt_get_Cons mail_record_def)
  have parts: "ur_identity mail_record = SocketIdentity 0 9" "ur_local mail_record = Some ?loc" "ur_handles mail_record = [0]"
    "receive_cursor mail_record = 0" by (simp_all add: mail_record_def)
  let ?res = "A_datagram (EncodedEndpoint_new (ip_endpoint mail_peer) 0)
    (EncodedEndpoint_new \<lparr>ip_addr = Ipv4 [10, 0, 0, 1], ip_port = 40000\<rparr> 0) [1, 2] True"
  obtain v s' where "(finish_call idle_engine ?res eff [] :: Answer Envelope op) s1 = (Inr v, s')" "env_result v = ?res"
    using runs_gives [OF runs_finish finish_call_result drive(2), of idle_engine ?res eff "[]"] by blast
  then show ?thesis
    using drive(1)
    by (simp add: udp_recvfrom_eq receive_part_def bnd_def ask_def liftr_def mail_fields ensure_running_def has_waiter_def bind_res_def
        udp_record_def bt_get_Cons parts taken marked SocketEntry_new_def ok_or_def ret_def expect_def del: receive_loop.simps)
qed

theorem connected_udp_receives_from_peer_witness:
  "\<exists>v s' h skipped m payload later destination. udp_recvfrom idle_engine (SocketIdentity 0 9) 2 0 0 0 (mail_stack mail_socket) = (Inr v, s') \<and>
     env_result v = A_datagram (EncodedEndpoint_new (ip_endpoint mail_peer) 0) destination [1, 2] True \<and>
     waiting_datagrams (mail_stack mail_socket) h = skipped @ (m, payload) # later \<and> [1, 2] = take 2 payload \<and> 2 < length payload"
proof -
  have inv: "stack_inv (mail_stack mail_socket)" using mail_inv [OF mail_wf] by (simp add: stack_inv_def)
  have mail: "udp_record (SocketIdentity 0 9) (mail_stack mail_socket) = Inr mail_record" "peer mail_record = Some mail_peer"
    by (simp_all add: udp_record_def mail_fields bt_get_Cons mail_record_def)
  have known: "\<exists>h skipped m payload later. waiting_datagrams (mail_stack mail_socket) h = skipped @ (m, payload) # later \<and>
      data = take 2 payload \<and> (truncated \<longleftrightarrow> length data < length payload)"
    if "udp_recvfrom idle_engine (SocketIdentity 0 9) 2 0 0 0 (mail_stack mail_socket) = (Inr v, s')"
      "env_result v = A_datagram source destination data truncated" for v s' source destination data truncated
    using connected_udp_receives_from_peer [OF that(1) inv mail that(2)] by (simp split: if_splits) blast
  obtain v s' where run: "udp_recvfrom idle_engine (SocketIdentity 0 9) 2 0 0 0 (mail_stack mail_socket) = (Inr v, s')"
    "env_result v = A_datagram (EncodedEndpoint_new (ip_endpoint mail_peer) 0)
       (EncodedEndpoint_new \<lparr>ip_addr = Ipv4 [10, 0, 0, 1], ip_port = 40000\<rparr> 0) [1, 2] True"
    using mail_received by blast
  from known [OF this] show ?thesis using run by fastforce
qed

section \<open>The cost of a call\<close>

text \<open>C10: one call stays within the stack's limits. Whatever the engine does, driving it once hands the
  host at most \<open>output_packets\<close> packets of at most \<open>bytes_copied\<close> bytes in all and counts at most
  \<open>maintenance_work\<close> steps of maintenance.\<close>

theorem drive_within_limits:
  assumes "drive_batch E now batch copied s = (Inr eff, s')"
  shows "length (eff_output eff) \<le> output_packets (limits s) \<and> sum_list (map length (eff_output eff)) \<le> bytes_copied (limits s) \<and>
    eff_maintenance_work eff \<le> maintenance_work (limits s)"
  using drive_batch_gives [of "limits s" E now batch copied] assms unfolding gives_def within_call_def queue_bytes_def by blast

lemma mail_empty: "I0 (mail_stack udp_socket)" "limits (mail_stack udp_socket) = sample_limits" "outbox (mail_stack udp_socket) = []"
proof -
  show "I0 (mail_stack udp_socket)" by (rule mail_inv [OF udp_socket_wf])
  have "outbox sample_stack = []"
    by (simp add: sample_stack_def NativeStack_new_def sample_valid Let_def) (simp add: sample_config_def)
  then show "limits (mail_stack udp_socket) = sample_limits" "outbox (mail_stack udp_socket) = []"
    by (simp_all add: mail_stack_def sample_fields)
qed

theorem drive_within_limits_witness:
  "\<exists>eff s'. drive_batch idle_engine 0 [] None (mail_stack udp_socket) = (Inr eff, s') \<and>
     length (eff_output eff) \<le> 2 \<and> eff_maintenance_work eff \<le> 2"
proof -
  let ?s = "mail_stack udp_socket"
  obtain eff s' where run: "drive_batch idle_engine 0 [] None ?s = (Inr eff, s')"
    using runs_gives [OF drive_runs [OF idle_engine_ok, of "{}" 0 None], of ?s "\<lambda>_. True"] mail_empty(1)
    by (auto simp: gives_def drive_def)
  from run drive_within_limits [OF run] show ?thesis by (auto simp: mail_empty sample_limits_def)
qed

text \<open>C11: one call sends at most \<open>ready_events\<close> notifications, aborts included, however many sockets
  became ready; the rest waits for later calls.\<close>

theorem notifications_within_limits:
  assumes "table_wf (socket_table s)" and "(finish_call E res eff aborts :: (NativeStack, 'e, 'a Envelope) prog) s = (Inr v, s')"
  shows "length (outbox s') \<le> length (outbox s) + ready_events (limits s)"
proof -
  have "wp (finish_call E res eff aborts :: (NativeStack, 'e, 'a Envelope) prog)
      (\<lambda>_. posted (limits s) (length (outbox s)) (ready_events (limits s))) (\<lambda>_ _. True) s"
    by (rule finish_call_posted [OF assms(1)])
  then show ?thesis using assms(2) by (simp add: wp_def posted_def)
qed

theorem notifications_within_limits_witness:
  "\<exists>v s'. (finish_call idle_engine () Effects_empty (replicate 5 (pending_of (SocketIdentity 0 9) (Read, \<lparr>w_pid = 0, w_operation = Recvfrom, w_reference = 0\<rparr>)))
      :: unit Envelope op) (mail_stack udp_socket) = (Inr v, s') \<and> length (outbox s') \<le> 2"
proof -
  let ?s = "mail_stack udp_socket"
  let ?aborts = "replicate 5 (pending_of (SocketIdentity 0 9) (Read, \<lparr>w_pid = 0, w_operation = Recvfrom, w_reference = 0\<rparr>))"
  let ?finish = "finish_call idle_engine () Effects_empty ?aborts :: unit Envelope op"
  obtain v s' where run: "?finish ?s = (Inr v, s')"
    using runs_gives [OF runs_finish finish_call_result mail_empty(1), of idle_engine "()" Effects_empty ?aborts] by blast
  from run notifications_within_limits [OF inv_wf [OF mail_empty(1)] run] show ?thesis
    by (auto simp: mail_empty sample_limits_def)
qed

section \<open>Steps of a shutdown\<close>

text \<open>At most \<open>n\<close> steps of a shutdown, until one of them finds nothing to do.\<close>

fun shutdown_steps :: "nat \<Rightarrow> (NativeStack, 'e, bool) prog" where
  "shutdown_steps 0 = ret True"
| "shutdown_steps (Suc n) = bnd shutdown_step (\<lambda>progress. if progress then shutdown_steps n else ret False)"

lemma shutdown_steps_end:
  "I0 s \<Longrightarrow> structure_load s < n \<Longrightarrow>
     wp (shutdown_steps n :: (NativeStack, 'e, bool) prog) (\<lambda>b s'. \<not> b \<and> I0 s' \<and> \<not> shutdown_structures_pending s') (\<lambda>_ _. False) s"
proof (induction n arbitrary: s)
  case (Suc n)
  show ?case
    by (simp add: wp_bnd, rule wp_mono [OF shutdown_step_spec [OF Suc.prems(1)]])
      (use Suc in \<open>auto simp: step_done_def wp_simps\<close>)
qed simp

text \<open>C17: tearing a stack down ends. Each step of a shutdown lowers the load of the stack, so that after
  at most one step more than that load one reports that nothing is left, and then nothing is. The load
  is the number of records, connections, closing entries, packets and notifications, with three for each
  open socket: its entry and its two possible notifications.\<close>

theorem shutdown_steps_terminate:
  assumes "stack_inv s" and "structure_load s < n"
  shows "\<exists>s'. (shutdown_steps n :: bool op) s = (Inr False, s') \<and> \<not> shutdown_structures_pending s' \<and> stack_inv s'"
proof -
  have "wp (shutdown_steps n :: bool op) (\<lambda>b s'. \<not> b \<and> I0 s' \<and> \<not> shutdown_structures_pending s') (\<lambda>_ _. False) s"
    using assms by (intro shutdown_steps_end) (simp_all add: stack_inv_def)
  then show ?thesis by (cases "(shutdown_steps n :: bool op) s") (auto simp: wp_def stack_inv_def split: sum.splits)
qed

theorem shutdown_steps_terminate_witness:
  "\<exists>s'. (shutdown_steps (Suc (structure_load open_stack)) :: bool op) open_stack = (Inr False, s') \<and> \<not> shutdown_structures_pending s'"
  using shutdown_steps_terminate [of open_stack "Suc (structure_load open_stack)"] attained_inv [OF idle_engine_ok open_attained open_inner]
  by (auto simp: stack_inv_def)

end
