(* ===== verification/Stream_Results.thy ===== *)
theory Stream_Results
  imports Call_Results
begin

text \<open>
  What the stream operations answer: a receive returns what the connection has received, in order; a
  send accepts what fits; and connecting fails for a peer that closes at once. The lemmas follow a
  call to the answer it gives \<open>finish_call\<close>, whatever the drive of the engine in between does.
\<close>

section \<open>Answers\<close>

lemma finish_answer: "wp (finish_call E answer eff aborts) (\<lambda>v _. env_result v = answer) (\<lambda>_ _. True) s"
  using finish_call_result [of "limits s" answer E eff aborts]
  by (auto simp: wp_def gives_def split: sum.splits prod.splits)

lemma wp_any: "wp m (\<lambda>_ _. True) (\<lambda>_ _. True) s"
  by (simp add: wp_def split: sum.splits prod.splits)

lemma drive_answer:
  "wp (bnd (expect (drive E now n)) (\<lambda>eff. finish_call E answer eff aborts)) (\<lambda>v _. env_result v = answer) (\<lambda>_ _. True) s"
  unfolding wp_bnd wp_expect by (rule wp_mono [OF wp_any]) (auto intro: finish_answer)

text \<open>An answer that holds the property \<open>P\<close>, as the value of a call.\<close>

lemma drive_answers: "P answer \<Longrightarrow>
  wp (bnd (expect (drive E now n)) (\<lambda>eff. finish_call E answer eff aborts)) (\<lambda>v _. P (env_result v)) (\<lambda>_ _. True) s"
  by (rule wp_mono [OF drive_answer]) auto

text \<open>A step that only reads.\<close>

lemma wp_read: "frames (\<lambda>s. s) m \<Longrightarrow> (\<And>x. fst (m s) = Inr x \<Longrightarrow> wp (k x) Q (\<lambda>_ _. True) s) \<Longrightarrow> wp (bnd m k) Q (\<lambda>_ _. True) s"
proof -
  assume m: "frames (\<lambda>s. s) m" and k: "\<And>x. fst (m s) = Inr x \<Longrightarrow> wp (k x) Q (\<lambda>_ _. True) s"
  obtain v where "m s = (v, s)" using framesD [OF m] by (metis prod.collapse)
  then show ?thesis using k by (cases v) (auto simp: wp_def bnd_def)
qed

lemma wp_known: "m s = (Inr x, s) \<Longrightarrow> wp (k x) Q E s \<Longrightarrow> wp (bnd m k) Q E s"
  by (simp add: wp_def bnd_def)

lemma wp_branch: "(c \<Longrightarrow> wp m Q E s) \<Longrightarrow> (\<not> c \<Longrightarrow> wp n Q E s) \<Longrightarrow> wp (if c then m else n) Q E s"
  by simp

lemma wp_socket:
  assumes "ss_get_tcp (socket_set s) h = Some sk" and "f sk = (x, sk', [])" and "\<And>s'. wp (k x) Q (\<lambda>_ _. True) s'"
  shows "wp (bnd (on_tcp h f) k) Q (\<lambda>_ _. True) s"
  using assms by (simp add: wp_simps on_tcp_def get_tcp_def put_socket_def wake_def)

text \<open>The checks every operation on a stream starts with.\<close>

lemma wp_connected:
  assumes "tcp_record i s = Inr r" and "wp (k r) Q (\<lambda>_ _. True) s"
  shows "wp (bnd (ask ensure_running) (\<lambda>_.
     bnd (ask (\<lambda>s. validate (socket_table s) i Tcp)) (\<lambda>_.
     bnd (ask (tcp_record i)) (\<lambda>r.
     bnd (ask (\<lambda>s. has_waiter (socket_table s) i Tcp dir)) (\<lambda>waiting.
     if waiting then raise (Err SE_Busy) else bnd (ensure_connected r) (\<lambda>_. k r)))))) Q (\<lambda>_ _. True) s"
  apply (rule wp_read, intro frame_intros)
  apply (rule wp_read, intro frame_intros)
  apply (rule wp_known, simp add: ask_def assms(1))
  apply (rule wp_read, intro frame_intros)
  apply (rule wp_branch, simp add: wp_simps)
  apply (rule wp_read, (auto simp: ensure_connected_def get_tcp_def intro!: frame_intros split: ConnectPhase.splits)[1])
  by (rule assms(2))

section \<open>Receiving\<close>

text \<open>The bytes an answer carries.\<close>

fun answer_data :: "Answer \<Rightarrow> bytes" where
  "answer_data (A_data data) = data"
| "answer_data (A_select_data _ _ data) = data"
| "answer_data _ = []"

definition recv_request :: "nat \<Rightarrow> Limits \<Rightarrow> nat" where
  "recv_request len l = (if len = 0 then bytes_copied l else min len (bytes_copied l))"

text \<open>What the part of \<open>tcp_recv\<close> that reads the buffer of a well-formed socket returns.\<close>

lemma empty_contents [simp]: "rb_length b = 0 \<Longrightarrow> contents b = []"
  using length_contents [of b] by (simp del: length_contents)

lemma read_part:
  assumes "native_wf (NTcp sk)"
    and "(if 0 < min n (recv_queue sk) then recv_slice (min n (recv_queue sk)) sk else (Some [], sk)) = (d, sk')"
  shows "d = Some (take n (contents (rx_buffer sk))) \<and> state sk' = state sk \<and> contents (rx_buffer sk') = drop n (contents (rx_buffer sk))"
proof (cases "0 < min n (recv_queue sk)")
  case True
  have wf: "ring_wf (rx_buffer sk)" using assms(1) by (simp add: native_wf.simps)
  obtain xs rx where run: "dequeue_slice (min n (recv_queue sk)) (rx_buffer sk) = (xs, rx)" by fastforce
  have "may_recv sk" using True by (simp add: may_recv_def can_recv_def recv_queue_def rb_is_empty_def)
  moreover have "take (min n (recv_queue sk)) (contents (rx_buffer sk)) = take n (contents (rx_buffer sk))"
    "drop (min n (recv_queue sk)) (contents (rx_buffer sk)) = drop n (contents (rx_buffer sk))"
    by (simp_all add: recv_queue_def min_def)
  ultimately show ?thesis using assms(2) True run dequeue_slice_spec(3,4) [OF wf run] by (auto simp: recv_slice_def)
next
  case False
  then show ?thesis using assms(2) by (auto simp: recv_queue_def)
qed

text \<open>What the answer to a receive holds, given the socket it was made on.\<close>

definition receives_in_order :: "nat \<Rightarrow> Limits \<Rightarrow> TcpSocket \<Rightarrow> Answer \<Rightarrow> bool" where
  "receives_in_order len l sk a \<longleftrightarrow>
     answer_data a = take (recv_request len l) (contents (rx_buffer sk)) \<and>
     (\<forall>data. a = A_data data \<longrightarrow> data \<noteq> [] \<and>
       (len = 0 \<or> length data = len \<or>
        data = contents (rx_buffer sk) \<and> state sk \<notin> {S_Established, S_FinWait1, S_FinWait2}))"

lemma receives_complete:
  assumes "receive_complete len (length data) receive_open" and "data = take (recv_request len l) (contents (rx_buffer sk))"
    and "state sk' = state sk" and "contents (rx_buffer sk') = drop (recv_request len l) (contents (rx_buffer sk))"
    and "receive_open = may_recv sk'"
  shows "receives_in_order len l sk (A_data data)"
proof -
  have "contents (rx_buffer sk') = []" "state sk \<notin> {S_Established, S_FinWait1, S_FinWait2}" if "\<not> receive_open"
    using that assms(3,5) by (auto simp: may_recv_def can_recv_def rb_is_empty_def)
  moreover have "data \<noteq> []" using assms(1) by (auto simp: receive_complete_def split: if_splits)
  ultimately show ?thesis using assms(1,2,4) by (auto simp: receives_in_order_def receive_complete_def split: if_splits)
qed

lemma recv_rest:
  assumes "data = take (recv_request len l) (contents (rx_buffer sk))" and "state sk' = state sk"
    and "contents (rx_buffer sk') = drop (recv_request len l) (contents (rx_buffer sk))"
  shows "wp (bnd (if receive_complete len (length data) (may_recv sk') then ret (A_data data)
        else if \<not> may_recv sk' then raise (Err SE_EndOfStream)
        else bnd (arm_tcp_waiter i h Read Recv p rf readable) (\<lambda>_.
             ret (if data = [] then A_select Recv rf else A_select_data Recv rf data))) (\<lambda>answer.
      bnd (expect (drive E now (Some (length data)))) (\<lambda>effects. finish_call E answer effects [])))
    (\<lambda>v _. receives_in_order len l sk (env_result v)) (\<lambda>_ _. True) s"
proof -
  have "receives_in_order len l sk (if data = [] then A_select Recv rf else A_select_data Recv rf data)"
    using assms(1) by (simp add: receives_in_order_def)
  then show ?thesis
    using receives_complete [OF _ assms refl]
    unfolding wp_bnd [where k = "\<lambda>answer. bnd (expect (drive E now (Some (length data)))) (\<lambda>effects. finish_call E answer effects [])"]
    by (auto intro!: wp_branch drive_answers wp_mono [OF wp_any] simp: wp_ret wp_raise wp_bnd [where m = "arm_tcp_waiter i h Read Recv p rf readable"])
qed

lemma recv_answers:
  assumes "tcp_record i s = Inr r" and "ss_get_tcp (socket_set s) (tr_handle r) = Some sk" and "native_wf (NTcp sk)"
  shows "wp (tcp_recv E i len p rf now) (\<lambda>v _. receives_in_order len (limits s) sk (env_result v)) (\<lambda>_ _. True) s"
proof -
  let ?n = "recv_request len (limits s)"
  obtain d sk' where read: "(if 0 < min ?n (recv_queue sk) then recv_slice (min ?n (recv_queue sk)) sk else (Some [], sk)) = (d, sk')"
    by fastforce
  note spec = read_part [OF assms(3) read]
  let ?data = "take ?n (contents (rx_buffer sk))"
  note rest = recv_rest [OF refl, of sk' sk len "limits s" i "tr_handle r" p rf _ E now]
  show ?thesis
    unfolding tcp_recv_def
    apply (rule wp_connected [OF assms(1)])
    apply (rule wp_branch, simp add: wp_simps)
    apply (rule wp_known, simp add: gets_def recv_request_def [symmetric])
    apply (rule wp_known, simp add: get_tcp_def bnd_def gets_def unwrap_def assms(2) ret_def)
    apply (rule wp_read, intro frame_intros)
    apply (rule wp_socket [OF assms(2)], unfold Let_def read prod.case, rule refl)
    by (use rest spec in simp)
qed

text \<open>C13: a receive returns exactly the bytes the connection has received next, in order: the first
  \<open>len\<close> of the receive buffer as far as it has them and the copy limit of a call allows. It counts as
  complete, that is without a select, only if it has the \<open>len\<close> bytes asked for, or any if \<open>len\<close> is zero, or
  if it drained the buffer of a connection whose peer has closed.\<close>

theorem tcp_recv_in_order:
  assumes "tcp_recv E i len p rf now s = (Inr v, s')" and "tcp_record i s = Inr r"
    and "ss_get_tcp (socket_set s) (tr_handle r) = Some sk" and "native_wf (NTcp sk)"
  shows "answer_data (env_result v) = take (recv_request len (limits s)) (contents (rx_buffer sk)) \<and>
    (\<forall>data. env_result v = A_data data \<longrightarrow> data \<noteq> [] \<and>
       (len = 0 \<or> length data = len \<or>
        data = contents (rx_buffer sk) \<and> state sk \<notin> {S_Established, S_FinWait1, S_FinWait2}))"
  using recv_answers [OF assms(2-4), of E len p rf now] assms(1)
  unfolding wp_def receives_in_order_def by simp

section \<open>Sending\<close>

text \<open>What fits into the transmit buffer of a socket, of what one call may copy.\<close>

definition send_fits :: "bytes \<Rightarrow> Limits \<Rightarrow> TcpSocket \<Rightarrow> nat" where
  "send_fits data l sk = min (min (length data) (bytes_copied l)) (send_capacity sk - send_queue sk)"

lemma send_answers:
  assumes "tcp_record i s = Inr r" and "ss_get_tcp (socket_set s) (tr_handle r) = Some sk" and "native_wf (NTcp sk)"
  shows "wp (tcp_send E i data p rf now)
    (\<lambda>v _. env_result v = (if send_fits data (limits s) sk = length data then A_ok
                           else A_select_sent Send rf (send_fits data (limits s) sk))) (\<lambda>_ _. True) s"
proof -
  let ?n = "send_fits data (limits s) sk"
  let ?limit = "min (length data) (bytes_copied (limits s))"
  have wf: "ring_wf (tx_buffer sk)" using assms(3) by (simp add: native_wf.simps)
  obtain m tx where run: "enqueue_slice (take ?limit data) (tx_buffer sk) = (m, tx)" by fastforce
  have "m = ?n"
    using enqueue_slice_spec(3) [OF wf run] by (simp add: send_fits_def send_capacity_def send_queue_def window_def)
  then obtain sent sk' where put: "send_slice (take ?limit data) sk = (sent, sk')" "sent = None \<or> sent = Some ?n"
    using run by (cases "may_send sk") (auto simp: send_slice_def)
  let ?a = "if ?n = length data then A_ok else A_select_sent Send rf ?n"
  have rest: "wp (bnd (if ?n = length data then ret A_ok
        else bnd (arm_tcp_waiter i h Write Send p rf writable) (\<lambda>_. ret (A_select_sent Send rf ?n))) (\<lambda>answer.
      bnd (expect (drive E now (Some ?n))) (\<lambda>effects. finish_call E answer effects [])))
    (\<lambda>v _. env_result v = ?a) (\<lambda>_ _. True) s'" for h writable s'
    unfolding wp_bnd [where k = "\<lambda>answer. bnd (expect (drive E now (Some ?n))) (\<lambda>effects. finish_call E answer effects [])"]
    by (auto intro!: wp_branch drive_answers wp_mono [OF wp_any] simp: wp_ret wp_bnd [where m = "arm_tcp_waiter i h Write Send p rf writable"])
  show ?thesis
    unfolding tcp_send_def
    apply (rule wp_connected [OF assms(1)])
    apply (rule wp_branch, simp add: wp_simps)
    apply (rule wp_known, simp add: gets_def)
    apply (rule wp_known, simp add: get_tcp_def bnd_def gets_def unwrap_def assms(2) ret_def)
    apply (rule wp_branch, simp add: wp_simps)
    apply (rule wp_read, intro frame_intros)
    apply (rule wp_socket [OF assms(2)], unfold put(1) prod.case, rule refl)
    using put(2) rest by (auto simp: wp_raise)
qed

text \<open>C14: a send accepts exactly what fits. It takes as many of the bytes as the transmit buffer has room
  for and one call may copy; it answers \<open>ok\<close> if and only if these are all of them, and otherwise a select
  with their number.\<close>

theorem tcp_send_accepts_what_fits:
  assumes "tcp_send E i data p rf now s = (Inr v, s')" and "tcp_record i s = Inr r"
    and "ss_get_tcp (socket_set s) (tr_handle r) = Some sk" and "native_wf (NTcp sk)"
  shows "env_result v = (let n = min (min (length data) (bytes_copied (limits s))) (send_capacity sk - send_queue sk)
    in if n = length data then A_ok else A_select_sent Send rf n)"
  using send_answers [OF assms(2-4), of E data p rf now] assms(1)
  by (simp add: wp_def send_fits_def Let_def)

section \<open>A sample\<close>

text \<open>A stack with one connected TCP socket in the state \<open>sk\<close>.\<close>

definition stream_record :: TcpRecord where
  "stream_record = TcpRecord_accepted (SocketIdentity 0 9) 0 \<lparr>ip_addr = Ipv4 [10, 0, 0, 1], ip_port = 80\<rparr>
     \<lparr>ip_addr = Ipv4 [10, 0, 0, 2], ip_port = 50000\<rparr> 0 4096 4096"

definition stream_stack :: "TcpSocket \<Rightarrow> NativeStack" where
  "stream_stack sk = sample_stack\<lparr>socket_set := [Some (NTcp sk)], tcp_records := [(0, stream_record)],
     socket_table := (SocketTable_new 2 4)\<lparr>entries := [(0, 9, SocketEntry_new Tcp 0)]\<rparr>,
     id_counters := \<lparr>next_socket_id = 1, next_generation = 10\<rparr>\<rparr>"

definition stream_socket :: TcpSocket where
  "stream_socket = (TcpSocket_new (replicate 4096 0) (replicate 4096 0))
     \<lparr>state := S_Established, rx_buffer := snd (enqueue_slice [1, 2, 3] (RingBuffer_new (replicate 4096 0)))\<rparr>"

lemma stream_inv:
  assumes "native_wf (NTcp sk)" and "tcp_info sk = (4096, 4096)" and "tuple sk = None"
  shows "I0 (stream_stack sk)"
proof -
  have dev: "device_wf (dev sample_stack)"
    using attained_inv [OF idle_engine_ok sample_attained, of sample_stack] by (simp add: sample_resource_def held_inv_def)
  have get: "ss_get [Some (NTcp sk)] h = (if h = 0 then Some (NTcp sk) else None)" for h by (simp add: ss_get_def)
  have "live_tcp_set [Some (NTcp sk)] = {(0, 4096, 4096)}" "live_udp_set [Some (NTcp sk)] = {}"
    using assms(2) by (auto simp: live_tcp_set_def live_udp_set_def get split: if_splits)
  then have live: "live_tcp [Some (NTcp sk)] = {#(0, 4096, 4096)#}" "live_udp [Some (NTcp sk)] = {#}" by (simp_all add: live_tcp_def live_udp_def)
  have own: "own_at {#} {#} sample_limits [Some (NTcp sk)] [(0, stream_record)] [] []"
    using assms live
    by (auto simp: own_at_def sockets_wf_def get owned_tcp_def owned_udp_def record_held_def stream_record_def TcpRecord_accepted_def ss_count_def
        sample_limits_def native_bytes_def BUFFER_BYTES_def PAYLOAD_BYTES_def MAX_SOCKET_BUFFER_BYTES_def MAX_BUFFER_BYTES_def bt_ok_def
        bt_get_Cons record_ok_def sizes_ok_def early_def valid_buffer_bytes_def MIN_BUFFER_BYTES_def usize_max_def
        split: if_splits)
  show ?thesis
    using own dev
    by (auto simp: held_inv_def stream_stack_def sample_fields ids_at_def table_sig_def keep_at_def table_wf_def ids_def bt_ok_def
        SocketTable_new_def SocketEntry_new_def entry_waiter_count_def sample_limits_def keys_def bs_ok_def bt_get_Cons dom_def split: if_splits)
qed

lemma stream_socket_facts:
  "native_wf (NTcp stream_socket)" "tcp_info stream_socket = (4096, 4096)" "contents (rx_buffer stream_socket) = [1, 2, 3]"
  "state stream_socket = S_Established" "\<not> timeout_abort stream_socket" "recv_queue stream_socket = 3"
  "send_capacity stream_socket = 4096" "send_queue stream_socket = 0" "tuple stream_socket = None"
proof -
  obtain n b where run: "enqueue_slice [1, 2, 3 :: byte] (RingBuffer_new (replicate 4096 0)) = (n, b)" by fastforce
  note spec = enqueue_slice_spec [OF RingBuffer_new_ok(1) run]
  have n: "n = 3" using spec(3) by (simp add: window_def RingBuffer_new_def capacity_def)
  have rx: "rx_buffer stream_socket = b" by (simp add: stream_socket_def run)
  show "native_wf (NTcp stream_socket)" "tcp_info stream_socket = (4096, 4096)"
    using spec(1,2) by (simp_all add: native_wf.simps tcp_info_def rx) (simp_all add: stream_socket_def TcpSocket_new_def)
  show c: "contents (rx_buffer stream_socket) = [1, 2, 3]" using spec(4) n by (simp add: rx)
  show "recv_queue stream_socket = 3" using arg_cong [OF c, of length] by (simp add: recv_queue_def)
  show "state stream_socket = S_Established" "\<not> timeout_abort stream_socket" "send_capacity stream_socket = 4096" "send_queue stream_socket = 0"
    "tuple stream_socket = None"
    by (simp_all add: stream_socket_def TcpSocket_new_def send_capacity_def send_queue_def capacity_def RingBuffer_new_def)
qed

lemma stream_fields:
  "tcp_records (stream_stack k) = [(0, stream_record)]" "socket_set (stream_stack k) = [Some (NTcp k)]"
  "st_lifecycle (stream_stack k) = Running" "(stream_stack k)\<lparr>socket_set := [Some (NTcp k')]\<rparr> = stream_stack k'"
  "limits (stream_stack k) = sample_limits" "tcp_listeners (stream_stack k) = []"
  "validate (socket_table (stream_stack k)) (SocketIdentity 0 9) Tcp = Inr (SocketEntry_new Tcp 0)"
  "ss_get_tcp (socket_set (stream_stack k)) 0 = Some k" "tcp_record (SocketIdentity 0 9) (stream_stack k) = Inr stream_record"
  "tr_handle stream_record = 0" "phase stream_record = Connected" "\<not> read_shutdown stream_record" "\<not> write_shutdown stream_record"
  by (simp_all add: stream_stack_def sample_fields validate_def bt_get_Cons SocketEntry_new_def ss_get_tcp_def ss_get_def tcp_record_def
      is_listener_def stream_record_def TcpRecord_accepted_def)

lemma stream_finish:
  assumes "native_wf (NTcp sk)" and "tcp_info sk = (4096, 4096)" and "tuple sk = None"
  shows "\<exists>v s'. (bnd (expect (drive idle_engine now n)) (\<lambda>eff. finish_call idle_engine answer eff []) :: Answer Envelope op) (stream_stack sk)
    = (Inr v, s')"
proof -
  have "runs I0 (bnd (expect (drive idle_engine now n)) (\<lambda>eff. finish_call idle_engine answer eff []) :: Answer Envelope op)"
    by (intro runs_intros idle_engine_ok)
  from runs_gives [OF this gives_any stream_inv [OF assms]] show ?thesis by blast
qed

lemma stream_steps:
  "ensure_running (stream_stack k) = Inr ()" "has_waiter (socket_table (stream_stack k)) (SocketIdentity 0 9) Tcp dir = Inr False"
  "\<not> timeout_abort k \<Longrightarrow> ensure_connected stream_record (stream_stack k) = (Inr (), stream_stack k)"
  "get_tcp 0 (stream_stack k) = (Inr k, stream_stack k)"
  "f k = (x, k', []) \<Longrightarrow> on_tcp 0 f (stream_stack k) = (Inr x, stream_stack k')"
  by (cases dir; simp add: ask_def ensure_running_def stream_fields has_waiter_def bind_res_def SocketEntry_new_def ensure_connected_def get_tcp_def
      bnd_def gets_def unwrap_def ret_def on_tcp_def put_socket_def modify_def wake_def ss_put_def ss_get_tcp_def ss_get_def)+

lemma stream_received:
  "\<exists>v s'. tcp_recv idle_engine (SocketIdentity 0 9) 2 p rf now (stream_stack stream_socket) = (Inr v, s')"
proof -
  obtain xs rx where run: "dequeue_slice 2 (rx_buffer stream_socket) = (xs, rx)" by fastforce
  let ?sk = "stream_socket\<lparr>rx_buffer := rx\<rparr>"
  have wf: "ring_wf (rx_buffer stream_socket)" using stream_socket_facts(1) by (simp add: native_wf.simps)
  note spec = dequeue_slice_spec [OF wf run]
  have read: "recv_slice 2 stream_socket = (Some [1, 2], ?sk)"
    using spec(3) by (simp add: recv_slice_def run may_recv_def stream_socket_facts)
  have sk: "native_wf (NTcp ?sk)" "tcp_info ?sk = (4096, 4096)" "tuple ?sk = None"
    using spec(1,2) stream_socket_facts(1,2,9) by (simp_all add: native_wf.simps tcp_info_def)
  show ?thesis
    using stream_finish [OF sk, of now "Some (Suc (Suc 0))" "A_data [1, 2]"] read
    by (simp add: tcp_recv_def bnd_def stream_steps stream_fields stream_socket_facts ask_def gets_def Let_def sample_limits_def
        receive_needs_waiter_def receive_complete_def ret_def)
qed

lemma stream_sent:
  "\<exists>v s'. tcp_send idle_engine (SocketIdentity 0 9) [7, 8] p rf now (stream_stack stream_socket) = (Inr v, s')"
proof -
  obtain n tx where run: "enqueue_slice [7, 8] (tx_buffer stream_socket) = (n, tx)" by fastforce
  let ?sk = "stream_socket\<lparr>tx_buffer := tx\<rparr>"
  have wf: "ring_wf (tx_buffer stream_socket)" using stream_socket_facts(1) by (simp add: native_wf.simps)
  note spec = enqueue_slice_spec [OF wf run]
  have "n = 2" using spec(3) stream_socket_facts(7,8) by (simp add: window_def send_capacity_def send_queue_def)
  then have put: "send_slice [7, 8] stream_socket = (Some 2, ?sk)" "may_send stream_socket"
    by (simp_all add: send_slice_def run may_send_def stream_socket_facts)
  have sk: "native_wf (NTcp ?sk)" "tcp_info ?sk = (4096, 4096)" "tuple ?sk = None"
    using spec(1,2) stream_socket_facts(1,2,9) by (simp_all add: native_wf.simps tcp_info_def)
  show ?thesis
    using stream_finish [OF sk, of now "Some 2" A_ok] put
    by (simp add: tcp_send_def bnd_def stream_steps stream_fields stream_socket_facts ask_def gets_def Let_def sample_limits_def ret_def)
qed

theorem tcp_recv_in_order_witness:
  "\<exists>v s'. tcp_recv idle_engine (SocketIdentity 0 9) 2 0 0 0 (stream_stack stream_socket) = (Inr v, s') \<and> answer_data (env_result v) = [1, 2]"
proof -
  obtain v s' where run: "tcp_recv idle_engine (SocketIdentity 0 9) 2 0 0 0 (stream_stack stream_socket) = (Inr v, s')"
    using stream_received by blast
  have "ss_get_tcp (socket_set (stream_stack stream_socket)) (tr_handle stream_record) = Some stream_socket" by (simp only: stream_fields(8,10))
  from run tcp_recv_in_order [OF run stream_fields(9) this stream_socket_facts(1)] show ?thesis
    by (simp add: recv_request_def stream_fields sample_limits_def stream_socket_facts)
qed

theorem tcp_send_accepts_what_fits_witness:
  "\<exists>v s'. tcp_send idle_engine (SocketIdentity 0 9) [7, 8] 0 0 0 (stream_stack stream_socket) = (Inr v, s') \<and> env_result v = A_ok"
proof -
  obtain v s' where run: "tcp_send idle_engine (SocketIdentity 0 9) [7, 8] 0 0 0 (stream_stack stream_socket) = (Inr v, s')"
    using stream_sent by blast
  have "ss_get_tcp (socket_set (stream_stack stream_socket)) (tr_handle stream_record) = Some stream_socket" by (simp only: stream_fields(8,10))
  from run tcp_send_accepts_what_fits [OF run stream_fields(9) this stream_socket_facts(1)] show ?thesis
    by (simp add: stream_fields sample_limits_def stream_socket_facts)
qed

section \<open>Connecting to a peer that closes at once\<close>

text \<open>C40: a connection whose peer has already sent its \<open>FIN\<close> when the connect is retried is in \<open>CLOSE-WAIT\<close>.
  The retry never succeeds: it fails and changes nothing, so that the socket stays \<open>Connecting\<close>, and
  every receive on it fails too, whatever data the peer sent before it closed.\<close>

theorem connect_close_wait_fails:
  assumes "tcp_record i s = Inr r" and "phase r = Connecting"
    and "ss_get_tcp (socket_set s) (tr_handle r) = Some sk" and "state sk = S_CloseWait"
  shows "(\<exists>e. tcp_connect E i endpoint p rf now s = (Inl (Err e), s)) \<and> (\<exists>e. tcp_recv E i len p' rf' now' s = (Inl (Err e), s))"
proof
  have "finalize_or_arm_connect E i p rf now s = (Inl (Err SE_InvalidState), s)"
    using assms by (simp add: finalize_or_arm_connect_def bnd_def ask_def get_tcp_def gets_def unwrap_def ret_def raise_def)
  then show "\<exists>e. tcp_connect E i endpoint p rf now s = (Inl (Err e), s)"
    using assms by (auto simp: tcp_connect_def bnd_def ask_def liftr_def raise_def split: sum.splits)
  show "\<exists>e. tcp_recv E i len p' rf' now' s = (Inl (Err e), s)"
    using assms by (auto simp: tcp_recv_def bnd_def ask_def raise_def ensure_connected_def split: sum.splits)
qed

theorem connect_close_wait_fails_witness:
  "\<exists>e. tcp_connect idle_engine (SocketIdentity 0 9) \<lparr>te_address = [10, 0, 0, 2], te_port = 50000, te_scope_id = 0\<rparr> 0 0 0
      ((stream_stack (stream_socket\<lparr>state := S_CloseWait\<rparr>))\<lparr>tcp_records := [(0, stream_record\<lparr>phase := Connecting\<rparr>)]\<rparr>) =
    (Inl (Err e), (stream_stack (stream_socket\<lparr>state := S_CloseWait\<rparr>))\<lparr>tcp_records := [(0, stream_record\<lparr>phase := Connecting\<rparr>)]\<rparr>)"
proof -
  let ?s = "(stream_stack (stream_socket\<lparr>state := S_CloseWait\<rparr>))\<lparr>tcp_records := [(0, stream_record\<lparr>phase := Connecting\<rparr>)]\<rparr>"
  have "tcp_record (SocketIdentity 0 9) ?s = Inr (stream_record\<lparr>phase := Connecting\<rparr>)"
    by (simp add: stream_stack_def sample_fields tcp_record_def is_listener_def bt_get_Cons stream_record_def TcpRecord_accepted_def)
  moreover have "ss_get_tcp (socket_set ?s) (tr_handle (stream_record\<lparr>phase := Connecting\<rparr>)) = Some (stream_socket\<lparr>state := S_CloseWait\<rparr>)"
    by (simp add: stream_fields ss_get_tcp_def ss_get_def)
  ultimately show ?thesis using connect_close_wait_fails [of "SocketIdentity 0 9" ?s] by simp
qed

end
