(* ===== verification/Accept_Order.thy ===== *)
theory Accept_Order
  imports Stream_Results
begin

text \<open>
  Connections are accepted in the order they were completed. A listener's accept queue is extended at
  its end by the listener sweep and shortened at its front by \<open>tcp_accept\<close>; everything else a call does
  leaves the listeners alone.
\<close>

section \<open>What leaves the listeners alone\<close>

lemma listeners_functions [simp]:
  "tcp_listeners (charge_now E s) = tcp_listeners s" "tcp_listeners (send_abort E n s) = tcp_listeners s"
  "tcp_listeners (deliver_or_discard_ready E k s) = tcp_listeners s" "tcp_listeners (start_sweep s) = tcp_listeners s"
  "tcp_listeners (after_scan scan s) = tcp_listeners s" "tcp_listeners (snd (allocate_child l s)) = tcp_listeners s"
  "tcp_listeners (request_listener_scan s) = tcp_listeners s"
  by (auto simp: charge_now_def send_abort_def send_message_def observe_notification_def deliver_or_discard_ready_def deliver_ready_def
      drop_readiness_def start_sweep_def after_scan_def allocate_child_def request_listener_scan_def check_def Let_def
      split: prod.splits option.splits ReadyResult.splits sum.splits)

lemma listeners_1 [frame_intros]:
  "frames tcp_listeners (charge_chunk E x0 x1)" "frames tcp_listeners (within_budget E)" "frames tcp_listeners (wake x2)"
  "frames tcp_listeners (get_tcp x3)" "frames tcp_listeners (put_socket x5 x6)" "frames tcp_listeners (add_socket x7)"
  "frames tcp_listeners (remove_socket x8)" "frames tcp_listeners (current_effects E x15)"
  "frames tcp_listeners (drain_ready E x16)" "frames tcp_listeners (run_scan E x17)" "frames tcp_listeners (act (allocate_child l))"
  unfolding charge_chunk_def within_budget_def wake_def get_tcp_def put_socket_def add_socket_def remove_socket_def current_effects_def engine_poll_at_def
    drain_ready_def run_scan_def Let_def
  by ((intro frame_intros)?; auto intro!: frame_intros split: frame_splits)+

lemma listeners_2 [frame_intros]: "frames tcp_listeners (on_tcp x0 x1)" "frames tcp_listeners (mark_listener_ready x6)"
  unfolding on_tcp_def mark_listener_ready_def
  by ((intro frame_intros)?; auto intro!: frame_intros split: frame_splits)+

lemma listeners_abort_loop [frame_intros]: "frames tcp_listeners (abort_loop a0 a1 a2 a3)"
  by (induction a1 arbitrary: a0 a2 a3) (auto simp: Let_def intro!: frame_intros split: prod.splits)

lemma listeners_queued_loop [frame_intros]: "frames tcp_listeners (queued_loop a0 a1 a2 a3)"
  by (induction a1 arbitrary: a0 a2 a3) (auto simp: Let_def intro!: frame_intros split: prod.splits)

lemma listeners_pending_loop [frame_intros]: "frames tcp_listeners (pending_loop a0 a1 a2 a3)"
  by (induction a1 arbitrary: a0 a2 a3) (auto simp: Let_def intro!: frame_intros split: prod.splits)

lemma listeners_scan_keys_loop [frame_intros]: "frames tcp_listeners (scan_keys_loop a0 a1 a2)"
  by (induction a1 arbitrary: a0 a2) (auto simp: Let_def intro!: frame_intros split: prod.splits)

lemma listeners_3 [frame_intros]: "frames tcp_listeners (upd_tcp x0 x1)" "frames tcp_listeners (sweep_step E x4 x5)"
  unfolding upd_tcp_def sweep_step_def Let_def
  by ((intro frame_intros)?; auto intro!: frame_intros split: frame_splits)+

lemma listeners_4 [frame_intros]: "frames tcp_listeners (finish_call E x0 x1 x2)" "frames tcp_listeners (add_listener_member x3)"
  unfolding finish_call_def add_listener_member_def Let_def
  by ((intro frame_intros)?; auto intro!: frame_intros split: frame_splits)+

lemma listeners_5 [frame_intros]:
  "frames tcp_listeners (recycle_listener_member x0 x1)" "frames tcp_listeners (promote_listener_member l x h loc rem)"
  unfolding recycle_listener_member_def promote_listener_member_def
  by ((intro frame_intros)?; auto intro!: frame_intros split: frame_splits)+

lemma refresh_member_listeners: "frames tcp_listeners (refresh_member l h)"
  unfolding refresh_member_def by (auto intro!: frame_intros split: frame_splits sum.splits)

section \<open>The sweep appends\<close>

lemma add_member_queue: "gives lim (\<lambda>l'. accept_queue l' = accept_queue l) (add_listener_member l)"
  unfolding add_listener_member_def by (auto intro!: gives_then gives_ret frame_intros)

lemma recycle_queue: "gives lim (\<lambda>l'. accept_queue l' = accept_queue l) (recycle_listener_member l h)"
  unfolding recycle_listener_member_def
  by (rule gives_then, intro frame_intros) (rule gives_mono [OF add_member_queue], simp)

lemma promote_queue: "gives lim (\<lambda>l'. accept_queue l' = accept_queue l @ [child]) (promote_listener_member l h loc rem child)"
  unfolding promote_listener_member_def
  by (intro gives_then frame_intros gives_bnd [OF _ add_member_queue]) (auto intro!: gives_then gives_ret frame_intros)

definition appended :: "ListenerRecord \<Rightarrow> ListenerRecord \<Rightarrow> bool" where
  "appended l l' \<longleftrightarrow> (\<exists>xs. accept_queue l' = accept_queue l @ xs)"

lemma refresh_member_appends: "gives lim (appended l) (refresh_member l h)"
proof -
  have same: "gives lim (appended l) (recycle_listener_member l h)"
    by (rule gives_mono [OF recycle_queue]) (simp add: appended_def)
  have dropped: "gives lim (appended l) (bnd (recycle_listener_member l h) (\<lambda>l. bnd (modify f) (\<lambda>_. ret l)))"
    if "\<And>s. fixed (f s) = fixed s" for f
    by (rule gives_bnd [OF _ same]) (auto intro!: gives_then gives_ret frame_intros that)
  have added: "gives lim (appended l) (promote_listener_member l h loc rem child)" for loc rem child
    by (rule gives_mono [OF promote_queue]) (simp add: appended_def)
  show ?thesis
    unfolding refresh_member_def
    by (auto intro!: gives_then gives_ret gives_raise frame_intros same dropped added simp: appended_def split: option.splits sum.splits bool.splits)
qed

text \<open>The queue of the listener \<open>k\<close>, and that it has only grown.\<close>

definition queue_of :: "nat \<Rightarrow> NativeStack \<Rightarrow> SocketIdentity list option" where
  "queue_of k s = map_option accept_queue (bt_get (tcp_listeners s) k)"

definition grows :: "nat \<Rightarrow> NativeStack \<Rightarrow> NativeStack \<Rightarrow> bool" where
  "grows k s s' \<longleftrightarrow> (\<forall>q. queue_of k s = Some q \<longrightarrow> (\<exists>xs. queue_of k s' = Some (q @ xs)))"

lemma grows_same: "tcp_listeners s' = tcp_listeners s \<Longrightarrow> grows k s s'"
  unfolding grows_def queue_of_def by (auto intro: exI [of _ "[]"])

lemma grows_trans: "grows k s t \<Longrightarrow> grows k t u \<Longrightarrow> grows k s u"
  by (fastforce simp: grows_def)

lemma wp_grows_frame: "frames tcp_listeners m \<Longrightarrow> grows k s0 s \<Longrightarrow> wp m (\<lambda>_. grows k s0) (\<lambda>_ _. True) s"
  by (cases "m s") (auto simp: wp_def split: sum.splits intro: grows_trans grows_same dest: framesD)

lemma wp_framed:
  assumes "frames F m" and "gives (limits s) P m"
  shows "wp m (\<lambda>x s'. F s' = F s \<and> P x) (\<lambda>_ _. True) s"
  using assms framesD [OF assms(1)] by (cases "m s") (auto simp: wp_def gives_def split: sum.splits)

lemma refresh_listener_grows: "grows k s0 s \<Longrightarrow> wp (refresh_listener_member key) (\<lambda>_. grows k s0) (\<lambda>_ _. True) s"
proof (cases "bt_get (tcp_listeners s) (fst key)")
  case (Some l)
  assume g: "grows k s0 s"
  let ?s = "s\<lparr>tcp_listeners := bt_remove (fst key) (tcp_listeners s)\<rparr>"
  let ?m = "if snd key \<notin> set (pool l) then ret l else refresh_member l (snd key)"
  have kept: "wp ?m (\<lambda>l' t. tcp_listeners t = tcp_listeners ?s \<and> appended l l') (\<lambda>_ _. True) ?s"
  proof (rule wp_framed)
    have "appended l l" by (simp add: appended_def)
    then show "gives (limits ?s) (appended l) ?m" by (auto intro!: gives_ret refresh_member_appends)
  qed (auto intro!: frame_intros refresh_member_listeners)
  have "grows k s0 (t\<lparr>tcp_listeners := bt_insert (fst key) l' (tcp_listeners t)\<rparr>)"
    if "tcp_listeners t = tcp_listeners ?s" "appended l l'" for t l'
    by (rule grows_trans [OF g]) (use that Some in \<open>auto simp: grows_def queue_of_def appended_def\<close>)
  then have "wp ?m (\<lambda>l' t. grows k s0 (t\<lparr>tcp_listeners := bt_insert (fst key) l' (tcp_listeners t)\<rparr>)) (\<lambda>_ _. True) ?s"
    by (intro wp_mono [OF kept]) auto
  then show ?thesis by (simp add: refresh_listener_member_def wp_bnd wp_gets wp_modify Some)
qed (simp add: refresh_listener_member_def wp_simps)

lemma refresh_loop_grows: "grows k s0 s \<Longrightarrow> wp (refresh_loop E ks work processed) (\<lambda>_. grows k s0) (\<lambda>_ _. True) s"
proof (induction ks arbitrary: s work processed)
  case (Cons key ks)
  show ?case
    unfolding refresh_loop.simps wp_bnd
    by (rule wp_mono [OF wp_grows_frame [OF listeners_1(2) Cons.prems]])
      (auto simp: wp_simps intro!: wp_mono [OF refresh_listener_grows] Cons.IH)
qed (simp add: wp_simps)

lemma refresh_grows: "wp (refresh_listeners E limit) (\<lambda>_. grows k s) (\<lambda>_ _. True) s"
proof -
  have keep: "grows k s (t\<lparr>listener_scan_cursor := a\<rparr>) = grows k s t" "grows k s (t\<lparr>listener_scan_pending := b\<rparr>) = grows k s t"
    "grows k s (t\<lparr>listener_scan_resweep := c\<rparr>) = grows k s t" for t a b c
    by (simp_all add: grows_def queue_of_def)
  have same: "grows k s s" by (rule grows_same) simp
  show ?thesis
    unfolding refresh_listeners_def Let_def
    by (auto simp: wp_simps keep same intro!: wp_mono [OF refresh_loop_grows])
qed

section \<open>Accepting\<close>

text \<open>What an accept does to the queue of a listener that had \<open>q\<close> in it.\<close>

definition accepts_oldest :: "nat \<Rightarrow> SocketIdentity list \<Rightarrow> Answer \<Rightarrow> NativeStack \<Rightarrow> bool" where
  "accepts_oldest k q a s' \<longleftrightarrow> (\<forall>c cs child fam. q = c # cs \<longrightarrow> a = A_accepted child fam \<longrightarrow>
     child = c \<and> (\<exists>xs. queue_of k s' = Some (cs @ xs)))"

lemma accept_finish:
  "wp (bnd (current_effects E now) (\<lambda>eff. finish_call E answer (f eff) [])) (\<lambda>v t. tcp_listeners t = tcp_listeners s \<and> env_result v = answer)
     (\<lambda>_ _. True) s"
  by (rule wp_framed) (auto intro!: frame_intros gives_then finish_call_result)

lemma accept_child:
  "wp (bnd (ask (tcp_record child)) (\<lambda>r. bnd (gets g) (\<lambda>(nodelay, keepalive). bnd (gets (h keepalive)) (\<lambda>ka.
      bnd (upd_tcp (tr_handle r) (set_nagle_enabled (\<not> nodelay))) (\<lambda>_.
      bnd (upd_tcp (tr_handle r) (set_keep_alive_config ka)) (\<lambda>_. ret (A_accepted child (tr_family r))))))))
     (\<lambda>a t. tcp_listeners t = tcp_listeners s \<and> (\<exists>fam. a = A_accepted child fam)) (\<lambda>_ _. True) s"
  by (rule wp_framed) (auto intro!: frame_intros gives_then gives_ret split: prod.splits)

lemma accept_queue_pop:
  assumes "queue_of k s = Some q" and "grows k s s'"
    and "(case bt_get (tcp_listeners s') k of None \<Rightarrow> (None, s')
          | Some l \<Rightarrow> (case accept_queue l of [] \<Rightarrow> (None, s')
              | c # cs \<Rightarrow> (Some c, s'\<lparr>tcp_listeners := bt_insert k (l\<lparr>accept_queue := cs\<rparr>) (tcp_listeners s')\<rparr>))) = (Some child, t)"
    and "tcp_listeners u = tcp_listeners t"
  shows "accepts_oldest k q (A_accepted child fam) u"
  using assms by (auto simp: accepts_oldest_def grows_def queue_of_def split: option.splits list.splits)

lemma accept_tail:
  assumes "wp m G (\<lambda>_ _. True) s" and "\<And>a t u. G a t \<Longrightarrow> tcp_listeners u = tcp_listeners t \<Longrightarrow> R a u"
  shows "wp (bnd m (\<lambda>answer. bnd (current_effects E now) (\<lambda>eff. finish_call E answer (f eff) []))) (\<lambda>v. R (env_result v)) (\<lambda>_ _. True) s"
  unfolding wp_bnd [of m] by (rule wp_mono [OF assms(1)], rule wp_mono [OF accept_finish]) (auto intro: assms(2))

lemma accept_none: "wp (bnd m (\<lambda>_. ret (A_select Accept rf))) (\<lambda>a _. a = A_select Accept rf) (\<lambda>_ _. True) s"
  unfolding wp_bnd by (rule wp_mono [OF wp_any]) (auto simp: wp_ret)

lemma accept_answers:
  assumes "bt_get (tcp_listeners s) (si_id i) = Some l"
  shows "wp (tcp_accept E i p rf now) (\<lambda>v. accepts_oldest (si_id i) (accept_queue l) (env_result v)) (\<lambda>_ _. True) s"
proof -
  have q: "queue_of (si_id i) (request_listener_scan s) = Some (accept_queue l)" using assms by (simp add: queue_of_def)
  show ?thesis
    unfolding tcp_accept_def
    apply (rule wp_read, intro frame_intros)
    apply (rule wp_read, intro frame_intros)
    apply (rule wp_known, simp add: gets_def)
    apply (rule wp_branch, simp add: wp_simps)
    apply (rule wp_read, intro frame_intros)
    apply (rule wp_branch, simp add: wp_simps)
    apply (simp only: wp_bnd [where m = "modify f" for f] wp_bnd [where m = "refresh_listeners E n" for n] wp_modify)
    apply (rule wp_mono [OF refresh_grows [of _ _ "si_id i"]])
    apply (clarsimp simp: wp_bnd [where m = "act f" for f] wp_act)
    subgoal for xa xb a b s' popped t
      apply (cases popped; simp only: option.case)
       apply (rule accept_tail [OF accept_none], simp add: accepts_oldest_def)
      apply (rule accept_tail [OF accept_child])
      using accept_queue_pop [OF q] by auto
    by simp
qed

text \<open>C15: connections are accepted in the order they were completed: an accept that returns a
  connection returns the oldest one in the listener's queue and removes it, and the others keep their
  order, with connections completed meanwhile behind them.\<close>

theorem accept_is_fifo:
  assumes "tcp_accept E i p rf now s = (Inr v, s')" and "bt_get (tcp_listeners s) (si_id i) = Some l"
    and "accept_queue l = c # cs" and "env_result v = A_accepted child fam"
  shows "child = c \<and> (\<exists>l' completed. bt_get (tcp_listeners s') (si_id i) = Some l' \<and> accept_queue l' = cs @ completed)"
  using accept_answers [OF assms(2), of E p rf now] assms(1,3,4)
  by (auto simp: wp_def accepts_oldest_def queue_of_def)

text \<open>A listener with one connection in its queue.\<close>

definition waiting_listener :: ListenerRecord where
  "waiting_listener = (ListenerRecord_new (SocketIdentity 0 9) \<lparr>ve_address = Ipv4 [10, 0, 0, 1], ve_port = 80, ve_scope_id = 0\<rparr>
     \<lparr>le_addr = Some (Ipv4 [10, 0, 0, 1]), le_port = 80\<rparr> \<lparr>ip_addr = Ipv4 [10, 0, 0, 1], ip_port = 80\<rparr> 1 [0] 4096 4096)
     \<lparr>accept_queue := [SocketIdentity 1 10]\<rparr>"

definition waiting_stack :: NativeStack where
  "waiting_stack = sample_stack\<lparr>
     socket_set := [Some (NTcp (stream_socket\<lparr>state := S_Listen\<rparr>)), Some (NTcp stream_socket)],
     tcp_listeners := [(0, waiting_listener)],
     tcp_records := [(1, stream_record\<lparr>tr_identity := SocketIdentity 1 10, tr_handle := 1\<rparr>)],
     socket_table := (SocketTable_new 2 4)\<lparr>entries := [(0, 9, SocketEntry_new Tcp 0), (1, 10, SocketEntry_new Tcp 1)]\<rparr>,
     id_counters := \<lparr>next_socket_id = 2, next_generation = 11\<rparr>\<rparr>"

lemma waiting_fields:
  "lr_identity waiting_listener = SocketIdentity 0 9" "pool waiting_listener = [0]" "accept_queue waiting_listener = [SocketIdentity 1 10]"
  by (simp_all add: waiting_listener_def ListenerRecord_new_def bs_insert_def)

text \<open>The states the sweep leads to from there: it finds nothing to do.\<close>

definition waiting :: "NativeStack \<Rightarrow> bool" where
  "waiting s \<longleftrightarrow> tcp_listeners s = tcp_listeners waiting_stack \<and> socket_set s = socket_set waiting_stack \<and>
     tcp_records s = tcp_records waiting_stack \<and> socket_table s = socket_table waiting_stack"

lemma waiting_member: "waiting s \<Longrightarrow> wp (refresh_listener_member (0, 0)) (\<lambda>_. waiting) (\<lambda>_ _. False) s"
  by (simp add: refresh_listener_member_def waiting_def waiting_stack_def wp_simps bt_get_Cons waiting_fields refresh_member_def get_tcp_def
      ss_get_tcp_def ss_get_def bt_remove_def)

lemma waiting_loop: "waiting s \<Longrightarrow> list_all (\<lambda>key. key = (0, 0)) ks \<Longrightarrow>
  wp (refresh_loop idle_engine ks work processed) (\<lambda>_. waiting) (\<lambda>_ _. False) s"
proof (induction ks arbitrary: s work processed)
  case (Cons key ks)
  have "waiting (s\<lparr>call_budget := m\<rparr>)" for m using Cons.prems(1) by (simp add: waiting_def)
  then show ?case using Cons by (auto simp: wp_simps within_budget_def intro!: wp_mono [OF waiting_member] split: prod.splits)
qed (simp add: wp_simps)

lemma waiting_refresh: "waiting s \<Longrightarrow> wp (refresh_listeners idle_engine n) (\<lambda>_. waiting) (\<lambda>_ _. False) s"
proof -
  assume w: "waiting s"
  have keep: "waiting (t\<lparr>listener_scan_cursor := a\<rparr>) = waiting t" "waiting (t\<lparr>listener_scan_pending := b\<rparr>) = waiting t"
    "waiting (t\<lparr>listener_scan_resweep := c\<rparr>) = waiting t" for t a b c
    by (simp_all add: waiting_def)
  have "list_all (\<lambda>key. key = (0, 0)) (take m (listener_keys cursor (tcp_listeners s)))" for m cursor
    using w by (auto simp: waiting_def waiting_stack_def listener_keys_def list_all_iff waiting_fields split: option.splits if_splits dest!: in_set_takeD)
  then show ?thesis
    using w unfolding refresh_listeners_def Let_def
    by (auto simp: wp_simps keep intro!: wp_mono [OF waiting_loop])
qed

lemma waiting_accepts:
  "wp (tcp_accept idle_engine (SocketIdentity 0 9) 0 0 0) (\<lambda>v _. \<exists>child fam. env_result v = A_accepted child fam) (\<lambda>_ _. False) waiting_stack"
proof -
  have fin: "wp (finish_call E (A_accepted child fam) eff []) (\<lambda>v _. \<exists>child fam. env_result v = A_accepted child fam) (\<lambda>_ _. False) s"
    if wf: "table_wf (socket_table s)" for E eff s child fam
  proof -
    have "wp (finish_call E (A_accepted child fam) eff []) (\<lambda>_. quiet (view s)) (\<lambda>_ _. False) s"
      by (rule runs_wp [OF quiet_finish]) (use wf in \<open>auto simp: quiet_def view_def\<close>)
    from wp_both [OF this finish_answer] show ?thesis by (rule wp_mono) auto
  qed
  have wf: "table_wf (socket_table waiting_stack)"
    by (simp add: waiting_stack_def table_wf_def bt_ok_def SocketTable_new_def SocketEntry_new_def entry_waiter_count_def)
  have w: "waiting (request_listener_scan waiting_stack)" by (simp add: waiting_def request_listener_scan_def)
  have valid: "validate (socket_table waiting_stack) (SocketIdentity 0 9) Tcp = Inr (SocketEntry_new Tcp 0)"
    by (simp add: waiting_stack_def validate_def bt_get_Cons SocketEntry_new_def)
  have listener: "is_listener (SocketIdentity 0 9) waiting_stack" "ensure_running waiting_stack = Inr ()"
    by (simp_all add: waiting_stack_def is_listener_def bt_get_Cons waiting_fields ensure_running_def sample_fields)
  show ?thesis
    unfolding tcp_accept_def
    apply (rule wp_known, simp add: ask_def listener)
    apply (rule wp_known, simp add: ask_def valid)
    apply (rule wp_known, simp add: gets_def)
    apply (rule wp_branch, simp add: listener)
    apply (rule wp_known [where x = False], simp add: ask_def has_waiter_def valid bind_res_def SocketEntry_new_def)
    apply (simp only: if_False wp_bnd [where m = "modify f" for f] wp_bnd [where m = "refresh_listeners E n" for E n] wp_modify)
    apply (rule wp_mono [OF waiting_refresh [OF w]])
     apply (clarsimp simp: waiting_def)
     apply (simp add: waiting_stack_def wp_simps bt_get_Cons waiting_fields tcp_record_def is_listener_def upd_tcp_def on_tcp_def get_tcp_def
        put_socket_def wake_def ss_put_def ss_get_tcp_def ss_get_def current_effects_def engine_poll_at_def idle_polls stream_record_def TcpRecord_accepted_def)
     apply (rule fin, use wf in \<open>simp add: waiting_stack_def\<close>)
    by simp
qed

theorem accept_is_fifo_witness:
  "\<exists>v s' fam l'. tcp_accept idle_engine (SocketIdentity 0 9) 0 0 0 waiting_stack = (Inr v, s') \<and>
     env_result v = A_accepted (SocketIdentity 1 10) fam \<and> bt_get (tcp_listeners s') 0 = Some l'"
proof -
  obtain v s' child fam where run: "tcp_accept idle_engine (SocketIdentity 0 9) 0 0 0 waiting_stack = (Inr v, s')"
    and answer: "env_result v = A_accepted child fam"
    using waiting_accepts by (cases "tcp_accept idle_engine (SocketIdentity 0 9) 0 0 0 waiting_stack") (auto simp: wp_def split: sum.splits)
  have "bt_get (tcp_listeners waiting_stack) (si_id (SocketIdentity 0 9)) = Some waiting_listener"
    by (simp add: waiting_stack_def bt_get_Cons)
  from accept_is_fifo [OF run this waiting_fields(3) answer] run answer show ?thesis by auto
qed

end
