(* ===== verification/Spec2Isabelle.thy ===== *)
theory Spec2Isabelle
  imports Service_Shutdown Accept_Order
begin

text \<open>
  \<^bold>\<open>Verification of smolnet.\<close> smolnet is a user-space TCP/IP stack for the BEAM. Its Rust core
  (\<open>native/smolnet_core/src\<close>) wraps the vendored engine smoltcp (\<open>native/vendor/smoltcp/src\<close>) in a stack
  that processes call natively: each call is bounded in work and time, never blocks, and turns a panic
  into an error at the native boundary. This development models that core and proves what it promises.

  \<^bold>\<open>Parts of the program and how they interact.\<close> A process holds a \<open>StackResource\<close>, a mutex around a
  \<open>NativeStack\<close>, and calls native functions on it (\<open>lib.rs\<close>). A call takes the mutex without waiting,
  starts a time budget (\<open>budget.rs\<close>), runs one operation of the stack (\<open>stack.rs\<close>), and returns an
  envelope: a result, packets to transmit, the next time to poll and whether more work is waiting. An
  operation works on the socket table (\<open>socket_table.rs\<close>: identities, waiters), on its own records of
  TCP sockets, listeners and UDP sockets (\<open>tcp.rs\<close>, \<open>udp.rs\<close>), and on the engine's sockets, which it
  refers to by handle. It then drives the engine: packets from the device (\<open>device.rs\<close>) go in, packets
  come out as far as credit and the limits (\<open>limits.rs\<close>) allow, listeners are refilled and closing
  sockets reaped. The engine wakes sockets through flags and a bounded ready queue (\<open>waiter.rs\<close>); the
  end of every call turns wakes into one-shot messages to waiting processes.

  \<^bold>\<open>Theories and the code they model.\<close>

    \<^item> \<open>Prelude\<close>: results, the sorted maps and sets of the standard library as association lists, with the
      locales \<open>ordered_map\<close> and \<open>ordered_set\<close> interpreted on them. \<open>Prog\<close>: methods with \<open>&mut self\<close>, \<open>?\<close> and
      panics as state-passing programs (\<open>expect\<close>, \<open>unwrap\<close>, and \<open>debug_assert!\<close>, which is checked as in a debug
      build: since it never fails, a release build behaves the same), with weakest preconditions \<open>wp\<close> and the derived \<open>keeps\<close> (an error
      is allowed, a panic is not) and \<open>runs\<close> (it returns a value).
    \<^item> \<open>Limits\<close>: \<open>limits.rs\<close> and \<open>time.rs\<close>. \<open>Budget\<close>: \<open>budget.rs\<close>. \<open>Device\<close>: \<open>device.rs\<close>, with egress credit as the
      locale \<open>credited_queue\<close>. \<open>Waiter\<close>: \<open>waiter.rs\<close>, with the locale \<open>wake_source\<close>. \<open>Socket_Table\<close> and
      \<open>Socket_Scan\<close>: \<open>socket_table.rs\<close>, with the locale \<open>identity_registry\<close> for identities that are never
      reused.
    \<^item> \<open>Wire\<close>: addresses and the packet checks at ingress, over the engine's \<open>wire\<close> views. \<open>Endpoint\<close>: the
      records, validation and port search of \<open>tcp.rs\<close>, \<open>udp.rs\<close> and the configuration part of \<open>stack.rs\<close>.
    \<^item> \<open>Ring_Buffer\<close>, \<open>Packet_Buffer\<close>, \<open>Native_Socket\<close>: the engine's \<open>storage\<close>, its sockets as the stack uses
      them, and the socket set. The locale \<open>stream_queue\<close> states what a ring buffer promises.
    \<^item> \<open>Stack_State\<close>, \<open>Stack_Ready\<close>, \<open>Stack_Maintenance\<close>, \<open>Stack_Drive\<close>, \<open>Stack_Tcp\<close>, \<open>Stack_Stream\<close>, \<open>Stack_Udp\<close>,
      \<open>Stack_Shutdown\<close>, \<open>Stack_Inspect\<close>: \<open>stack.rs\<close>, one definition per method in the order of the calls
      between them; a loop of a method is a recursive function of its own. \<open>NativeStack\<close> is the struct of
      the same name, field by field, with the messages sent recorded in \<open>outbox\<close>.
    \<^item> \<open>Nif\<close>: \<open>lib.rs\<close> and \<open>StackResource\<close>, one definition \<open>nif_f\<close> per native function \<open>f\<close>.
    \<^item> \<open>Ownership\<close>, \<open>Stack_Invariant\<close>, \<open>Maintenance_Invariant\<close>, \<open>Drive_Invariant\<close>, \<open>Tcp_Invariant\<close>,
      \<open>Tcp_Lifecycle\<close>, \<open>Udp_Invariant\<close>, \<open>Shutdown_Invariant\<close>: the invariant of a stack, \<open>stack_inv\<close>, and that
      every operation keeps it on every path, errors included, without a panic of its own.
    \<^item> \<open>Stack_Frame\<close>, \<open>Call_Bounds\<close>, \<open>Call_Results\<close>, \<open>Stream_Results\<close>, \<open>Accept_Order\<close>: what operations leave
      alone, what they cost and what they answer.
    \<^item> \<open>Nif_Invariant\<close>, \<open>Service\<close>, \<open>Service_Shutdown\<close>: the same at the native boundary, for every sequence of
      requests. \<open>attained D E r\<close> is the inductive set of the resources that \<open>stack_new\<close> and any requests
      lead to, with other stacks of the node in between; the locale \<open>carried\<close> lifts a property of the
      operations to all native functions. The hooks of debug builds are modelled too but are not
      requests: they exist to put a stack into states that requests do not lead to.

  \<^bold>\<open>What the lemmas show.\<close>

    \<^item> Safety of the boundary: with an engine and an allocator that do not panic, proper lists in the
      requests and, in a build with overflow checks, times of a close that leave room for its deadline, no
      request panics or poisons the mutex. Without these hypotheses, a panic of a call on the stack poisons the
      mutex and is answered \<open>native_panic\<close>, and every later request is refused. Native sockets have one owner, are used at their
      type and never leak; a contended resource refuses at once; after a shutdown has begun, sockets are
      refused.
    \<^item> Progress: a shutdown that is polled completes, its steps terminate, and then everything is released.
    \<^item> Bounds: packets, bytes, maintenance and notifications of a call are within the limits, socket and
      buffer counts within capacity, egress within the credit granted, native work within the budget.
    \<^item> Readiness: wakes are never lost, a resumable sweep misses nothing, an armed waiter is notified or
      cancelled and never both, and a closed identity stays dead.
    \<^item> Data: ring and packet buffers are FIFO queues, out-of-order segments reassemble to the stream, a
      receive returns the received bytes in order, a send accepts what fits, connections are accepted in
      order, a connected UDP socket hears its peer only and reports a datagram truncated exactly when it
      is, endpoints validate back as far as their scope allows, a bad packet rejects its batch, and the packet
      checks and checksums agree with their definitions. One lemma records a limitation: a connect that is
      retried after the peer has closed its side fails, and what the peer sent cannot be received.

  \<^bold>\<open>Parameters.\<close> What is not under \<open>src\<close> or lies behind the engine's poll is an argument. The record \<open>Env\<close>
  holds the clock, the scheduler's time slice, message delivery, whether the virtual machine has memory
  for a binary, whether arithmetic is checked for overflow, and the engine's ingress, egress, next
  deadline and source selection. The engine may panic, in particular when there is no memory for a frame
  (\<open>tx_consume\<close>). \<open>engine_ok\<close> states what the stack relies on: on well-formed sockets and a well-formed device
  the engine does not panic (\<open>engine_total\<close>); it neither adds nor removes sockets, keeps their kinds,
  their buffers well formed and of the same size, gives a connection two ends of one address family,
  leaves alone a closed socket that belongs to no connection, and uses the device only through its
  tokens. The record \<open>Rustler\<close> holds the library's access to terms. A request is \<open>admissible\<close> if its lists
  are proper (\<open>proper\<close>) and the time it gives to a close is in range (\<open>timely\<close>, always so without overflow
  checks). \<open>idle_engine\<close>, \<open>sample_terms\<close> and the sample stacks show that these hypotheses can hold, and
  \<open>starved_engine\<close> shows a panic.

  \<^bold>\<open>Bounds and fuel.\<close> There is no artificial fuel. Loops recurse on the list, the remaining limit or the
  remaining capacity the code counts down: at most \<open>maintenance_work\<close> steps of maintenance, \<open>PACKET_CAPACITY\<close>
  datagrams inspected, and so on. Sizes are natural numbers where the code's checks keep them from
  overflowing, which the lemmas on \<open>checked_add\<close> and the limits show; bytes and checksums are machine
  words, instants are checked or wrap at 64 bits as the build does, and the process-wide counters wrap at
  64 bits. The statistics counters of a stack are natural numbers: 64 bits of events do not occur in its
  lifetime.

  \<^bold>\<open>Not modelled.\<close>

    \<^item> The engine's processing of segments, its timers, congestion control, fragmentation, path MTU and
      ICMP: they run inside the engine's poll, whose effect is the parameter above. The path MTU counters
      and the timestamp clock (\<open>tsval\<close>) are values the engine supplies.
    \<^item> The fuzzing drivers of \<open>stack.rs\<close> and \<open>fuzzing.rs\<close> and the unit tests in every file: they call the
      modelled operations and hold no logic of the program.
    \<^item> The uninitialised-memory handling of output packets in \<open>device.rs\<close>, which is a matter of the
      language's memory model: a packet is its bytes.
    \<^item> The byte layout of encoded terms, which is the library's, and the Elixir side (\<open>lib\<close>): it reaches
      the stack through the native functions that are modelled.
\<close>

end
